(* ===== verification/Keldra_Prelude.thy ===== *)
theory Keldra_Prelude
  imports
    Main
    "HOL-Library.Word"
    "HOL-Library.Char_ord"
    "HOL-Library.List_Lexorder"
    "HOL-Library.Product_Lexorder"
begin

text \<open>
  Shared vocabulary of the Keldra development: machine integers and Rust's checked and
  saturating arithmetic on them, the \<open>Result\<close> type with the control flow of the
  \<^verbatim>\<open>?\<close> operator and of \<^verbatim>\<open>for\<close> loops that return early, UTF-8
  strings, and \<^verbatim>\<open>BTreeMap\<close> and \<^verbatim>\<open>BTreeSet\<close> as sorted lists behind
  an interface locale.

  Conventions used by every theory:
  \<^item> a fallible Rust function is a function into \<open>'e + 'a\<close>, with \<open>Inl\<close> for \<open>Err\<close>;
  \<^item> a fallible method with \<^verbatim>\<open>&mut self\<close> returns the result together with
    the state it leaves behind, because a Rust method that fails half way keeps what it wrote;
  \<^item> an error message is the source's format text with the interpolated values left out.
\<close>

unbundle bit_operations_syntax

named_theorems result_simps \<open>rewriting of the Result combinators\<close>
named_theorems btree_simps \<open>rewriting of the ordered-map operations\<close>

section \<open>Machine integers\<close>

type_synonym u8 = "8 word"
type_synonym u16 = "16 word"
type_synonym u32 = "32 word"
type_synonym u64 = "64 word"
type_synonym u128 = "128 word"
type_synonym usize = u64

definition checked_add :: "'a::len word \<Rightarrow> 'a word \<Rightarrow> 'a word option" where
  "checked_add a b = (if unat a + unat b < 2 ^ LENGTH('a) then Some (a + b) else None)"

definition checked_sub :: "'a::len word \<Rightarrow> 'a word \<Rightarrow> 'a word option" where
  "checked_sub a b = (if b \<le> a then Some (a - b) else None)"

definition saturating_add :: "'a::len word \<Rightarrow> 'a word \<Rightarrow> 'a word" where
  "saturating_add a b = (if unat a + unat b < 2 ^ LENGTH('a) then a + b else - 1)"

definition saturating_sub :: "'a::len word \<Rightarrow> 'a word \<Rightarrow> 'a word" where
  "saturating_sub a b = (if b \<le> a then a - b else 0)"

section \<open>Results\<close>

definition bindE :: "'e + 'a \<Rightarrow> ('a \<Rightarrow> 'e + 'b) \<Rightarrow> 'e + 'b" where
  "bindE m f = (case m of Inl e \<Rightarrow> Inl e | Inr x \<Rightarrow> f x)"

definition ensure :: "bool \<Rightarrow> 'e \<Rightarrow> 'e + unit" where
  "ensure c e = (if c then Inr () else Inl e)"

definition ok_or :: "'e \<Rightarrow> 'a option \<Rightarrow> 'e + 'a" where
  "ok_or e x = (case x of None \<Rightarrow> Inl e | Some v \<Rightarrow> Inr v)"

definition map_err :: "('e \<Rightarrow> 'f) \<Rightarrow> 'e + 'a \<Rightarrow> 'f + 'a" where
  "map_err h m = (case m of Inl e \<Rightarrow> Inl (h e) | Inr x \<Rightarrow> Inr x)"

text \<open>
  \<open>forE f xs\<close> runs \<open>f\<close> on the elements in order and stops at the first error, as a
  \<^verbatim>\<open>for\<close> loop whose body uses \<^verbatim>\<open>?\<close> does; \<open>foldE\<close> threads a loop state.
\<close>

fun forE :: "('a \<Rightarrow> 'e + unit) \<Rightarrow> 'a list \<Rightarrow> 'e + unit" where
  "forE f [] = Inr ()"
| "forE f (x # xs) = bindE (f x) (\<lambda>_. forE f xs)"

fun foldE :: "('s \<Rightarrow> 'a \<Rightarrow> 'e + 's) \<Rightarrow> 's \<Rightarrow> 'a list \<Rightarrow> 'e + 's" where
  "foldE f s [] = Inr s"
| "foldE f s (x # xs) = bindE (f s x) (\<lambda>s'. foldE f s' xs)"

fun mapE :: "('a \<Rightarrow> 'e + 'b) \<Rightarrow> 'a list \<Rightarrow> 'e + 'b list" where
  "mapE f [] = Inr []"
| "mapE f (x # xs) = bindE (f x) (\<lambda>y. bindE (mapE f xs) (\<lambda>ys. Inr (y # ys)))"

text \<open>\<open>tryS m s k\<close>: a \<^verbatim>\<open>?\<close> inside a method that has state \<open>s\<close> at that point.\<close>

definition tryS :: "'e + 'a \<Rightarrow> 's \<Rightarrow> ('a \<Rightarrow> ('e + 'b) \<times> 's) \<Rightarrow> ('e + 'b) \<times> 's" where
  "tryS m s k = (case m of Inl e \<Rightarrow> (Inl e, s) | Inr x \<Rightarrow> k x)"

section \<open>Strings\<close>

text \<open>
  A Rust string is its UTF-8 byte sequence: \<open>length\<close> is \<^verbatim>\<open>len()\<close> and the list order
  is Rust's byte-wise order. \<open>str_chars\<close> decodes the code points that
  \<^verbatim>\<open>chars()\<close> yields; a Rust string is valid UTF-8, so the catch-all equation is
  reached on no string the program can hold.
\<close>

definition byte :: "char \<Rightarrow> nat" where
  "byte c = of_char c"

fun decode_bytes :: "nat list \<Rightarrow> nat list" where
  "decode_bytes [] = []"
| "decode_bytes (a # xs) =
     (if a < 128 then a # decode_bytes xs
      else if a < 224 then
        (case xs of b # ys \<Rightarrow> ((a mod 32) * 64 + b mod 64) # decode_bytes ys | _ \<Rightarrow> [])
      else if a < 240 then
        (case xs of b # c # ys \<Rightarrow>
           ((a mod 16) * 4096 + (b mod 64) * 64 + c mod 64) # decode_bytes ys | _ \<Rightarrow> [])
      else
        (case xs of b # c # d # ys \<Rightarrow>
           ((a mod 8) * 262144 + (b mod 64) * 4096 + (c mod 64) * 64 + d mod 64)
             # decode_bytes ys | _ \<Rightarrow> []))"

definition str_chars :: "string \<Rightarrow> nat list" where
  "str_chars s = decode_bytes (map byte s)"

text \<open>\<^verbatim>\<open>char::is_control\<close> is the Unicode category Cc, \<^verbatim>\<open>char::is_whitespace\<close>
  the property White_Space.\<close>

definition is_control :: "nat \<Rightarrow> bool" where
  "is_control c \<longleftrightarrow> c < 32 \<or> (127 \<le> c \<and> c < 160)"

definition is_whitespace :: "nat \<Rightarrow> bool" where
  "is_whitespace c \<longleftrightarrow> (9 \<le> c \<and> c \<le> 13) \<or> c = 32 \<or> c = 133 \<or> c = 160 \<or> c = 5760
     \<or> (8192 \<le> c \<and> c \<le> 8202) \<or> c = 8232 \<or> c = 8233 \<or> c = 8239 \<or> c = 8287 \<or> c = 12288"

definition has_control :: "string \<Rightarrow> bool" where
  "has_control s = list_ex is_control (str_chars s)"

text \<open>\<^verbatim>\<open>str::split\<close> on one ASCII character: an empty string gives one empty segment.\<close>

fun split_on :: "char \<Rightarrow> string \<Rightarrow> string list" where
  "split_on d [] = [[]]"
| "split_on d (c # cs) =
     (if c = d then [] # split_on d cs
      else (case split_on d cs of s # ss \<Rightarrow> (c # s) # ss | [] \<Rightarrow> [[c]]))"

definition is_ascii_digit :: "char \<Rightarrow> bool" where
  "is_ascii_digit c \<longleftrightarrow> 48 \<le> byte c \<and> byte c \<le> 57"

definition is_ascii_alphabetic :: "char \<Rightarrow> bool" where
  "is_ascii_alphabetic c \<longleftrightarrow>
     (65 \<le> byte c \<and> byte c \<le> 90) \<or> (97 \<le> byte c \<and> byte c \<le> 122)"

definition is_ascii_alphanumeric :: "char \<Rightarrow> bool" where
  "is_ascii_alphanumeric c \<longleftrightarrow> is_ascii_digit c \<or> is_ascii_alphabetic c"

section \<open>Ordered maps and sets\<close>

text \<open>
  A \<^verbatim>\<open>BTreeMap\<close> is the list of its entries in ascending key order, which is also the
  order in which the code iterates over it; a \<^verbatim>\<open>BTreeSet\<close> is the ascending list of its
  elements.
\<close>

type_synonym ('k, 'v) btree = "('k \<times> 'v) list"

definition bt_get :: "('k, 'v) btree \<Rightarrow> 'k \<Rightarrow> 'v option" where
  "bt_get m k = map_of m k"

fun bt_insert :: "'k::linorder \<Rightarrow> 'v \<Rightarrow> ('k, 'v) btree \<Rightarrow> ('k, 'v) btree" where
  "bt_insert k v [] = [(k, v)]"
| "bt_insert k v ((k', v') # m) =
     (if k < k' then (k, v) # (k', v') # m
      else if k = k' then (k, v) # m
      else (k', v') # bt_insert k v m)"

definition bt_remove :: "'k \<Rightarrow> ('k, 'v) btree \<Rightarrow> ('k, 'v) btree" where
  "bt_remove k m = filter (\<lambda>e. fst e \<noteq> k) m"

definition bt_wf :: "('k::linorder, 'v) btree \<Rightarrow> bool" where
  "bt_wf m = sorted_wrt (<) (map fst m)"

abbreviation bt_contains_key :: "('k, 'v) btree \<Rightarrow> 'k \<Rightarrow> bool" where
  "bt_contains_key m k \<equiv> bt_get m k \<noteq> None"

fun bs_insert :: "'a::linorder \<Rightarrow> 'a list \<Rightarrow> 'a list" where
  "bs_insert x [] = [x]"
| "bs_insert x (y # ys) =
     (if x < y then x # y # ys else if x = y then y # ys else y # bs_insert x ys)"

definition bs_of_list :: "'a::linorder list \<Rightarrow> 'a list" where
  "bs_of_list xs = fold bs_insert xs []"

section \<open>Lemmas: machine integers\<close>

text \<open>For evaluation the sums are taken on integers, which have binary numerals.\<close>

lemma unat_sum_less: "unat a + unat b < 2 ^ n \<longleftrightarrow> uint a + uint b < 2 ^ n"
proof -
  have "int (unat a + unat b) < int (2 ^ n) \<longleftrightarrow> uint a + uint b < 2 ^ n" by simp
  then show ?thesis by (simp only: of_nat_less_iff)
qed

lemma unat_le_uint: "unat a \<le> n \<longleftrightarrow> uint a \<le> int n"
proof -
  have "int (unat a) \<le> int n \<longleftrightarrow> uint a \<le> int n" by simp
  then show ?thesis by (simp only: of_nat_le_iff)
qed

lemma checked_add_code [code]:
  "checked_add a (b :: 'a::len word) =
     (if uint a + uint b < 2 ^ LENGTH('a) then Some (a + b) else None)"
  by (simp add: checked_add_def unat_sum_less)

lemma saturating_add_code [code]:
  "saturating_add a (b :: 'a::len word) =
     (if uint a + uint b < 2 ^ LENGTH('a) then a + b else - 1)"
  by (simp add: saturating_add_def unat_sum_less)

lemma checked_add_SomeD:
  "checked_add a b = Some c \<Longrightarrow> unat c = unat a + unat b"
  by (auto simp: checked_add_def unat_word_ariths split: if_splits)

lemma checked_sub_SomeD:
  "checked_sub a b = Some c \<Longrightarrow> unat c = unat a - unat b \<and> unat b \<le> unat a"
  by (auto simp: checked_sub_def unat_sub word_le_nat_alt split: if_splits)

lemma checked_sub_Some_iff: "checked_sub a b \<noteq> None \<longleftrightarrow> unat b \<le> unat a"
  by (simp add: checked_sub_def word_le_nat_alt)

lemma unat_saturating_add:
  "unat (saturating_add a (b :: 'a::len word)) = min (unat a + unat b) (2 ^ LENGTH('a) - 1)"
  by (auto simp: saturating_add_def unat_word_ariths unsigned_minus_1_eq_mask mask_eq_exp_minus_1
      min_def)

lemma saturating_add_ge: "a \<le> saturating_add a (b :: 'a::len word)"
proof -
  have "unat a < 2 ^ LENGTH('a)" by (rule unsigned_less)
  then have "unat a \<le> 2 ^ LENGTH('a) - 1" by linarith
  then show ?thesis by (simp add: word_le_nat_alt unat_saturating_add)
qed

section \<open>Lemmas: results\<close>

lemma bindE_simps [simp, result_simps]:
  "bindE (Inl e) f = Inl e"
  "bindE (Inr x) f = f x"
  by (simp_all add: bindE_def)

lemma bindE_eq_Inr [simp, result_simps]:
  "bindE m f = Inr y \<longleftrightarrow> (\<exists>x. m = Inr x \<and> f x = Inr y)"
  by (cases m) simp_all

lemma bindE_eq_Inl [result_simps]:
  "bindE m f = Inl e \<longleftrightarrow> m = Inl e \<or> (\<exists>x. m = Inr x \<and> f x = Inl e)"
  by (cases m) simp_all

lemma ensure_eq [simp, result_simps]:
  "ensure c e = Inr u \<longleftrightarrow> c"
  "ensure c e = Inl e' \<longleftrightarrow> \<not> c \<and> e' = e"
  by (auto simp: ensure_def)

lemma ensure_simps [simp]:
  "ensure True e = Inr ()"
  "ensure False e = Inl e"
  by (simp_all add: ensure_def)

lemma ok_or_eq [simp, result_simps]:
  "ok_or e x = Inr v \<longleftrightarrow> x = Some v"
  "ok_or e x = Inl e' \<longleftrightarrow> x = None \<and> e' = e"
  by (auto simp: ok_or_def split: option.splits)

lemma ok_or_simps [simp]:
  "ok_or e None = Inl e"
  "ok_or e (Some v) = Inr v"
  by (simp_all add: ok_or_def)

lemma map_err_eq [simp, result_simps]:
  "map_err h m = Inr v \<longleftrightarrow> m = Inr v"
  "map_err h m = Inl f \<longleftrightarrow> (\<exists>e. m = Inl e \<and> f = h e)"
  by (auto simp: map_err_def split: sum.splits)

lemma map_err_simps [simp]:
  "map_err h (Inl e) = Inl (h e)"
  "map_err h (Inr x) = Inr x"
  by (simp_all add: map_err_def)

lemma forE_eq_Inr [simp, result_simps]:
  "forE f xs = Inr u \<longleftrightarrow> (\<forall>x \<in> set xs. f x = Inr ())"
  by (induction xs) auto

lemma forE_eq_Inl: "forE f xs = Inl e \<Longrightarrow> \<exists>x \<in> set xs. f x = Inl e"
  by (induction xs) (auto simp: bindE_eq_Inl)

lemma forE_cong_fun [fundef_cong]:
  "xs = ys \<Longrightarrow> (\<And>x. x \<in> set ys \<Longrightarrow> f x = g x) \<Longrightarrow> forE f xs = forE g ys"
proof (induction xs arbitrary: ys)
  case (Cons a xs)
  then show ?case by (cases ys) auto
qed simp

lemma foldE_append:
  "foldE f s (xs @ ys) = bindE (foldE f s xs) (\<lambda>s'. foldE f s' ys)"
proof (induction xs arbitrary: s)
  case (Cons a xs)
  then show ?case by (cases "f s a") simp_all
qed simp

text \<open>Loop-invariant rule for \<open>foldE\<close>: what the body keeps, the loop keeps.\<close>

lemma foldE_invariant:
  assumes "foldE f s xs = Inr s'" and "P s"
    and "\<And>s x t. x \<in> set xs \<Longrightarrow> P s \<Longrightarrow> f s x = Inr t \<Longrightarrow> P t"
  shows "P s'"
  using assms
proof (induction xs arbitrary: s)
  case (Cons a xs)
  then obtain t where "f s a = Inr t" "foldE f t xs = Inr s'" by auto
  with Cons show ?case by (metis list.set_intros(1,2))
qed simp

lemma mapE_eq_Inr: "mapE f xs = Inr ys \<longleftrightarrow> list_all2 (\<lambda>x y. f x = Inr y) xs ys"
  by (induction xs arbitrary: ys) (auto simp: list_all2_Cons1)

lemma not_isl_unit: "\<not> isl r \<longleftrightarrow> r = Inr ()"
  by (cases r) auto

lemma tryS_simps [simp, result_simps]:
  "tryS (Inl e) s k = (Inl e, s)"
  "tryS (Inr x) s k = k x"
  by (simp_all add: tryS_def)

lemma tryS_eq_Inr [result_simps]:
  "tryS m s k = (Inr y, s') \<longleftrightarrow> (\<exists>x. m = Inr x \<and> k x = (Inr y, s'))"
  by (cases m) simp_all

lemma tryS_split:
  "P (tryS m s k) \<longleftrightarrow> (\<forall>e. m = Inl e \<longrightarrow> P (Inl e, s)) \<and> (\<forall>x. m = Inr x \<longrightarrow> P (k x))"
  by (cases m) simp_all

lemma tryS_split_asm:
  "P (tryS m s k) \<longleftrightarrow> \<not> ((\<exists>e. m = Inl e \<and> \<not> P (Inl e, s)) \<or> (\<exists>x. m = Inr x \<and> \<not> P (k x)))"
  by (cases m) simp_all

lemmas tryS_splits = tryS_split tryS_split_asm

text \<open>A property every exit of a method keeps.\<close>

lemma tryS_snd:
  "P s \<Longrightarrow> (\<And>x. m = Inr x \<Longrightarrow> P (snd (k x))) \<Longrightarrow> P (snd (tryS m s k))"
  by (cases m) simp_all

section \<open>Lemmas: strings\<close>

lemma is_whitespace_code [code]:
  "is_whitespace c = (let i = int c in (9 \<le> i \<and> i \<le> 13) \<or> i = 32 \<or> i = 133 \<or> i = 160 \<or> i = 5760
     \<or> (8192 \<le> i \<and> i \<le> 8202) \<or> i = 8232 \<or> i = 8233 \<or> i = 8239 \<or> i = 8287 \<or> i = 12288)"
  by (auto simp: is_whitespace_def Let_def)

text \<open>On ASCII strings the control test reads the bits of a character.\<close>

definition ascii_control :: "char \<Rightarrow> bool" where
  "ascii_control c \<longleftrightarrow> \<not> digit5 c \<and> \<not> digit6 c \<or>
     digit0 c \<and> digit1 c \<and> digit2 c \<and> digit3 c \<and> digit4 c \<and> digit5 c \<and> digit6 c"

lemma byte_ascii: "byte c < 128 \<longleftrightarrow> \<not> digit7 c"
  by (cases c) (simp add: byte_def)

lemma is_control_ascii: "\<not> digit7 c \<Longrightarrow> is_control (byte c) \<longleftrightarrow> ascii_control c"
  by (cases c) (simp add: byte_def is_control_def ascii_control_def)

lemma str_chars_ascii: "list_all (\<lambda>c. \<not> digit7 c) s \<Longrightarrow> str_chars s = map byte s"
  by (induction s) (simp_all add: str_chars_def byte_ascii)

lemma has_control_code [code]:
  "has_control s \<longleftrightarrow> (if list_all (\<lambda>c. \<not> digit7 c) s then list_ex ascii_control s
     else list_ex is_control (str_chars s))"
  by (auto simp: has_control_def str_chars_ascii list_ex_iff list_all_iff is_control_ascii)

lemma split_on_nonempty [simp]: "split_on d s \<noteq> []"
  by (cases s) (auto split: list.splits)

lemma split_on_no_sep: "seg \<in> set (split_on d s) \<Longrightarrow> d \<notin> set seg"
proof (induction s arbitrary: seg)
  case (Cons c cs)
  then show ?case
    by (cases "split_on d cs") (auto split: if_splits)
qed simp

text \<open>Joining the segments with the separator gives the string back.\<close>

fun join_with :: "char \<Rightarrow> string list \<Rightarrow> string" where
  "join_with d [] = []"
| "join_with d [s] = s"
| "join_with d (s # ss) = s @ d # join_with d ss"

lemma join_split_on: "join_with d (split_on d s) = s"
proof (induction s)
  case (Cons c cs)
  obtain t ts where s: "split_on d cs = t # ts"
    using split_on_nonempty [of d cs] by (cases "split_on d cs") simp_all
  with Cons show ?case by (cases ts) auto
qed simp

section \<open>Lemmas: ordered maps behind their interface\<close>

text \<open>
  What the clients rely on: lookups after an insertion or a removal, that the entries are
  exactly what lookups return, and that the well-formedness is kept. The lemmas proved inside
  the locale are the ones the components use; the interpretation on the sorted lists follows.
\<close>

locale ordered_map =
  fixes get :: "'m \<Rightarrow> 'k \<Rightarrow> 'v option"
    and ins :: "'k \<Rightarrow> 'v \<Rightarrow> 'm \<Rightarrow> 'm"
    and del :: "'k \<Rightarrow> 'm \<Rightarrow> 'm"
    and entries :: "'m \<Rightarrow> ('k \<times> 'v) list"
    and wf :: "'m \<Rightarrow> bool"
  assumes get_ins: "get (ins k v m) = (get m)(k \<mapsto> v)"
    and get_del: "get (del k m) = (get m)(k := None)"
    and wf_ins: "wf m \<Longrightarrow> wf (ins k v m)"
    and wf_del: "wf m \<Longrightarrow> wf (del k m)"
    and entries_get: "wf m \<Longrightarrow> (k, v) \<in> set (entries m) \<longleftrightarrow> get m k = Some v"
    and entries_distinct: "wf m \<Longrightarrow> distinct (entries m)"
begin

lemma get_ins_same: "get (ins k v m) k = Some v"
  by (simp add: get_ins)

lemma get_ins_other: "k' \<noteq> k \<Longrightarrow> get (ins k v m) k' = get m k'"
  by (simp add: get_ins)

lemma get_del_same: "get (del k m) k = None"
  by (simp add: get_del)

lemma entries_ins:
  "wf m \<Longrightarrow> set (entries (ins k v m)) = insert (k, v) {e \<in> set (entries m). fst e \<noteq> k}"
  by (auto simp: entries_get wf_ins get_ins split: if_splits)

lemma entries_del:
  "wf m \<Longrightarrow> set (entries (del k m)) = {e \<in> set (entries m). fst e \<noteq> k}"
  by (auto simp: entries_get wf_del get_del split: if_splits)

lemma sum_entries: "wf m \<Longrightarrow> sum_list (map f (entries m)) = sum f (set (entries m))"
  by (simp add: entries_distinct sum_list_distinct_conv_sum_set)

lemma sum_entries_ins_fresh:
  assumes "wf m" "get m k = None"
  shows "sum_list (map f (entries (ins k v m))) = sum_list (map f (entries m)) + (f (k, v) :: nat)"
proof -
  have "set (entries (ins k v m)) = insert (k, v) (set (entries m))"
    using assms by (auto simp: entries_ins entries_get)
  moreover have "(k, v) \<notin> set (entries m)" using assms by (simp add: entries_get)
  ultimately show ?thesis using assms by (simp add: sum_entries wf_ins)
qed

lemma sum_entries_del:
  assumes "wf m" "get m k = Some v"
  shows "sum_list (map f (entries (del k m))) + (f (k, v) :: nat) = sum_list (map f (entries m))"
proof -
  have "set (entries m) = insert (k, v) (set (entries (del k m)))"
    using assms by (auto simp: entries_del entries_get)
  moreover have "(k, v) \<notin> set (entries (del k m))" using assms by (simp add: entries_del)
  ultimately show ?thesis using assms by (simp add: sum_entries wf_del)
qed

lemma sum_entries_ins:
  assumes "wf m"
  shows "sum_list (map f (entries (ins k v m))) = sum_list (map f (entries (del k m))) + (f (k, v) :: nat)"
proof -
  have "set (entries (ins k v m)) = insert (k, v) (set (entries (del k m)))"
    using assms by (auto simp: entries_ins entries_del)
  moreover have "(k, v) \<notin> set (entries (del k m))" using assms by (simp add: entries_del)
  ultimately show ?thesis using assms by (simp add: sum_entries wf_ins wf_del)
qed

lemma sum_entries_replace:
  assumes "wf m" "get m k = Some v" "f (k, w) = (f (k, v) :: nat)"
  shows "sum_list (map f (entries (ins k w m))) = sum_list (map f (entries m))"
  using sum_entries_ins [OF assms(1), of f k w] sum_entries_del [OF assms(1,2), of f] assms(3)
  by simp

lemma length_entries_ins_fresh:
  "wf m \<Longrightarrow> get m k = None \<Longrightarrow> length (entries (ins k v m)) = Suc (length (entries m))"
  using sum_entries_ins_fresh [of m k "\<lambda>_. 1" v] by (simp add: sum_list_triv)

end

lemma map_of_bt_insert: "map_of (bt_insert k v m) = (map_of m)(k \<mapsto> v)"
  by (induction m) auto

lemma bt_get_insert [btree_simps]: "bt_get (bt_insert k v m) = (bt_get m)(k \<mapsto> v)"
  by (simp add: bt_get_def map_of_bt_insert fun_eq_iff)

lemma bt_get_remove [btree_simps]: "bt_get (bt_remove k m) = (bt_get m)(k := None)"
  unfolding bt_get_def bt_remove_def
  by (rule ext) (induction m, auto)

lemma bt_get_empty [simp, btree_simps]: "bt_get [] k = None"
  by (simp add: bt_get_def)

lemma bt_wf_empty [simp]: "bt_wf []"
  by (simp add: bt_wf_def)

lemma fst_set_bt_insert: "fst ` set (bt_insert k v m) = insert k (fst ` set m)"
  by (induction m) force+

lemma bt_wf_insert [simp]: "bt_wf m \<Longrightarrow> bt_wf (bt_insert k v m)"
proof (induction m)
  case (Cons e m)
  obtain k' v' where e: "e = (k', v')" by (cases e)
  with Cons have wf: "bt_wf m" and lt: "\<forall>x \<in> fst ` set m. k' < x" by (auto simp: bt_wf_def)
  consider "k < k'" | "k = k'" | "k' < k" by fastforce
  then show ?case
  proof cases
    case 1
    with Cons.prems lt e show ?thesis by (auto simp: bt_wf_def)
  next
    case 2
    with Cons.prems e show ?thesis by (auto simp: bt_wf_def)
  next
    case 3
    have "\<forall>x \<in> fst ` set (bt_insert k v m). k' < x"
      unfolding fst_set_bt_insert using 3 lt by simp
    with Cons.IH [OF wf] 3 e show ?thesis by (auto simp: bt_wf_def)
  qed
qed (simp add: bt_wf_def)

lemma bt_wf_remove [simp]: "bt_wf m \<Longrightarrow> bt_wf (bt_remove k m)"
  by (simp add: bt_wf_def bt_remove_def sorted_wrt_map sorted_wrt_filter)

lemma bt_wf_distinct_keys: "bt_wf m \<Longrightarrow> distinct (map fst m)"
  by (simp add: bt_wf_def strict_sorted_iff)

lemma bt_get_iff: "bt_wf m \<Longrightarrow> (k, v) \<in> set m \<longleftrightarrow> bt_get m k = Some v"
  by (simp add: bt_get_def bt_wf_distinct_keys)

lemma distinct_mapD: "distinct (map f xs) \<Longrightarrow> distinct xs"
  by (simp add: distinct_map)

interpretation bt: ordered_map bt_get bt_insert bt_remove "\<lambda>m. m" bt_wf
  by unfold_locales
    (auto simp: bt_get_insert bt_get_remove bt_get_iff
       dest: bt_wf_distinct_keys distinct_mapD)

lemma bt_get_mem: "bt_get m k = Some v \<Longrightarrow> (k, v) \<in> set m"
  by (simp add: bt_get_def map_of_SomeD)

lemma bt_get_None_iff: "bt_get m k = None \<longleftrightarrow> k \<notin> fst ` set m"
  by (simp add: bt_get_def map_of_eq_None_iff)

lemma set_bs_insert [simp]: "set (bs_insert x xs) = insert x (set xs)"
  by (induction xs) auto

lemma bs_insert_sorted: "sorted_wrt (<) xs \<Longrightarrow> sorted_wrt (<) (bs_insert x xs)"
  by (induction xs) auto

lemma set_fold_bs_insert: "set (fold bs_insert xs ys) = set xs \<union> set ys"
  by (induction xs arbitrary: ys) auto

lemma sorted_fold_bs_insert:
  "sorted_wrt (<) ys \<Longrightarrow> sorted_wrt (<) (fold bs_insert xs ys)"
  by (induction xs arbitrary: ys) (auto intro: bs_insert_sorted)

lemma set_bs_of_list [simp]: "set (bs_of_list xs) = set xs"
  by (simp add: bs_of_list_def set_fold_bs_insert)

lemma sorted_bs_of_list: "sorted_wrt (<) (bs_of_list xs)"
  by (simp add: bs_of_list_def sorted_fold_bs_insert)

end
