(* ===== verification/Consensus_Types.thy ===== *)
theory Consensus_Types
  imports Keldra_Prelude
begin

text \<open>
  The replicated data of \<^verbatim>\<open>keldra-consensus/src/types.rs\<close> and the error type of
  \<^verbatim>\<open>state_machine.rs\<close>: node descriptors, the membership transition, the bitmap of node
  identities that were ever admitted, batch requests, committed invocations, and the commands
  and results of the state machine.

  Newtypes over integers and digests are type synonyms: a \<^verbatim>\<open>[u8; 32]\<close> digest is a
  256-bit word, whose \<open>0\<close> is the reserved all-zero array. OpenRaft's \<^verbatim>\<open>LogId\<close> is the
  record of the leader's term and node and of the log index.
\<close>

section \<open>Identities and constants\<close>

type_synonym NodeId = u64
type_synonym ClusterId = u128
type_synonym digest = "256 word"

definition ATOMIC_REPLAY_RETENTION_MILLIS :: u64 where
  "ATOMIC_REPLAY_RETENTION_MILLIS = 24 * 60 * 60 * 1000"

definition MAX_COMMITTED_INVOCATIONS :: u32 where
  "MAX_COMMITTED_INVOCATIONS = 4096"

definition MAX_COMMITTED_INVOCATION_BYTES :: u64 where
  "MAX_COMMITTED_INVOCATION_BYTES = 16 * 1024 * 1024"

definition SYSTEM_BOOTSTRAP_VERSION :: u16 where
  "SYSTEM_BOOTSTRAP_VERSION = 1"

definition CLUSTER_CONTROL_COMMAND_VERSION :: u16 where
  "CLUSTER_CONTROL_COMMAND_VERSION = 1"

definition MAX_PEER_ADDRESS_BYTES :: nat where
  "MAX_PEER_ADDRESS_BYTES = 255"

definition FIXED_VOTER_TARGET :: nat where
  "FIXED_VOTER_TARGET = 3"

definition MAX_RAFT_NODE_ID :: u64 where
  "MAX_RAFT_NODE_ID = 1023"

definition USED_NODE_ID_WORDS :: nat where
  "USED_NODE_ID_WORDS = 16"

record LogId =
  log_term :: u64
  log_leader_node :: u64
  log_index :: u64

section \<open>Cluster control data\<close>

record CapabilityRange =
  range_min :: u16
  range_max :: u16

record ErasureCodeProfile =
  data_shards :: u16
  parity_shards :: u16
  stripe_unit :: u32

datatype NodeState = Joining | Active

record NodeDescriptor =
  nd_node_id :: NodeId
  peer_address :: string
  storage_weight_millionths :: u32
  nd_state :: NodeState
  current_peer_spki_sha256 :: digest
  overlap_peer_spki_sha256 :: "digest option"
  join_capability_hash :: "digest option"
  supported_protocol :: CapabilityRange
  supported_storage_format :: CapabilityRange

datatype MembershipTransitionKind = TransitionAdd | TransitionRemove | TransitionReweight

record MembershipTransition =
  mt_kind :: MembershipTransitionKind
  mt_node_id :: NodeId
  started_log_index :: u64
  target_weight_millionths :: "u32 option"

text \<open>\<^verbatim>\<open>UsedNodeIds\<close>: sixteen 64-bit words. \<open>used_insert\<close> indexes without a check, so
  it is only called on validated identities; \<open>used_insert_in_range\<close> shows the index is good there.\<close>

type_synonym UsedNodeIds = "u64 list"

definition used_default :: UsedNodeIds where
  "used_default = replicate USED_NODE_ID_WORDS 0"

definition used_contains :: "UsedNodeIds \<Rightarrow> NodeId \<Rightarrow> bool" where
  "used_contains ws node =
     (let bit = unat node in
      if bit div 64 < length ws
      then (ws ! (bit div 64)) AND push_bit (bit mod 64) 1 \<noteq> 0
      else False)"

definition used_insert :: "UsedNodeIds \<Rightarrow> NodeId \<Rightarrow> UsedNodeIds" where
  "used_insert ws node =
     (let bit = unat node; i = bit div 64 in
      ws[i := (ws ! i) OR push_bit (bit mod 64) 1])"

record ClusterControlState =
  cc_nodes :: "(NodeId, NodeDescriptor) btree"
  used_node_ids :: UsedNodeIds
  cc_transition :: "MembershipTransition option"
  jwt_signing_key_fingerprint :: "digest option"
  erasure_code_profile :: "ErasureCodeProfile option"
  active_placement_log_id :: "LogId option"
  active_protocol_version :: u16
  active_storage_format :: u16

definition cluster_control_default :: ClusterControlState where
  "cluster_control_default =
     \<lparr>cc_nodes = [], used_node_ids = used_default, cc_transition = None,
      jwt_signing_key_fingerprint = None, erasure_code_profile = None,
      active_placement_log_id = None, active_protocol_version = 1,
      active_storage_format = 1\<rparr>"

definition active_node_count :: "ClusterControlState \<Rightarrow> nat" where
  "active_node_count c = length (filter (\<lambda>d. nd_state d = Active) (map snd (cc_nodes c)))"

definition voter_target :: "ClusterControlState \<Rightarrow> nat" where
  "voter_target c = min (active_node_count c) FIXED_VOTER_TARGET"

section \<open>Atomic batch data\<close>

record BundleRef =
  bundle_hash :: digest
  bundle_length :: u64

datatype AtomicBundleAuthority =
    StoredProgram (program_path_hash: digest) (program_hash: digest)
  | BuiltInObjectTransaction (transaction_kind: u16) (contract_version: u16)

record ExecutorNomination =
  en_executor :: NodeId
  en_nomination_log_index :: u64

datatype SystemBootstrapState =
    BootstrapMissing
  | BootstrapComplete (bootstrap_version: u16) (bootstrap_log_index: u64)

record BeginBatch =
  bb_executor :: NodeId
  bb_nomination_log_index :: u64
  bb_authority :: AtomicBundleAuthority
  bb_invocation_id :: digest
  bb_input_fingerprint :: digest
  bb_bundle_ref :: BundleRef
  bb_durability_class :: digest
  bb_durability_evidence_hash :: digest
  bb_participant_manifest_hash :: digest
  bb_proposal_at_unix_millis :: u64
  bb_replay_expires_at_unix_millis :: u64

record PreparedBatch =
  pb_begin_cursor :: u64
  pb_request :: BeginBatch

text \<open>\<^verbatim>\<open>CommitPreparedBatch\<close> and \<^verbatim>\<open>AbortPreparedBatch\<close> have the same five fields.\<close>

record PreparedBatchRequest =
  pr_executor :: NodeId
  pr_nomination_log_index :: u64
  pr_begin_cursor :: u64
  pr_invocation_id :: digest
  pr_participant_manifest_hash :: digest

record CommittedBatch =
  cb_commit_cursor :: u64
  cb_executor :: NodeId
  cb_nomination_log_index :: u64
  cb_begin_cursor :: u64
  cb_authority :: AtomicBundleAuthority
  cb_bundle_ref :: BundleRef
  cb_durability_class :: digest
  cb_durability_evidence_hash :: digest
  cb_participant_manifest_hash :: digest

record CommittedInvocation =
  ci_invocation_id :: digest
  ci_input_fingerprint :: digest
  ci_proposal_at_unix_millis :: u64
  ci_replay_expires_at_unix_millis :: u64
  ci_committed_batch :: CommittedBatch

record CommitResult =
  cr_invocation :: CommittedInvocation
  cr_replayed :: bool

datatype BeginResult =
    Prepared PreparedBatch bool
  | AlreadyCommitted CommitResult

section \<open>Commands, results, errors\<close>

datatype Command =
    NominateExecutor NodeId
  | FinalizedThrough NodeId u64 u64
  | InitializeCluster ClusterId
  | CompleteSystemBootstrap NodeId u64 u16
  | BeginAddNode u16 NodeDescriptor
  | BeginRemoveNode u16 NodeId
  | BeginReweightNode u16 NodeId u32
  | CompleteMembershipTransition u16 u64
  | StagePeerSpkiOverlap u16 NodeId digest digest
  | PromotePeerSpkiOverlap u16 NodeId digest digest
  | ClearPeerSpkiOverlap u16 NodeId digest digest
  | BindJwtSigningKeyFingerprint u16 digest
  | BindErasureCodeProfile u16 ErasureCodeProfile
  | RefreshJoiningNodePreparation u16 NodeId u64 digest digest digest digest
  | BeginBatchCommand BeginBatch
  | CommitPreparedBatchCommand PreparedBatchRequest
  | AbortPreparedBatchCommand PreparedBatchRequest

datatype ApplyResult =
    ExecutorNominated ExecutorNomination
  | BatchBegun BeginResult
  | BatchCommitted CommitResult
  | BatchAborted u64
  | FinalizationAdvanced u64
  | ClusterInitialized ClusterId
  | SystemBootstrapCompleted SystemBootstrapState
  | MembershipTransitionBegun MembershipTransition
  | MembershipTransitionAdvanced MembershipTransition
  | MembershipTransitionFinished u64
  | PeerSpkiChanged NodeDescriptor
  | JwtSigningKeyFingerprintBound digest
  | ErasureCodeProfileBound ErasureCodeProfile
  | JoiningNodePreparationRefreshed NodeDescriptor

text \<open>
  \<^verbatim>\<open>ApplyError\<close> is one flat enum in the source; its variants are grouped here by the
  part of the state machine that raises them.
\<close>

datatype BatchError =
    ExecutorNotNominated
  | NotCurrentExecutor NodeId NodeId
  | NominationFenceMismatch u64 u64
  | InvalidBundleAuthority
  | InvalidInvocationId
  | InvalidInvocationFingerprint
  | InvalidBundleRef
  | InvalidDurabilityClass
  | InvalidDurabilityEvidenceHash
  | InvalidParticipantManifestHash
  | InvalidProposalTime
  | InvalidReplayExpiry
  | IdempotencyConflict digest
  | BatchPreparationInProgress u64
  | NoPreparedBatch
  | PreparedBatchIdentityMismatch

datatype CommitError =
    InvalidCommitEntryLimit
  | InvalidCommitByteLimit
  | CommitCursorDidNotAdvance "u64 option" u64
  | CommitCursorNotAfterFinalization "u64 option" u64
  | CommitTailFull u32 u64 u64 u32 u64
  | CommittedInvocationWindowFull u32 u64 u64
  | CommitTailByteCountExhausted
  | CommittedInvocationByteCountExhausted
  | CommittedInvocationAccountingCorrupt
  | CommittedInvocationEncodingFailed
  | NoCommittedBatchToFinalize
  | FinalizedThroughRegressed u64 u64
  | FinalizedBeyondLastCommit u64 u64

datatype ClusterError =
    InvalidNodeId
  | InvalidClusterId
  | ClusterIdentityConflict ClusterId ClusterId
  | ClusterNotInitialized
  | UnsupportedSystemBootstrapVersion u16
  | SystemBootstrapVersionConflict u16 u16
  | UnsupportedClusterControlVersion u16
  | InvalidJwtSigningKeyFingerprint
  | JwtSigningKeyFingerprintConflict digest digest
  | InvalidErasureCodeProfile
  | ErasureCodeProfileConflict ErasureCodeProfile ErasureCodeProfile

datatype DescriptorError =
    InvalidPeerAddress
  | InvalidStorageWeight
  | InvalidCapabilityRange u16 u16
  | InvalidPeerSpki
  | InvalidJoinCapabilityHash
  | AddedNodeMustBeJoining
  | JoiningNodeRequiresCapability
  | JoiningNodeCannotRotatePeerPin
  | ActiveNodeRetainsJoinCapability
  | PeerAddressAlreadyUsed
  | PeerSpkiAlreadyUsed
  | JoinCapabilityAlreadyUsed
  | PeerPinsMustDiffer
  | PeerCurrentPinMismatch NodeId
  | PeerOverlapAlreadySet NodeId
  | PeerPinPairMismatch NodeId
  | JoiningPreparationPairMismatch NodeId
  | JoiningPreparationUnchanged NodeId

datatype MembershipError =
    ExecutorNotCurrentMember NodeId
  | ExecutorNotActiveMember NodeId
  | ActiveNodeLacksCapability
  | NodeIdAlreadyUsed NodeId
  | NodeNotAdmitted NodeId
  | NodeNotActive NodeId
  | CannotRemoveLastActiveNode
  | StorageWeightUnchanged
  | MembershipTransitionInProgress u64
  | NoMembershipTransition
  | MembershipTransitionFenceMismatch u64 u64
  | MembershipTransitionStateMismatch
  | NodeMembershipTransitionInProgress NodeId
  | TransitionNodeNotCurrentMember NodeId
  | RaftMemberDescriptorMissing NodeId
  | RaftMemberAddressMismatch NodeId
  | RemovingNodeIsStillMember NodeId
  | VoterTargetMismatch u16 u16
  | VoterNotActive NodeId
  | JoiningNodeAlreadyRaftMember NodeId

datatype ApplyError =
    BatchE BatchError
  | CommitE CommitError
  | ClusterE ClusterError
  | DescriptorE DescriptorError
  | MembershipE MembershipError

section \<open>The bitmap of admitted identities\<close>

lemma word_bit_test: "(w :: 'a::len word) AND 2 ^ n = 0 \<longleftrightarrow> \<not> bit w n"
  by (rule and_exp_eq_0_iff_not_bit)

lemma used_contains_iff:
  "used_contains ws node \<longleftrightarrow>
     unat node div 64 < length ws \<and> bit (ws ! (unat node div 64)) (unat node mod 64)"
  by (simp add: used_contains_def Let_def word_bit_test)

lemma used_insert_in_range:
  "length ws = USED_NODE_ID_WORDS \<Longrightarrow> node \<le> MAX_RAFT_NODE_ID \<Longrightarrow> unat node div 64 < length ws"
  by (auto simp: USED_NODE_ID_WORDS_def MAX_RAFT_NODE_ID_def word_le_nat_alt)

lemma length_used_insert [simp]: "length (used_insert ws node) = length ws"
  by (simp add: used_insert_def Let_def)

lemma used_contains_default [simp]: "\<not> used_contains used_default node"
  by (auto simp: used_contains_iff used_default_def)

lemma used_contains_insert:
  assumes "unat node div 64 < length ws"
  shows "used_contains (used_insert ws node) other \<longleftrightarrow> other = node \<or> used_contains ws other"
proof -
  have eq: "other = node" if "unat other div 64 = unat node div 64" "unat other mod 64 = unat node mod 64"
    using that by (metis div_mult_mod_eq word_unat_eq_iff)
  have "bit (push_bit (unat node mod 64) (1 :: u64)) (unat other mod 64)
      \<longleftrightarrow> unat other mod 64 = unat node mod 64"
    by (auto simp: push_bit_of_1 bit_exp_iff)
  with assms eq show ?thesis
    by (cases "unat other div 64 = unat node div 64")
      (auto simp: used_contains_iff used_insert_def Let_def bit_or_iff)
qed

end
