(* ===== verification/Consensus_Codec.thy ===== *)
theory Consensus_Codec
  imports Keldra_Prelude
begin

text \<open>
  \<^verbatim>\<open>keldra-consensus/src/codec.rs\<close>: the size check in front of bincode and the durable
  record envelope (an eight-byte magic, a format version, a big-endian payload length). Bincode
  is a library: what it computes on a value is an argument of the definitions here.
\<close>

section \<open>Definitions\<close>

datatype CodecError =
    TooLarge
  | UnsupportedRecordVersion u8
  | InvalidRecord string
  | CodecInvalid string

definition MAX_ENCODED_BYTES :: nat where
  "MAX_ENCODED_BYTES = 64 * 1024 * 1024"

definition RECORD_MAGIC :: "u8 list" where
  "RECORD_MAGIC = [65, 78, 86, 76, 82, 69, 67, 0]"

definition RECORD_FORMAT_V1 :: u8 where
  "RECORD_FORMAT_V1 = 1"

definition RECORD_HEADER_BYTES :: nat where
  "RECORD_HEADER_BYTES = length RECORD_MAGIC + 1 + 4"

definition MAX_RECORD_BYTES :: nat where
  "MAX_RECORD_BYTES = RECORD_HEADER_BYTES + MAX_ENCODED_BYTES"

text \<open>\<open>serialized\<close> and \<open>measured\<close> are what bincode returns for the value.\<close>

definition encode :: "string + u8 list \<Rightarrow> CodecError + u8 list" where
  "encode serialized =
     bindE (map_err CodecInvalid serialized) (\<lambda>bytes.
     bindE (ensure (length bytes \<le> MAX_ENCODED_BYTES) TooLarge) (\<lambda>_. Inr bytes))"

definition encoded_len :: "string + u64 \<Rightarrow> CodecError + u64" where
  "encoded_len measured =
     bindE (map_err CodecInvalid measured) (\<lambda>bytes.
     bindE (ensure (unat bytes \<le> MAX_ENCODED_BYTES) TooLarge) (\<lambda>_. Inr bytes))"

lemma encoded_len_code [code]:
  "encoded_len measured =
     bindE (map_err CodecInvalid measured) (\<lambda>bytes.
     bindE (ensure (uint bytes \<le> 67108864) TooLarge) (\<lambda>_. Inr bytes))"
  by (simp add: encoded_len_def unat_le_uint MAX_ENCODED_BYTES_def)

definition u32_to_be_bytes :: "u32 \<Rightarrow> u8 list" where
  "u32_to_be_bytes w =
     [ucast (drop_bit 24 w), ucast (drop_bit 16 w), ucast (drop_bit 8 w), ucast w]"

definition u32_from_be_bytes :: "u8 list \<Rightarrow> u32" where
  "u32_from_be_bytes bs =
     push_bit 24 (ucast (bs ! 0)) OR push_bit 16 (ucast (bs ! 1))
       OR push_bit 8 (ucast (bs ! 2)) OR ucast (bs ! 3)"

definition wrap_record_at_version :: "u8 list \<Rightarrow> u8 \<Rightarrow> CodecError + u8 list" where
  "wrap_record_at_version payload version =
     bindE (ensure (length payload \<le> MAX_ENCODED_BYTES) TooLarge) (\<lambda>_.
     bindE (ensure (length payload < 2 ^ 32) TooLarge) (\<lambda>_.
     Inr (RECORD_MAGIC @ [version] @ u32_to_be_bytes (of_nat (length payload)) @ payload)))"

definition wrap_record :: "u8 list \<Rightarrow> CodecError + u8 list" where
  "wrap_record payload = wrap_record_at_version payload RECORD_FORMAT_V1"

definition record_version_and_payload :: "u8 list \<Rightarrow> CodecError + (u8 \<times> u8 list)" where
  "record_version_and_payload bytes =
     bindE (ensure (length bytes \<le> MAX_RECORD_BYTES) TooLarge) (\<lambda>_.
     bindE (ensure (take (length RECORD_MAGIC) bytes = RECORD_MAGIC)
              (InvalidRecord ''magic is invalid'')) (\<lambda>_.
     bindE (ensure (RECORD_HEADER_BYTES \<le> length bytes)
              (InvalidRecord ''truncated header'')) (\<lambda>_.
     let version = bytes ! length RECORD_MAGIC;
         length_start = length RECORD_MAGIC + 1;
         payload_len = unat (u32_from_be_bytes (take 4 (drop length_start bytes))) in
     bindE (ensure (payload_len \<le> MAX_ENCODED_BYTES) TooLarge) (\<lambda>_.
     bindE (ensure (length bytes = RECORD_HEADER_BYTES + payload_len)
              (InvalidRecord ''payload length does not match header'')) (\<lambda>_.
     Inr (version, drop RECORD_HEADER_BYTES bytes))))))"

definition record_payload :: "u8 list \<Rightarrow> CodecError + u8 list" where
  "record_payload bytes =
     bindE (record_version_and_payload bytes) (\<lambda>(version, payload).
     if version = RECORD_FORMAT_V1 then Inr payload
     else Inl (UnsupportedRecordVersion version))"

text \<open>
  A value's serialization is a pair of functions: what bincode writes for it and what it reads
  back. \<open>serde_ok\<close> is what a serialization library promises.
\<close>

record 'a Serde =
  ser :: "'a \<Rightarrow> string + u8 list"
  de :: "u8 list \<Rightarrow> string + 'a"

definition serde_ok :: "'a Serde \<Rightarrow> bool" where
  "serde_ok S \<longleftrightarrow> (\<forall>v bytes. ser S v = Inr bytes \<longrightarrow> de S bytes = Inr v)"

definition decode :: "'a Serde \<Rightarrow> u8 list \<Rightarrow> CodecError + 'a" where
  "decode S bytes =
     bindE (ensure (length bytes \<le> MAX_ENCODED_BYTES) TooLarge) (\<lambda>_.
     map_err CodecInvalid (de S bytes))"

definition encode_record :: "'a Serde \<Rightarrow> 'a \<Rightarrow> CodecError + u8 list" where
  "encode_record S v = bindE (encode (ser S v)) wrap_record"

definition decode_record :: "'a Serde \<Rightarrow> u8 list \<Rightarrow> CodecError + 'a" where
  "decode_record S bytes = bindE (record_payload bytes) (decode S)"

section \<open>The envelope round trip\<close>

lemma length_RECORD_MAGIC [simp]: "length RECORD_MAGIC = 8"
  by (simp add: RECORD_MAGIC_def)

lemma RECORD_HEADER_BYTES_eq [simp]: "RECORD_HEADER_BYTES = 13"
  by (simp add: RECORD_HEADER_BYTES_def)

lemma u32_be_bytes_roundtrip [simp]: "u32_from_be_bytes (u32_to_be_bytes w) = w"
proof (rule bit_word_eqI)
  fix n assume "n < LENGTH(32)"
  then consider "n < 8" | "8 \<le> n" "n < 16" | "16 \<le> n" "n < 24" | "24 \<le> n" "n < 32"
    by fastforce
  then show "bit (u32_from_be_bytes (u32_to_be_bytes w)) n = bit w n"
    by cases (auto simp: u32_from_be_bytes_def u32_to_be_bytes_def bit_simps)
qed

lemma length_u32_to_be_bytes [simp]: "length (u32_to_be_bytes w) = 4"
  by (simp add: u32_to_be_bytes_def)

lemma wrap_record_at_version_eq_Inr:
  "wrap_record_at_version p v = Inr r \<longleftrightarrow>
     length p \<le> MAX_ENCODED_BYTES \<and>
     r = RECORD_MAGIC @ v # u32_to_be_bytes (of_nat (length p)) @ p"
  by (auto simp: wrap_record_at_version_def MAX_ENCODED_BYTES_def)

lemma unat_of_payload_length:
  "n \<le> MAX_ENCODED_BYTES \<Longrightarrow> unat (of_nat n :: u32) = n"
  by (simp add: MAX_ENCODED_BYTES_def unat_of_nat)

text \<open>The reader's layout: the fields sit at fixed offsets after the magic.\<close>

lemma record_fields:
  assumes "length hdr = 4"
  shows "take 8 (RECORD_MAGIC @ v # hdr @ p) = RECORD_MAGIC"
    and "(RECORD_MAGIC @ v # hdr @ p) ! 8 = v"
    and "take 4 (drop 9 (RECORD_MAGIC @ v # hdr @ p)) = hdr"
    and "drop 13 (RECORD_MAGIC @ v # hdr @ p) = p"
    and "length (RECORD_MAGIC @ v # hdr @ p) = 13 + length p"
  using assms by (simp_all add: nth_append)

lemma record_layout:
  assumes "take 8 r = RECORD_MAGIC" and "13 \<le> length r"
  shows "r = RECORD_MAGIC @ r ! 8 # take 4 (drop 9 r) @ drop 13 r"
proof -
  have "drop 8 r = r ! 8 # drop 9 r"
    using assms(2) Cons_nth_drop_Suc [of 8 r] by simp
  moreover have "drop 9 r = take 4 (drop 9 r) @ drop 13 r"
    using append_take_drop_id [of 4 "drop 9 r"] by simp
  ultimately show ?thesis using assms(1) append_take_drop_id [of 8 r] by simp
qed

lemma record_version_and_payload_eq_Inr:
  "record_version_and_payload r = Inr (v, p) \<longleftrightarrow>
     take 8 r = RECORD_MAGIC \<and> 13 \<le> length r \<and> v = r ! 8 \<and> p = drop 13 r \<and>
     length r = 13 + unat (u32_from_be_bytes (take 4 (drop 9 r))) \<and>
     unat (u32_from_be_bytes (take 4 (drop 9 r))) \<le> MAX_ENCODED_BYTES"
proof -
  let ?n = "unat (u32_from_be_bytes (take 4 (drop 9 r)))"
  have "record_version_and_payload r = Inr (v, p) \<longleftrightarrow>
      length r \<le> 13 + MAX_ENCODED_BYTES \<and> take 8 r = RECORD_MAGIC \<and> 13 \<le> length r \<and>
      ?n \<le> MAX_ENCODED_BYTES \<and> length r = 13 + ?n \<and> r ! 8 = v \<and> drop 13 r = p"
    unfolding record_version_and_payload_def Let_def MAX_RECORD_BYTES_def
      length_RECORD_MAGIC RECORD_HEADER_BYTES_eq
    by (simp only: bindE_eq_Inr ensure_eq unit_eq simp_thms ex_simps sum.inject prod.inject
        one_add_one numeral_plus_one add_num_simps)
  moreover have "length r = 13 + ?n \<Longrightarrow> ?n \<le> MAX_ENCODED_BYTES \<Longrightarrow> length r \<le> 13 + MAX_ENCODED_BYTES"
    by (simp only: add_le_cancel_left)
  ultimately show ?thesis by blast
qed

text \<open>A wrapped payload is read back with its version, whatever the version.\<close>

lemma record_version_and_payload_wrap:
  assumes "wrap_record_at_version p v = Inr r"
  shows "record_version_and_payload r = Inr (v, p)"
proof -
  let ?hdr = "u32_to_be_bytes (of_nat (length p))"
  from assms have len: "length p \<le> MAX_ENCODED_BYTES" and r: "r = RECORD_MAGIC @ v # ?hdr @ p"
    by (simp_all only: wrap_record_at_version_eq_Inr)
  note fields = record_fields [OF length_u32_to_be_bytes, of v "of_nat (length p)" p, folded r]
  have "unat (u32_from_be_bytes ?hdr) = length p"
    by (simp only: u32_be_bytes_roundtrip unat_of_payload_length [OF len])
  with len fields show ?thesis
    by (simp only: record_version_and_payload_eq_Inr) simp
qed

text \<open>Anything that is not a wrapped payload is refused: what is read was written.\<close>

lemma u32_to_from_be_bytes:
  assumes "length bs = 4"
  shows "u32_to_be_bytes (u32_from_be_bytes bs) = bs"
proof -
  obtain a b c d where bs: "bs = [a, b, c, d]"
    using assms by (auto simp: numeral_eq_Suc length_Suc_conv)
  show ?thesis
    unfolding u32_from_be_bytes_def u32_to_be_bytes_def bs
    by (auto intro!: bit_word_eqI simp: bit_simps) (fastforce dest: bit_imp_le_length)+
qed

lemma record_version_and_payload_inv:
  assumes "record_version_and_payload r = Inr (v, p)"
  shows "wrap_record_at_version p v = Inr r"
proof -
  define hdr where "hdr = take 4 (drop 9 r)"
  from assms have m: "take 8 r = RECORD_MAGIC" and l: "13 \<le> length r"
    and v: "v = r ! 8" and p: "p = drop 13 r"
    and n: "length r = 13 + unat (u32_from_be_bytes hdr)"
    and b: "unat (u32_from_be_bytes hdr) \<le> MAX_ENCODED_BYTES"
    unfolding hdr_def by (simp_all only: record_version_and_payload_eq_Inr)
  have r: "r = RECORD_MAGIC @ v # hdr @ p"
    unfolding hdr_def v p by (rule record_layout [OF m l])
  have "length p = length r - 13" by (simp only: p length_drop)
  then have lp: "length p = unat (u32_from_be_bytes hdr)" by (simp only: n add_diff_cancel_left')
  have "length hdr = 4" unfolding hdr_def using l by simp
  then have h: "u32_to_be_bytes (of_nat (length p)) = hdr"
    unfolding lp by (simp add: u32_to_from_be_bytes)
  have "length p \<le> MAX_ENCODED_BYTES" unfolding lp by (rule b)
  with r show ?thesis unfolding wrap_record_at_version_eq_Inr h by (rule conjI [rotated])
qed

lemma record_payload_wrap: "wrap_record p = Inr r \<Longrightarrow> record_payload r = Inr p"
  using record_version_and_payload_wrap [of p RECORD_FORMAT_V1 r]
  by (simp add: wrap_record_def record_payload_def)

lemma decode_encode_record:
  assumes "serde_ok S" "encode_record S v = Inr r"
  shows "decode_record S r = Inr v"
proof -
  from assms(2) obtain b where b: "ser S v = Inr b" "length b \<le> MAX_ENCODED_BYTES"
    and w: "wrap_record b = Inr r"
    by (auto simp: encode_record_def encode_def)
  from b(1) assms(1) have "de S b = Inr v" by (simp add: serde_ok_def)
  with b(2) show ?thesis
    by (simp add: decode_record_def record_payload_wrap [OF w] decode_def)
qed

section \<open>Claim\<close>

text \<open>C12. The record envelope is exact: a reader returns a version and a payload precisely when the
  bytes are what the writer produces for them, so every other byte string is refused.\<close>

theorem envelope_exact:
  "record_version_and_payload r = Inr (v, p) \<longleftrightarrow> wrap_record_at_version p v = Inr r"
  using record_version_and_payload_wrap record_version_and_payload_inv by blast

end
