(* ===== verification/Decision_State.thy ===== *)
theory Decision_State
  imports Consensus_Types Consensus_Codec
begin

text \<open>
  The replicated decision state of \<^verbatim>\<open>keldra-consensus/src/state_machine.rs\<close> and its batch
  life cycle: nominating the executor, beginning, committing and aborting a prepared batch,
  advancing the finalization watermark, initializing the cluster and completing the system
  bootstrap. Cluster control is in \<^verbatim>\<open>Cluster_Control\<close> and the dispatch on commands in
  \<^verbatim>\<open>Decision_Machine\<close>.

  A method returns its result with the state it leaves: \<open>begin_batch\<close> prunes expired entries
  before it can fail, and the pruning stays.
\<close>

section \<open>State\<close>

record StateMachine =
  max_commit_entries :: u32
  max_commit_bytes :: u64
  sm_cluster_id :: "ClusterId option"
  system_bootstrap :: SystemBootstrapState
  cluster_control :: ClusterControlState
  sm_executor :: "ExecutorNomination option"
  preparing_batch :: "PreparedBatch option"
  committed_invocations :: "(u64, CommittedInvocation) btree"
  committed_invocation_bytes :: u64
  last_commit_cursor :: "u64 option"
  finalized_through :: "u64 option"

type_synonym outcome = "(ApplyError + ApplyResult) \<times> StateMachine"

text \<open>What bincode measures: the empty map of invocations and one entry of it.\<close>

record Bincode =
  size_of_empty_map :: "string + u64"
  size_of_entry :: "u64 \<times> CommittedInvocation \<Rightarrow> string + u64"

definition committed_invocation_entry_bytes ::
    "Bincode \<Rightarrow> u64 \<Rightarrow> CommittedInvocation \<Rightarrow> ApplyError + u64" where
  "committed_invocation_entry_bytes B commit_cursor invocation =
     map_err (\<lambda>_. CommitE CommittedInvocationEncodingFailed)
       (encoded_len (size_of_entry B (commit_cursor, invocation)))"

definition new_state_machine :: "Bincode \<Rightarrow> u32 \<Rightarrow> u64 \<Rightarrow> ApplyError + StateMachine" where
  "new_state_machine B entries bytes =
     bindE (ensure (entries \<noteq> 0) (CommitE InvalidCommitEntryLimit)) (\<lambda>_.
     bindE (ensure (bytes \<noteq> 0) (CommitE InvalidCommitByteLimit)) (\<lambda>_.
     bindE (map_err (\<lambda>_. CommitE CommittedInvocationEncodingFailed)
              (encoded_len (size_of_empty_map B))) (\<lambda>empty_bytes.
     Inr \<lparr>max_commit_entries = entries, max_commit_bytes = bytes, sm_cluster_id = None,
          system_bootstrap = BootstrapMissing, cluster_control = cluster_control_default,
          sm_executor = None, preparing_batch = None, committed_invocations = [],
          committed_invocation_bytes = empty_bytes, last_commit_cursor = None,
          finalized_through = None\<rparr>)))"

section \<open>Queries\<close>

definition replay_entry ::
    "StateMachine \<Rightarrow> digest \<Rightarrow> u64 \<Rightarrow> CommittedInvocation option" where
  "replay_entry s invocation_id now_unix_millis =
     (case List.find (\<lambda>i. ci_invocation_id i = invocation_id)
             (map snd (committed_invocations s)) of
        None \<Rightarrow> None
      | Some i \<Rightarrow>
          if now_unix_millis < ci_replay_expires_at_unix_millis i then Some i else None)"

text \<open>The range above the watermark, \<^verbatim>\<open>(Excluded(finalized), Unbounded)\<close>.\<close>

definition finalized_or_zero :: "StateMachine \<Rightarrow> u64" where
  "finalized_or_zero s = (case finalized_through s of None \<Rightarrow> 0 | Some f \<Rightarrow> f)"

definition unfinalized_entries :: "StateMachine \<Rightarrow> (u64 \<times> CommittedInvocation) list" where
  "unfinalized_entries s =
     filter (\<lambda>e. finalized_or_zero s < fst e) (committed_invocations s)"

definition unfinalized_invocations :: "StateMachine \<Rightarrow> CommittedInvocation list" where
  "unfinalized_invocations s = map snd (unfinalized_entries s)"

definition committed_invocation_at :: "StateMachine \<Rightarrow> u64 \<Rightarrow> CommittedInvocation option" where
  "committed_invocation_at s commit_cursor = bt_get (committed_invocations s) commit_cursor"

definition unfinalized_commit_len :: "StateMachine \<Rightarrow> u32" where
  "unfinalized_commit_len s = of_nat (length (unfinalized_invocations s))"

definition unfinalized_commit_bytes :: "Bincode \<Rightarrow> StateMachine \<Rightarrow> ApplyError + u64" where
  "unfinalized_commit_bytes B s =
     foldE (\<lambda>total (cursor, entry).
        bindE (committed_invocation_entry_bytes B cursor entry) (\<lambda>n.
        ok_or (CommitE CommitTailByteCountExhausted) (checked_add total n)))
       0 (unfinalized_entries s)"

definition committed_invocation_len :: "StateMachine \<Rightarrow> u32" where
  "committed_invocation_len s = of_nat (length (committed_invocations s))"

section \<open>Validation\<close>

definition validate_node :: "NodeId \<Rightarrow> ApplyError + unit" where
  "validate_node node = ensure (1 \<le> node \<and> node \<le> MAX_RAFT_NODE_ID) (ClusterE InvalidNodeId)"

definition validate_cluster_id :: "ClusterId \<Rightarrow> ApplyError + unit" where
  "validate_cluster_id cluster = ensure (cluster \<noteq> 0) (ClusterE InvalidClusterId)"

definition validate_authority :: "AtomicBundleAuthority \<Rightarrow> ApplyError + unit" where
  "validate_authority authority =
     (case authority of
        StoredProgram path_hash hash \<Rightarrow>
          ensure (path_hash \<noteq> 0 \<and> hash \<noteq> 0) (BatchE InvalidBundleAuthority)
      | BuiltInObjectTransaction kind version \<Rightarrow>
          ensure (kind \<noteq> 0 \<and> version \<noteq> 0) (BatchE InvalidBundleAuthority))"

definition validate_begin_batch :: "BeginBatch \<Rightarrow> ApplyError + unit" where
  "validate_begin_batch batch =
     bindE (validate_node (bb_executor batch)) (\<lambda>_.
     bindE (validate_authority (bb_authority batch)) (\<lambda>_.
     bindE (ensure (bb_invocation_id batch \<noteq> 0) (BatchE InvalidInvocationId)) (\<lambda>_.
     bindE (ensure (bb_input_fingerprint batch \<noteq> 0)
              (BatchE InvalidInvocationFingerprint)) (\<lambda>_.
     bindE (ensure (bundle_hash (bb_bundle_ref batch) \<noteq> 0
                    \<and> bundle_length (bb_bundle_ref batch) \<noteq> 0)
              (BatchE InvalidBundleRef)) (\<lambda>_.
     bindE (ensure (bb_durability_class batch \<noteq> 0) (BatchE InvalidDurabilityClass)) (\<lambda>_.
     bindE (ensure (bb_durability_evidence_hash batch \<noteq> 0)
              (BatchE InvalidDurabilityEvidenceHash)) (\<lambda>_.
     bindE (ensure (bb_participant_manifest_hash batch \<noteq> 0)
              (BatchE InvalidParticipantManifestHash)) (\<lambda>_.
     bindE (ensure (bb_proposal_at_unix_millis batch \<noteq> 0)
              (BatchE InvalidProposalTime)) (\<lambda>_.
     ensure (checked_add (bb_proposal_at_unix_millis batch) ATOMIC_REPLAY_RETENTION_MILLIS
             = Some (bb_replay_expires_at_unix_millis batch))
       (BatchE InvalidReplayExpiry))))))))))"

definition validate_prepared_identity ::
    "PreparedBatch \<Rightarrow> PreparedBatchRequest \<Rightarrow> ApplyError + unit" where
  "validate_prepared_identity prepared request =
     ensure (pb_begin_cursor prepared = pr_begin_cursor request
             \<and> bb_executor (pb_request prepared) = pr_executor request
             \<and> bb_nomination_log_index (pb_request prepared) = pr_nomination_log_index request
             \<and> bb_invocation_id (pb_request prepared) = pr_invocation_id request
             \<and> bb_participant_manifest_hash (pb_request prepared)
                 = pr_participant_manifest_hash request)
       (BatchE PreparedBatchIdentityMismatch)"

definition replay :: "CommittedInvocation \<Rightarrow> BeginBatch \<Rightarrow> ApplyError + CommittedInvocation" where
  "replay committed requested =
     (if cb_authority (ci_committed_batch committed) \<noteq> bb_authority requested
         \<or> ci_input_fingerprint committed \<noteq> bb_input_fingerprint requested
         \<or> cb_participant_manifest_hash (ci_committed_batch committed)
             \<noteq> bb_participant_manifest_hash requested
      then Inl (BatchE (IdempotencyConflict (bb_invocation_id requested)))
      else Inr committed)"

definition require_executor :: "StateMachine \<Rightarrow> NodeId \<Rightarrow> u64 \<Rightarrow> ApplyError + unit" where
  "require_executor s executor nomination =
     bindE (validate_node executor) (\<lambda>_.
     bindE (ok_or (BatchE ExecutorNotNominated) (sm_executor s)) (\<lambda>current.
     bindE (ensure (en_executor current = executor)
              (BatchE (NotCurrentExecutor (en_executor current) executor))) (\<lambda>_.
     ensure (en_nomination_log_index current = nomination)
       (BatchE (NominationFenceMismatch (en_nomination_log_index current) nomination)))))"

section \<open>Operations\<close>

definition initialize_cluster :: "StateMachine \<Rightarrow> ClusterId \<Rightarrow> outcome" where
  "initialize_cluster s cluster =
     tryS (validate_cluster_id cluster) s (\<lambda>_.
     (case sm_cluster_id s of
        Some current \<Rightarrow>
          if current \<noteq> cluster
          then (Inl (ClusterE (ClusterIdentityConflict current cluster)), s)
          else (Inr (ClusterInitialized current), s)
      | None \<Rightarrow>
          (Inr (ClusterInitialized cluster),
           s\<lparr>sm_cluster_id := Some cluster,
             cluster_control :=
               (cluster_control s)\<lparr>active_protocol_version := 1, active_storage_format := 1\<rparr>\<rparr>)))"

definition complete_system_bootstrap ::
    "StateMachine \<Rightarrow> NodeId \<Rightarrow> u64 \<Rightarrow> u16 \<Rightarrow> u64 \<Rightarrow> outcome" where
  "complete_system_bootstrap s executor nomination version committed_log_index =
     tryS (ensure (version = SYSTEM_BOOTSTRAP_VERSION)
             (ClusterE (UnsupportedSystemBootstrapVersion version))) s (\<lambda>_.
     tryS (ensure (sm_cluster_id s \<noteq> None) (ClusterE ClusterNotInitialized)) s (\<lambda>_.
     tryS (require_executor s executor nomination) s (\<lambda>_.
     (case system_bootstrap s of
        BootstrapMissing \<Rightarrow>
          let completed = BootstrapComplete version committed_log_index in
          (Inr (SystemBootstrapCompleted completed), s\<lparr>system_bootstrap := completed\<rparr>)
      | BootstrapComplete current original \<Rightarrow>
          if current = version
          then (Inr (SystemBootstrapCompleted (system_bootstrap s)), s)
          else (Inl (ClusterE (SystemBootstrapVersionConflict current version)), s)))))"

definition nominate_executor :: "StateMachine \<Rightarrow> NodeId \<Rightarrow> u64 \<Rightarrow> outcome" where
  "nominate_executor s executor committed_log_index =
     tryS (validate_node executor) s (\<lambda>_.
     let nomination = \<lparr>en_executor = executor, en_nomination_log_index = committed_log_index\<rparr>;
         refence = (\<lambda>p. p\<lparr>pb_request :=
             (pb_request p)\<lparr>bb_executor := executor,
                            bb_nomination_log_index := committed_log_index\<rparr>\<rparr>) in
     (Inr (ExecutorNominated nomination),
      s\<lparr>preparing_batch := map_option refence (preparing_batch s),
        sm_executor := Some nomination\<rparr>))"

definition expired_finalized_cursors :: "StateMachine \<Rightarrow> u64 \<Rightarrow> u64 list" where
  "expired_finalized_cursors s proposal_at =
     (case finalized_through s of
        None \<Rightarrow> []
      | Some finalized \<Rightarrow>
          map fst (filter (\<lambda>(cursor, i). cursor \<le> finalized
                             \<and> ci_replay_expires_at_unix_millis i \<le> proposal_at)
                     (committed_invocations s)))"

fun prune_committed_invocations ::
    "Bincode \<Rightarrow> StateMachine \<Rightarrow> u64 list \<Rightarrow> (ApplyError + unit) \<times> StateMachine" where
  "prune_committed_invocations B s [] = (Inr (), s)"
| "prune_committed_invocations B s (cursor # cursors) =
     (case bt_get (committed_invocations s) cursor of
        None \<Rightarrow> (Inl (CommitE CommittedInvocationAccountingCorrupt), s)
      | Some invocation \<Rightarrow>
          let removed = s\<lparr>committed_invocations :=
                            bt_remove cursor (committed_invocations s)\<rparr> in
          tryS (committed_invocation_entry_bytes B cursor invocation) removed (\<lambda>n.
          tryS (ok_or (CommitE CommittedInvocationAccountingCorrupt)
                  (checked_sub (committed_invocation_bytes s) n)) removed (\<lambda>left.
          prune_committed_invocations B (removed\<lparr>committed_invocation_bytes := left\<rparr>) cursors)))"

definition begin_batch :: "Bincode \<Rightarrow> StateMachine \<Rightarrow> u64 \<Rightarrow> BeginBatch \<Rightarrow> outcome" where
  "begin_batch B s committed_log_index batch =
     tryS (validate_begin_batch batch) s (\<lambda>_.
     tryS (require_executor s (bb_executor batch) (bb_nomination_log_index batch)) s (\<lambda>_.
     let expired = expired_finalized_cursors s (bb_proposal_at_unix_millis batch);
         (pruned, s1) = prune_committed_invocations B s expired in
     tryS pruned s1 (\<lambda>_.
     (case List.find (\<lambda>i. ci_invocation_id i = bb_invocation_id batch)
             (map snd (committed_invocations s1)) of
        Some invocation \<Rightarrow>
          tryS (replay invocation batch) s1 (\<lambda>i.
            (Inr (BatchBegun (AlreadyCommitted \<lparr>cr_invocation = i, cr_replayed = True\<rparr>)), s1))
      | None \<Rightarrow>
          (case preparing_batch s1 of
             Some prepared \<Rightarrow>
               if pb_request prepared = batch
               then (Inr (BatchBegun (Prepared prepared True)), s1)
               else (Inl (BatchE (BatchPreparationInProgress (pb_begin_cursor prepared))), s1)
           | None \<Rightarrow>
               let prepared = \<lparr>pb_begin_cursor = committed_log_index, pb_request = batch\<rparr> in
               (Inr (BatchBegun (Prepared prepared False)),
                s1\<lparr>preparing_batch := Some prepared\<rparr>))))))"

definition committed_invocation_of :: "u64 \<Rightarrow> PreparedBatch \<Rightarrow> CommittedInvocation" where
  "committed_invocation_of committed_log_index prepared =
     (let batch = pb_request prepared in
      \<lparr>ci_invocation_id = bb_invocation_id batch,
       ci_input_fingerprint = bb_input_fingerprint batch,
       ci_proposal_at_unix_millis = bb_proposal_at_unix_millis batch,
       ci_replay_expires_at_unix_millis = bb_replay_expires_at_unix_millis batch,
       ci_committed_batch =
         \<lparr>cb_commit_cursor = committed_log_index,
          cb_executor = bb_executor batch,
          cb_nomination_log_index = bb_nomination_log_index batch,
          cb_begin_cursor = pb_begin_cursor prepared,
          cb_authority = bb_authority batch,
          cb_bundle_ref = bb_bundle_ref batch,
          cb_durability_class = bb_durability_class batch,
          cb_durability_evidence_hash = bb_durability_evidence_hash batch,
          cb_participant_manifest_hash = bb_participant_manifest_hash batch\<rparr>\<rparr>)"

definition commit_prepared_batch ::
    "Bincode \<Rightarrow> StateMachine \<Rightarrow> u64 \<Rightarrow> PreparedBatchRequest \<Rightarrow> outcome" where
  "commit_prepared_batch B s committed_log_index request =
     tryS (require_executor s (pr_executor request) (pr_nomination_log_index request)) s (\<lambda>_.
     tryS (ok_or (BatchE NoPreparedBatch) (preparing_batch s)) s (\<lambda>prepared.
     tryS (validate_prepared_identity prepared request) s (\<lambda>_.
     tryS (ensure (case last_commit_cursor s of
                     None \<Rightarrow> True | Some previous \<Rightarrow> previous < committed_log_index)
             (CommitE (CommitCursorDidNotAdvance (last_commit_cursor s) committed_log_index)))
       s (\<lambda>_.
     tryS (ensure (case finalized_through s of
                     None \<Rightarrow> True | Some through \<Rightarrow> through < committed_log_index)
             (CommitE (CommitCursorNotAfterFinalization (finalized_through s)
                         committed_log_index))) s (\<lambda>_.
     let invocation = committed_invocation_of committed_log_index prepared in
     tryS (committed_invocation_entry_bytes B committed_log_index invocation) s
       (\<lambda>invocation_bytes.
     let retained_entries = committed_invocation_len s;
         retained_bytes = committed_invocation_bytes s;
         next_replay_entries = saturating_add retained_entries 1 in
     tryS (ok_or (CommitE CommittedInvocationByteCountExhausted)
             (checked_add retained_bytes invocation_bytes)) s (\<lambda>next_replay_bytes.
     tryS (ensure (next_replay_entries \<le> MAX_COMMITTED_INVOCATIONS
                   \<and> next_replay_bytes \<le> MAX_COMMITTED_INVOCATION_BYTES)
             (CommitE (CommittedInvocationWindowFull retained_entries retained_bytes
                         invocation_bytes))) s (\<lambda>_.
     let tail_entries = saturating_add (unfinalized_commit_len s) 1 in
     tryS (unfinalized_commit_bytes B s) s (\<lambda>unfinalized_bytes.
     tryS (ok_or (CommitE CommitTailByteCountExhausted)
             (checked_add unfinalized_bytes invocation_bytes)) s (\<lambda>tail_bytes.
     tryS (ensure (tail_entries \<le> max_commit_entries s \<and> tail_bytes \<le> max_commit_bytes s)
             (CommitE (CommitTailFull (unfinalized_commit_len s) unfinalized_bytes
                         invocation_bytes (max_commit_entries s) (max_commit_bytes s))))
       s (\<lambda>_.
     (Inr (BatchCommitted \<lparr>cr_invocation = invocation, cr_replayed = False\<rparr>),
      s\<lparr>committed_invocations :=
          bt_insert committed_log_index invocation (committed_invocations s),
        committed_invocation_bytes := next_replay_bytes,
        last_commit_cursor := Some committed_log_index,
        preparing_batch := None\<rparr>))))))))))))"

definition abort_prepared_batch :: "StateMachine \<Rightarrow> PreparedBatchRequest \<Rightarrow> outcome" where
  "abort_prepared_batch s request =
     tryS (require_executor s (pr_executor request) (pr_nomination_log_index request)) s (\<lambda>_.
     tryS (ok_or (BatchE NoPreparedBatch) (preparing_batch s)) s (\<lambda>prepared.
     tryS (validate_prepared_identity prepared request) s (\<lambda>_.
     (Inr (BatchAborted (pr_begin_cursor request)), s\<lparr>preparing_batch := None\<rparr>))))"

definition advance_finalization :: "StateMachine \<Rightarrow> NodeId \<Rightarrow> u64 \<Rightarrow> u64 \<Rightarrow> outcome" where
  "advance_finalization s executor nomination through =
     tryS (require_executor s executor nomination) s (\<lambda>_.
     (let advance =
        tryS (ok_or (CommitE NoCommittedBatchToFinalize) (last_commit_cursor s)) s (\<lambda>last_cursor.
        tryS (ensure (through \<le> last_cursor)
                (CommitE (FinalizedBeyondLastCommit last_cursor through))) s (\<lambda>_.
        (Inr (FinalizationAdvanced through), s\<lparr>finalized_through := Some through\<rparr>))) in
      (case finalized_through s of
         Some current \<Rightarrow>
           if through < current
           then (Inl (CommitE (FinalizedThroughRegressed current through)), s)
           else if through = current then (Inr (FinalizationAdvanced through), s)
           else advance
       | None \<Rightarrow> advance)))"

section \<open>Invariant\<close>

definition empty_map_size :: "Bincode \<Rightarrow> nat" where
  "empty_map_size B = (case encoded_len (size_of_empty_map B) of Inr n \<Rightarrow> unat n | Inl _ \<Rightarrow> 0)"

definition entry_size :: "Bincode \<Rightarrow> u64 \<times> CommittedInvocation \<Rightarrow> nat" where
  "entry_size B e =
     (case committed_invocation_entry_bytes B (fst e) (snd e) of Inr n \<Rightarrow> unat n | Inl _ \<Rightarrow> 0)"

definition invocation_ids :: "StateMachine \<Rightarrow> digest list" where
  "invocation_ids s = map (\<lambda>e. ci_invocation_id (snd e)) (committed_invocations s)"

text \<open>The replay window: entries sit under their own commit cursor, the running byte count is
  exact, and the fixed bounds hold.\<close>

definition window_ok :: "Bincode \<Rightarrow> StateMachine \<Rightarrow> bool" where
  "window_ok B s \<longleftrightarrow>
     bt_wf (committed_invocations s) \<and>
     (\<forall>e \<in> set (committed_invocations s).
        cb_commit_cursor (ci_committed_batch (snd e)) = fst e \<and>
        (\<exists>n. committed_invocation_entry_bytes B (fst e) (snd e) = Inr n)) \<and>
     unat (committed_invocation_bytes s) =
       empty_map_size B + sum_list (map (entry_size B) (committed_invocations s)) \<and>
     length (committed_invocations s) \<le> unat MAX_COMMITTED_INVOCATIONS \<and>
     (committed_invocations s = [] \<or>
        committed_invocation_bytes s \<le> MAX_COMMITTED_INVOCATION_BYTES)"

text \<open>Commit cursors stay at or below the last one, and so does the watermark.\<close>

definition cursors_ok :: "StateMachine \<Rightarrow> bool" where
  "cursors_ok s \<longleftrightarrow>
     (\<forall>e \<in> set (committed_invocations s).
        \<exists>l. last_commit_cursor s = Some l \<and> fst e \<le> l) \<and>
     (\<forall>f. finalized_through s = Some f \<longrightarrow> (\<exists>l. last_commit_cursor s = Some l \<and> f \<le> l))"

definition tail_ok :: "Bincode \<Rightarrow> StateMachine \<Rightarrow> bool" where
  "tail_ok B s \<longleftrightarrow>
     length (unfinalized_entries s) \<le> unat (max_commit_entries s) \<and>
     sum_list (map (entry_size B) (unfinalized_entries s)) \<le> unat (max_commit_bytes s)"

text \<open>The batch in preparation was validated, carries the current executor's fence, and its
  invocation is not among the committed ones, which are pairwise different.\<close>

definition preparing_ok :: "StateMachine \<Rightarrow> bool" where
  "preparing_ok s \<longleftrightarrow>
     distinct (invocation_ids s) \<and>
     (\<forall>p. preparing_batch s = Some p \<longrightarrow>
        validate_begin_batch (pb_request p) = Inr () \<and>
        sm_executor s =
          Some \<lparr>en_executor = bb_executor (pb_request p),
                en_nomination_log_index = bb_nomination_log_index (pb_request p)\<rparr> \<and>
        bb_invocation_id (pb_request p) \<notin> set (invocation_ids s))"

definition decision_inv :: "Bincode \<Rightarrow> StateMachine \<Rightarrow> bool" where
  "decision_inv B s \<longleftrightarrow> window_ok B s \<and> cursors_ok s \<and> tail_ok B s \<and> preparing_ok s"

lemmas decision_inv_defs =
  decision_inv_def window_ok_def cursors_ok_def tail_ok_def preparing_ok_def

lemma decision_invE:
  assumes "decision_inv B s"
  obtains "window_ok B s" "cursors_ok s" "tail_ok B s" "preparing_ok s"
  using assms by (simp add: decision_inv_def)

section \<open>Helper lemmas\<close>

lemma entry_size_Inr:
  "committed_invocation_entry_bytes B c i = Inr n \<Longrightarrow> entry_size B (c, i) = unat n"
  by (simp add: entry_size_def)

lemma set_bt_remove [simp]: "set (bt_remove k m) = {e \<in> set m. fst e \<noteq> k}"
  by (simp add: bt_remove_def)

lemma length_bt_remove_le: "length (bt_remove k m) \<le> length m"
  by (simp add: bt_remove_def)

lemma bt_insert_above:
  "\<forall>x \<in> fst ` set m. x < k \<Longrightarrow> bt_insert k v m = m @ [(k, v)]"
  by (induction m) auto

lemma unfinalized_commit_bytes_Inr:
  assumes "unfinalized_commit_bytes B s = Inr n"
  shows "unat n = sum_list (map (entry_size B) (unfinalized_entries s))"
proof -
  have "unat n = unat t + sum_list (map (entry_size B) xs)"
    if "foldE (\<lambda>total (cursor, entry).
          bindE (committed_invocation_entry_bytes B cursor entry) (\<lambda>n.
          ok_or (CommitE CommitTailByteCountExhausted) (checked_add total n))) t xs = Inr n"
    for t xs
    using that
  proof (induction xs arbitrary: t)
    case (Cons e xs)
    then show ?case
      by (cases e) (fastforce simp: entry_size_Inr dest: checked_add_SomeD)
  qed simp
  from this [of 0] assms show ?thesis by (simp add: unfinalized_commit_bytes_def)
qed

lemma unfinalized_sublist: "length (unfinalized_entries s) \<le> length (committed_invocations s)"
  by (simp add: unfinalized_entries_def)

section \<open>Pruning\<close>

lemma window_ok_remove:
  assumes "window_ok B s" "bt_get (committed_invocations s) c = Some i"
    and n: "committed_invocation_entry_bytes B c i = Inr n"
    and left: "checked_sub (committed_invocation_bytes s) n = Some left"
  shows "window_ok B (s\<lparr>committed_invocations := bt_remove c (committed_invocations s),
                        committed_invocation_bytes := left\<rparr>)"
proof -
  let ?m = "committed_invocations s"
  from assms(1) have wf: "bt_wf ?m"
    and bytes: "unat (committed_invocation_bytes s) = empty_map_size B + sum_list (map (entry_size B) ?m)"
    and bound: "committed_invocation_bytes s \<le> MAX_COMMITTED_INVOCATION_BYTES \<or> ?m = []"
    by (auto simp: window_ok_def)
  have sum: "sum_list (map (entry_size B) (bt_remove c ?m)) + unat n = sum_list (map (entry_size B) ?m)"
    using bt.sum_entries_del [OF wf assms(2), of "entry_size B"] n by (simp add: entry_size_Inr)
  have l: "unat left = unat (committed_invocation_bytes s) - unat n"
    using checked_sub_SomeD [OF left] by simp
  have "?m \<noteq> []" using assms(2) by auto
  with bound l have "left \<le> MAX_COMMITTED_INVOCATION_BYTES"
    by (simp add: word_le_nat_alt)
  moreover have "length (bt_remove c ?m) \<le> length ?m" by (rule length_bt_remove_le)
  ultimately show ?thesis
    using assms(1) sum l bytes by (auto simp: window_ok_def)
qed

lemma window_ok_entry:
  assumes "window_ok B s" "bt_get (committed_invocations s) c = Some i"
  obtains n left where "committed_invocation_entry_bytes B c i = Inr n"
    "checked_sub (committed_invocation_bytes s) n = Some left"
proof -
  have mem: "(c, i) \<in> set (committed_invocations s)" using assms(2) by (rule bt_get_mem)
  with assms(1) obtain n where n: "committed_invocation_entry_bytes B c i = Inr n"
    by (auto simp: window_ok_def)
  have "entry_size B (c, i) \<le> sum_list (map (entry_size B) (committed_invocations s))"
    using mem by (simp add: member_le_sum_list)
  with assms(1) n have "unat n \<le> unat (committed_invocation_bytes s)"
    by (simp add: window_ok_def entry_size_Inr)
  then obtain left where "checked_sub (committed_invocation_bytes s) n = Some left"
    using checked_sub_Some_iff by fastforce
  with n show ?thesis by (rule that)
qed

text \<open>Pruning succeeds exactly on cursors that are present, and removes just those.\<close>

lemma prune_Inr:
  assumes "window_ok B s" "distinct cs" "set cs \<subseteq> fst ` set (committed_invocations s)"
  shows "\<exists>left. prune_committed_invocations B s cs =
           (Inr (), s\<lparr>committed_invocations :=
                         filter (\<lambda>e. fst e \<notin> set cs) (committed_invocations s),
                     committed_invocation_bytes := left\<rparr>) \<and>
         window_ok B (s\<lparr>committed_invocations :=
                         filter (\<lambda>e. fst e \<notin> set cs) (committed_invocations s),
                     committed_invocation_bytes := left\<rparr>)"
  using assms
proof (induction cs arbitrary: s)
  case Nil
  then show ?case by (auto intro!: exI [of _ "committed_invocation_bytes s"])
next
  case (Cons c cs)
  let ?m = "committed_invocations s"
  from Cons.prems obtain i where i: "bt_get ?m c = Some i"
    using bt_get_None_iff [of ?m c] by (cases "bt_get ?m c") auto
  obtain n left where n: "committed_invocation_entry_bytes B c i = Inr n"
    and left: "checked_sub (committed_invocation_bytes s) n = Some left"
    using window_ok_entry [OF Cons.prems(1) i] .
  let ?s = "s\<lparr>committed_invocations := bt_remove c ?m, committed_invocation_bytes := left\<rparr>"
  have "set cs \<subseteq> fst ` set (committed_invocations ?s)"
  proof
    fix x assume "x \<in> set cs"
    with Cons.prems have "x \<noteq> c" "x \<in> fst ` set ?m" by auto
    then show "x \<in> fst ` set (committed_invocations ?s)" by force
  qed
  from Cons.IH [OF window_ok_remove [OF Cons.prems(1) i n left] _ this] Cons.prems(2)
  obtain final where
    "prune_committed_invocations B ?s cs =
       (Inr (), ?s\<lparr>committed_invocations := filter (\<lambda>e. fst e \<notin> set cs) (bt_remove c ?m),
                   committed_invocation_bytes := final\<rparr>)"
    "window_ok B (?s\<lparr>committed_invocations := filter (\<lambda>e. fst e \<notin> set cs) (bt_remove c ?m),
                   committed_invocation_bytes := final\<rparr>)"
    by auto
  moreover have "filter (\<lambda>e. fst e \<notin> set cs) (bt_remove c ?m)
      = filter (\<lambda>e. fst e \<notin> set (c # cs)) ?m"
    by (auto simp: bt_remove_def intro: filter_cong)
  ultimately show ?case by (auto simp: i n left Let_def)
qed


lemma expired_cursors:
  assumes "bt_wf (committed_invocations s)"
  shows "distinct (expired_finalized_cursors s t)"
    and "set (expired_finalized_cursors s t) \<subseteq> fst ` set (committed_invocations s)"
    and "\<forall>c \<in> set (expired_finalized_cursors s t). c \<le> finalized_or_zero s"
  using bt_wf_distinct_keys [OF assms]
  by (auto simp: expired_finalized_cursors_def finalized_or_zero_def distinct_map_filter
      split: option.splits)

text \<open>What \<open>begin_batch\<close> prunes: a success that keeps the invariant and the recovery tail.\<close>

lemma prune_expired:
  assumes inv: "decision_inv B s"
  obtains left where
    "prune_committed_invocations B s (expired_finalized_cursors s t) =
       (Inr (), s\<lparr>committed_invocations :=
           filter (\<lambda>e. fst e \<notin> set (expired_finalized_cursors s t)) (committed_invocations s),
         committed_invocation_bytes := left\<rparr>)"
    "decision_inv B (s\<lparr>committed_invocations :=
           filter (\<lambda>e. fst e \<notin> set (expired_finalized_cursors s t)) (committed_invocations s),
         committed_invocation_bytes := left\<rparr>)"
proof -
  let ?cs = "expired_finalized_cursors s t"
  let ?m = "filter (\<lambda>e. fst e \<notin> set ?cs) (committed_invocations s)"
  from inv have win: "window_ok B s" and "bt_wf (committed_invocations s)"
    by (simp_all add: decision_inv_def window_ok_def)
  note cs = expired_cursors [OF this(2), of t]
  from prune_Inr [OF win cs(1,2)] obtain left where
    p: "prune_committed_invocations B s ?cs =
          (Inr (), s\<lparr>committed_invocations := ?m, committed_invocation_bytes := left\<rparr>)"
    and w: "window_ok B (s\<lparr>committed_invocations := ?m, committed_invocation_bytes := left\<rparr>)"
    by auto
  have "filter (\<lambda>e. finalized_or_zero s < fst e) ?m = filter (\<lambda>e. finalized_or_zero s < fst e)
      (committed_invocations s)"
    unfolding filter_filter using cs(3) by (intro filter_cong) force+
  with inv w have
    "decision_inv B (s\<lparr>committed_invocations := ?m, committed_invocation_bytes := left\<rparr>)"
    by (auto simp: decision_inv_def tail_ok_def unfinalized_entries_def finalized_or_zero_def
        cursors_ok_def preparing_ok_def invocation_ids_def distinct_map_filter)
  with p show ?thesis by (rule that)
qed

section \<open>Frame lemmas\<close>

named_theorems decision_frame \<open>fields a part of the invariant does not read\<close>

lemma window_ok_frame [decision_frame]:
  "window_ok B (s\<lparr>preparing_batch := x\<rparr>) = window_ok B s"
  "window_ok B (s\<lparr>sm_executor := e\<rparr>) = window_ok B s"
  "window_ok B (s\<lparr>cluster_control := c\<rparr>) = window_ok B s"
  "window_ok B (s\<lparr>sm_cluster_id := i\<rparr>) = window_ok B s"
  "window_ok B (s\<lparr>system_bootstrap := b\<rparr>) = window_ok B s"
  "window_ok B (s\<lparr>finalized_through := f\<rparr>) = window_ok B s"
  by (simp_all add: window_ok_def)

lemma cursors_ok_frame [decision_frame]:
  "cursors_ok (s\<lparr>preparing_batch := x\<rparr>) = cursors_ok s"
  "cursors_ok (s\<lparr>sm_executor := e\<rparr>) = cursors_ok s"
  "cursors_ok (s\<lparr>cluster_control := c\<rparr>) = cursors_ok s"
  "cursors_ok (s\<lparr>sm_cluster_id := i\<rparr>) = cursors_ok s"
  "cursors_ok (s\<lparr>system_bootstrap := b\<rparr>) = cursors_ok s"
  by (simp_all add: cursors_ok_def)

lemma unfinalized_entries_frame [decision_frame]:
  "unfinalized_entries (s\<lparr>preparing_batch := x\<rparr>) = unfinalized_entries s"
  "unfinalized_entries (s\<lparr>sm_executor := e\<rparr>) = unfinalized_entries s"
  "unfinalized_entries (s\<lparr>cluster_control := c\<rparr>) = unfinalized_entries s"
  "unfinalized_entries (s\<lparr>sm_cluster_id := i\<rparr>) = unfinalized_entries s"
  "unfinalized_entries (s\<lparr>system_bootstrap := b\<rparr>) = unfinalized_entries s"
  by (simp_all add: unfinalized_entries_def finalized_or_zero_def)

lemma tail_ok_frame [decision_frame]:
  "tail_ok B (s\<lparr>preparing_batch := x\<rparr>) = tail_ok B s"
  "tail_ok B (s\<lparr>sm_executor := e\<rparr>) = tail_ok B s"
  "tail_ok B (s\<lparr>cluster_control := c\<rparr>) = tail_ok B s"
  "tail_ok B (s\<lparr>sm_cluster_id := i\<rparr>) = tail_ok B s"
  "tail_ok B (s\<lparr>system_bootstrap := b\<rparr>) = tail_ok B s"
  by (simp_all add: tail_ok_def decision_frame)

lemma preparing_ok_frame [decision_frame]:
  "preparing_ok (s\<lparr>cluster_control := c\<rparr>) = preparing_ok s"
  "preparing_ok (s\<lparr>sm_cluster_id := i\<rparr>) = preparing_ok s"
  "preparing_ok (s\<lparr>system_bootstrap := b\<rparr>) = preparing_ok s"
  "preparing_ok (s\<lparr>finalized_through := f\<rparr>) = preparing_ok s"
  by (simp_all add: preparing_ok_def invocation_ids_def)

lemma preparing_ok_clear: "preparing_ok s \<Longrightarrow> preparing_ok (s\<lparr>preparing_batch := None\<rparr>)"
  by (simp add: preparing_ok_def invocation_ids_def)

lemma decision_inv_cluster_fields [simp]:
  "decision_inv B (s\<lparr>cluster_control := c\<rparr>) = decision_inv B s"
  "decision_inv B (s\<lparr>sm_cluster_id := i\<rparr>) = decision_inv B s"
  "decision_inv B (s\<lparr>system_bootstrap := b\<rparr>) = decision_inv B s"
  by (simp_all add: decision_inv_def decision_frame)

section \<open>Every operation keeps the invariant\<close>

lemma new_state_machine_inv:
  assumes "new_state_machine B entries bytes = Inr s"
  shows "decision_inv B s"
  using assms
  by (auto simp: new_state_machine_def decision_inv_defs unfinalized_entries_def invocation_ids_def
      empty_map_size_def)

lemma initialize_cluster_inv:
  "decision_inv B s \<Longrightarrow> decision_inv B (snd (initialize_cluster s c))"
  unfolding initialize_cluster_def by (rule tryS_snd) (auto split: option.splits)

lemma complete_system_bootstrap_inv:
  "decision_inv B s \<Longrightarrow> decision_inv B (snd (complete_system_bootstrap s e n v i))"
  by (simp add: complete_system_bootstrap_def Let_def split: SystemBootstrapState.split tryS_split)

lemma validate_begin_batch_refence:
  "validate_begin_batch b = Inr () \<Longrightarrow> validate_node e = Inr () \<Longrightarrow>
   validate_begin_batch (b\<lparr>bb_executor := e, bb_nomination_log_index := i\<rparr>) = Inr ()"
  by (simp add: validate_begin_batch_def)

lemma preparing_ok_nominate:
  assumes "preparing_ok s" "validate_node e = Inr ()"
  shows "preparing_ok (s\<lparr>preparing_batch := map_option (\<lambda>p. p\<lparr>pb_request :=
             (pb_request p)\<lparr>bb_executor := e, bb_nomination_log_index := i\<rparr>\<rparr>) (preparing_batch s),
           sm_executor := Some \<lparr>en_executor = e, en_nomination_log_index = i\<rparr>\<rparr>)"
  using assms
  by (cases "preparing_batch s")
    (simp_all add: preparing_ok_def invocation_ids_def validate_begin_batch_refence)

lemma nominate_executor_inv:
  "decision_inv B s \<Longrightarrow> decision_inv B (snd (nominate_executor s e i))"
  by (cases "validate_node e")
    (simp_all add: nominate_executor_def Let_def decision_inv_def decision_frame
      preparing_ok_nominate)

lemma require_executor_Inr:
  "require_executor s e n = Inr u \<longleftrightarrow>
     validate_node e = Inr () \<and> sm_executor s = Some \<lparr>en_executor = e, en_nomination_log_index = n\<rparr>"
  by (auto simp: require_executor_def)

lemma preparing_ok_begin:
  assumes "preparing_ok s" "validate_begin_batch batch = Inr ()"
    and "sm_executor s = Some \<lparr>en_executor = bb_executor batch,
           en_nomination_log_index = bb_nomination_log_index batch\<rparr>"
    and "List.find (\<lambda>i. ci_invocation_id i = bb_invocation_id batch)
           (map snd (committed_invocations s)) = None"
  shows "preparing_ok (s\<lparr>preparing_batch :=
           Some \<lparr>pb_begin_cursor = idx, pb_request = batch\<rparr>\<rparr>)"
  using assms by (auto simp: preparing_ok_def invocation_ids_def find_None_iff)

lemma begin_batch_inv:
  assumes "decision_inv B s"
  shows "decision_inv B (snd (begin_batch B s idx batch))"
proof (cases "validate_begin_batch batch")
  case (Inr u)
  show ?thesis
  proof (cases "require_executor s (bb_executor batch) (bb_nomination_log_index batch)")
    case exec: (Inr w)
    let ?cs = "expired_finalized_cursors s (bb_proposal_at_unix_millis batch)"
    obtain left where p: "prune_committed_invocations B s ?cs =
         (Inr (), s\<lparr>committed_invocations := filter (\<lambda>e. fst e \<notin> set ?cs) (committed_invocations s),
                   committed_invocation_bytes := left\<rparr>)"
      and inv1: "decision_inv B (s\<lparr>committed_invocations := filter (\<lambda>e. fst e \<notin> set ?cs)
                   (committed_invocations s), committed_invocation_bytes := left\<rparr>)"
      using prune_expired [OF assms] .
    let ?s1 = "s\<lparr>committed_invocations := filter (\<lambda>e. fst e \<notin> set ?cs) (committed_invocations s),
                   committed_invocation_bytes := left\<rparr>"
    have "decision_inv B (?s1\<lparr>preparing_batch := Some \<lparr>pb_begin_cursor = idx, pb_request = batch\<rparr>\<rparr>)"
      if "List.find (\<lambda>i. ci_invocation_id i = bb_invocation_id batch)
            (map snd (committed_invocations ?s1)) = None"
      using inv1 preparing_ok_begin [OF _ _ _ that] Inr exec
      by (simp add: decision_inv_def decision_frame require_executor_Inr)
    with inv1 show ?thesis
      by (simp add: begin_batch_def Inr exec p Let_def split: option.split tryS_split)
  qed (simp add: begin_batch_def Inr assms)
qed (simp add: begin_batch_def assms)

lemma commit_prepared_batch_cases:
  assumes "commit_prepared_batch B s idx r = (res, s')"
  obtains (rejected) e where "res = Inl e" "s' = s"
  | (committed) p n bytes tail_bytes where
      "require_executor s (pr_executor r) (pr_nomination_log_index r) = Inr ()"
      "preparing_batch s = Some p" "validate_prepared_identity p r = Inr ()"
      "\<forall>l. last_commit_cursor s = Some l \<longrightarrow> l < idx"
      "\<forall>f. finalized_through s = Some f \<longrightarrow> f < idx"
      "committed_invocation_entry_bytes B idx (committed_invocation_of idx p) = Inr n"
      "unat bytes = unat (committed_invocation_bytes s) + unat n"
      "saturating_add (committed_invocation_len s) 1 \<le> MAX_COMMITTED_INVOCATIONS"
      "bytes \<le> MAX_COMMITTED_INVOCATION_BYTES"
      "unat tail_bytes = sum_list (map (entry_size B) (unfinalized_entries s)) + unat n"
      "saturating_add (unfinalized_commit_len s) 1 \<le> max_commit_entries s"
      "tail_bytes \<le> max_commit_bytes s"
      "res = Inr (BatchCommitted \<lparr>cr_invocation = committed_invocation_of idx p,
                   cr_replayed = False\<rparr>)"
      "s' = s\<lparr>committed_invocations :=
                bt_insert idx (committed_invocation_of idx p) (committed_invocations s),
              committed_invocation_bytes := bytes, last_commit_cursor := Some idx,
              preparing_batch := None\<rparr>"
proof (cases res)
  case (Inl e)
  with assms have "s' = s"
    by (auto simp: commit_prepared_batch_def Let_def split: tryS_split_asm)
  with Inl show ?thesis by (rule rejected)
next
  case (Inr v)
  with assms show ?thesis
    by (auto simp: commit_prepared_batch_def Let_def tryS_eq_Inr split: option.splits
        dest!: checked_add_SomeD unfinalized_commit_bytes_Inr intro!: committed)
qed

lemma unat_committed_invocation_len:
  "window_ok B s \<Longrightarrow> unat (committed_invocation_len s) = length (committed_invocations s)"
  by (simp add: window_ok_def committed_invocation_len_def unat_of_nat MAX_COMMITTED_INVOCATIONS_def)

lemma unat_unfinalized_commit_len:
  "window_ok B s \<Longrightarrow> unat (unfinalized_commit_len s) = length (unfinalized_entries s)"
  using unfinalized_sublist [of s]
  by (simp add: window_ok_def unfinalized_commit_len_def unfinalized_invocations_def unat_of_nat
      MAX_COMMITTED_INVOCATIONS_def)

lemma commit_appends:
  assumes "cursors_ok s" "\<forall>l. last_commit_cursor s = Some l \<longrightarrow> l < idx"
  shows "bt_insert idx i (committed_invocations s) = committed_invocations s @ [(idx, i)]"
  using assms by (intro bt_insert_above) (fastforce simp: cursors_ok_def)

lemma commit_prepared_batch_inv:
  assumes inv: "decision_inv B s"
  shows "decision_inv B (snd (commit_prepared_batch B s idx r))"
proof -
  obtain res s' where "commit_prepared_batch B s idx r = (res, s')" by fastforce
  moreover from this have "decision_inv B s'"
  proof (cases rule: commit_prepared_batch_cases)
    case rejected
    with inv show ?thesis by simp
  next
    case c: (committed p n bytes tail_bytes)
    let ?i = "committed_invocation_of idx p" and ?m = "committed_invocations s"
    from inv have win: "window_ok B s" and cur: "cursors_ok s" and tail: "tail_ok B s"
      and prep: "preparing_ok s" by (auto elim: decision_invE)
    note app = commit_appends [OF cur c(4)]
    have s': "s' = s\<lparr>committed_invocations := ?m @ [(idx, ?i)],
        committed_invocation_bytes := bytes, last_commit_cursor := Some idx,
        preparing_batch := None\<rparr>"
      using c(14) by (simp add: app)
    have n: "entry_size B (idx, ?i) = unat n" using c(6) by (rule entry_size_Inr)
    have "bt_wf (?m @ [(idx, ?i)])"
      using win bt_wf_insert [of ?m idx ?i] by (simp add: window_ok_def app)
    moreover have "length ?m + 1 \<le> unat MAX_COMMITTED_INVOCATIONS"
      using c(8) unat_committed_invocation_len [OF win]
      by (simp add: word_le_nat_alt unat_saturating_add MAX_COMMITTED_INVOCATIONS_def)
    ultimately have "window_ok B s'"
      using win c(6,7,9) n by (auto simp: s' window_ok_def committed_invocation_of_def Let_def)
    moreover have "cursors_ok s'"
      using cur c(4,5) by (fastforce simp: s' cursors_ok_def)
    moreover have "tail_ok B s'"
    proof -
      have "length (unfinalized_entries s) + 1 \<le> unat (max_commit_entries s)"
        using c(11) unat_unfinalized_commit_len [OF win] unfinalized_sublist [of s] win
        by (simp add: word_le_nat_alt unat_saturating_add window_ok_def
            MAX_COMMITTED_INVOCATIONS_def)
      then show ?thesis
        using c(10,12) tail n
        by (auto simp: s' tail_ok_def unfinalized_entries_def finalized_or_zero_def
            word_le_nat_alt)
    qed
    moreover have "preparing_ok s'"
      using prep c(2)
      by (auto simp: s' preparing_ok_def invocation_ids_def committed_invocation_of_def Let_def)
    ultimately show ?thesis by (simp add: decision_inv_def)
  qed
  ultimately show ?thesis by simp
qed

lemma abort_prepared_batch_inv:
  "decision_inv B s \<Longrightarrow> decision_inv B (snd (abort_prepared_batch s r))"
  by (simp add: abort_prepared_batch_def decision_inv_def decision_frame preparing_ok_clear
      split: tryS_split)

lemma advance_finalization_eq:
  "advance_finalization s e n t =
     (case require_executor s e n of
        Inl err \<Rightarrow> (Inl err, s)
      | Inr _ \<Rightarrow>
          if finalized_through s \<noteq> None \<and> t < the (finalized_through s)
          then (Inl (CommitE (FinalizedThroughRegressed (the (finalized_through s)) t)), s)
          else if finalized_through s = Some t then (Inr (FinalizationAdvanced t), s)
          else (case last_commit_cursor s of
             None \<Rightarrow> (Inl (CommitE NoCommittedBatchToFinalize), s)
           | Some l \<Rightarrow>
               if t \<le> l then (Inr (FinalizationAdvanced t), s\<lparr>finalized_through := Some t\<rparr>)
               else (Inl (CommitE (FinalizedBeyondLastCommit l t)), s)))"
  by (cases "require_executor s e n"; cases "finalized_through s"; cases "last_commit_cursor s")
    (simp_all add: advance_finalization_def ensure_def)

lemma advance_finalization_cases:
  assumes adv: "advance_finalization s e n t = (res, s')"
  obtains (unchanged) "s' = s"
  | (advanced) l where "last_commit_cursor s = Some l" "t \<le> l" "finalized_or_zero s \<le> t"
      "s' = s\<lparr>finalized_through := Some t\<rparr>" "res = Inr (FinalizationAdvanced t)"
proof (cases "require_executor s e n")
  case (Inl err)
  with adv have "s' = s" by (simp add: advance_finalization_eq)
  then show ?thesis by (rule unchanged)
next
  case (Inr u)
  show ?thesis
  proof (cases "finalized_or_zero s \<le> t \<and> finalized_through s \<noteq> Some t")
    case True
    show ?thesis
    proof (cases "last_commit_cursor s")
      case None
      with adv Inr True have "s' = s"
        by (simp add: advance_finalization_eq finalized_or_zero_def split: if_split_asm)
      then show ?thesis by (rule unchanged)
    next
      case (Some l)
      show ?thesis
      proof (cases "t \<le> l")
        case le: True
        from True have "\<not> (finalized_through s \<noteq> None \<and> t < the (finalized_through s))"
          by (auto simp: finalized_or_zero_def)
        with adv Inr True Some le have "(res, s') = (Inr (FinalizationAdvanced t), s\<lparr>finalized_through := Some t\<rparr>)"
          unfolding advance_finalization_eq by (simp only: sum.case if_False if_True option.case simp_thms)
        with Some le True show ?thesis by (intro advanced) simp_all
      next
        case False
        with adv Inr Some have "s' = s"
          by (simp add: advance_finalization_eq split: if_split_asm)
        then show ?thesis by (rule unchanged)
      qed
    qed
  next
    case False
    with adv Inr have "s' = s"
      by (simp add: advance_finalization_eq finalized_or_zero_def split: if_split_asm option.splits)
    then show ?thesis by (rule unchanged)
  qed
qed

lemma tail_ok_advance:
  assumes "tail_ok B s" "finalized_or_zero s \<le> t"
  shows "tail_ok B (s\<lparr>finalized_through := Some t\<rparr>)"
proof -
  have sub: "unfinalized_entries (s\<lparr>finalized_through := Some t\<rparr>) =
      filter (\<lambda>e. t < fst e) (unfinalized_entries s)"
    using assms(2) by (auto simp: unfinalized_entries_def finalized_or_zero_def intro: filter_cong)
  have "sum_list (map f (filter P xs)) \<le> sum_list (map f xs)" for f :: "'x \<Rightarrow> nat" and P xs
    by (induction xs) auto
  with assms(1) show ?thesis
    unfolding tail_ok_def sub by (auto intro: order_trans length_filter_le)
qed

lemma advance_finalization_inv:
  assumes inv: "decision_inv B s"
  shows "decision_inv B (snd (advance_finalization s e n t))"
proof -
  obtain res s' where "advance_finalization s e n t = (res, s')" by fastforce
  moreover from this have "decision_inv B s'"
  proof (cases rule: advance_finalization_cases)
    case (advanced l)
    moreover from this inv have "cursors_ok s'" by (simp add: decision_inv_def cursors_ok_def)
    ultimately show ?thesis
      using inv tail_ok_advance [of B s t] by (simp add: decision_inv_def decision_frame)
  qed (simp add: inv)
  ultimately show ?thesis by simp
qed

end
