(* ===== verification/Cluster_Control.thy ===== *)
theory Cluster_Control
  imports Decision_State
begin

text \<open>
  Cluster admission and membership transitions, \<^verbatim>\<open>keldra-consensus/src/cluster_control.rs\<close>:
  admitting, removing and reweighting a node in two committed steps, refreshing a joining node,
  rotating a peer pin through an overlap, and binding the two write-once settings. The source
  fetches a descriptor with \<^verbatim>\<open>get_mut\<close> and writes its fields in place; here the changed
  descriptor is put back under its key by \<open>put_node\<close>.
\<close>

section \<open>Validation\<close>

definition range_contains :: "CapabilityRange \<Rightarrow> u16 \<Rightarrow> bool" where
  "range_contains r version \<longleftrightarrow> range_min r \<le> version \<and> version \<le> range_max r"

definition validate_node_id :: "NodeId \<Rightarrow> ApplyError + unit" where
  "validate_node_id node = ensure (1 \<le> node \<and> node \<le> MAX_RAFT_NODE_ID) (ClusterE InvalidNodeId)"

definition validate_capability_range :: "CapabilityRange \<Rightarrow> ApplyError + unit" where
  "validate_capability_range r =
     ensure (\<not> (range_min r = 0 \<or> range_min r > range_max r))
       (DescriptorE (InvalidCapabilityRange (range_min r) (range_max r)))"

definition validate_pin :: "digest \<Rightarrow> ApplyError + unit" where
  "validate_pin pin = ensure (pin \<noteq> 0) (DescriptorE InvalidPeerSpki)"

definition validate_join_capability :: "digest \<Rightarrow> ApplyError + unit" where
  "validate_join_capability capability =
     ensure (capability \<noteq> 0) (DescriptorE InvalidJoinCapabilityHash)"

definition validate_peer_address :: "string \<Rightarrow> ApplyError + unit" where
  "validate_peer_address addr =
     ensure (\<not> (addr = [] \<or> MAX_PEER_ADDRESS_BYTES < length addr
               \<or> list_ex (\<lambda>c. is_control c \<or> is_whitespace c) (str_chars addr)))
       (DescriptorE InvalidPeerAddress)"

definition validate_descriptor :: "NodeDescriptor \<Rightarrow> ApplyError + unit" where
  "validate_descriptor d =
     bindE (validate_node_id (nd_node_id d)) (\<lambda>_.
     bindE (validate_peer_address (peer_address d)) (\<lambda>_.
     bindE (ensure (storage_weight_millionths d \<noteq> 0) (DescriptorE InvalidStorageWeight)) (\<lambda>_.
     bindE (validate_pin (current_peer_spki_sha256 d)) (\<lambda>_.
     bindE (case overlap_peer_spki_sha256 d of
              None \<Rightarrow> Inr ()
            | Some overlap \<Rightarrow>
                bindE (validate_pin overlap) (\<lambda>_.
                ensure (overlap \<noteq> current_peer_spki_sha256 d) (DescriptorE PeerPinsMustDiffer)))
       (\<lambda>_.
     bindE (validate_capability_range (supported_protocol d)) (\<lambda>_.
     bindE (validate_capability_range (supported_storage_format d)) (\<lambda>_.
     (case nd_state d of
        Joining \<Rightarrow>
          bindE (ok_or (DescriptorE JoiningNodeRequiresCapability) (join_capability_hash d))
            (\<lambda>capability.
          bindE (validate_join_capability capability) (\<lambda>_.
          ensure (overlap_peer_spki_sha256 d = None)
            (DescriptorE JoiningNodeCannotRotatePeerPin)))
      | Active \<Rightarrow>
          ensure (join_capability_hash d = None)
            (DescriptorE ActiveNodeRetainsJoinCapability)))))))))"

definition ensure_descriptor_unique ::
    "(NodeId, NodeDescriptor) btree \<Rightarrow> NodeDescriptor \<Rightarrow> ApplyError + unit" where
  "ensure_descriptor_unique nodes candidate =
     forE (\<lambda>(_, d).
        bindE (ensure (peer_address d \<noteq> peer_address candidate)
                 (DescriptorE PeerAddressAlreadyUsed)) (\<lambda>_.
        bindE (ensure (\<not> (current_peer_spki_sha256 d = current_peer_spki_sha256 candidate
                          \<or> overlap_peer_spki_sha256 d = Some (current_peer_spki_sha256 candidate)))
                 (DescriptorE PeerSpkiAlreadyUsed)) (\<lambda>_.
        ensure (\<not> (join_capability_hash candidate \<noteq> None
                   \<and> join_capability_hash candidate = join_capability_hash d))
          (DescriptorE JoinCapabilityAlreadyUsed))))
       nodes"

definition ensure_pin_unique ::
    "(NodeId, NodeDescriptor) btree \<Rightarrow> NodeId \<Rightarrow> digest \<Rightarrow> ApplyError + unit" where
  "ensure_pin_unique nodes node pin =
     ensure (\<not> list_ex (\<lambda>(other, d). other \<noteq> node
                \<and> (current_peer_spki_sha256 d = pin \<or> overlap_peer_spki_sha256 d = Some pin)) nodes)
       (DescriptorE PeerSpkiAlreadyUsed)"

definition ensure_join_capability_unique ::
    "(NodeId, NodeDescriptor) btree \<Rightarrow> NodeId \<Rightarrow> digest \<Rightarrow> ApplyError + unit" where
  "ensure_join_capability_unique nodes node capability =
     ensure (\<not> list_ex (\<lambda>(other, d). other \<noteq> node
                \<and> join_capability_hash d = Some capability) nodes)
       (DescriptorE JoinCapabilityAlreadyUsed)"

section \<open>Preconditions on the state\<close>

definition require_cluster_control :: "StateMachine \<Rightarrow> u16 \<Rightarrow> ApplyError + unit" where
  "require_cluster_control s format_version =
     bindE (ensure (format_version = CLUSTER_CONTROL_COMMAND_VERSION)
              (ClusterE (UnsupportedClusterControlVersion format_version))) (\<lambda>_.
     ensure (sm_cluster_id s \<noteq> None) (ClusterE ClusterNotInitialized))"

definition require_node_not_transitioning :: "StateMachine \<Rightarrow> NodeId \<Rightarrow> ApplyError + unit" where
  "require_node_not_transitioning s node =
     (case cc_transition (cluster_control s) of
        None \<Rightarrow> Inr ()
      | Some t \<Rightarrow> ensure (mt_node_id t \<noteq> node)
                    (MembershipE (NodeMembershipTransitionInProgress node)))"

definition active_descriptor_mut :: "StateMachine \<Rightarrow> NodeId \<Rightarrow> ApplyError + NodeDescriptor" where
  "active_descriptor_mut s node =
     bindE (validate_node_id node) (\<lambda>_.
     bindE (ok_or (MembershipE (NodeNotAdmitted node))
              (bt_get (cc_nodes (cluster_control s)) node)) (\<lambda>d.
     bindE (ensure (nd_state d = Active) (MembershipE (NodeNotActive node))) (\<lambda>_.
     Inr d)))"

definition put_node :: "StateMachine \<Rightarrow> NodeId \<Rightarrow> NodeDescriptor \<Rightarrow> StateMachine" where
  "put_node s node d =
     s\<lparr>cluster_control := (cluster_control s)
         \<lparr>cc_nodes := bt_insert node d (cc_nodes (cluster_control s))\<rparr>\<rparr>"

definition put_transition :: "StateMachine \<Rightarrow> MembershipTransition option \<Rightarrow> StateMachine" where
  "put_transition s t = s\<lparr>cluster_control := (cluster_control s)\<lparr>cc_transition := t\<rparr>\<rparr>"

section \<open>Membership transitions\<close>

definition begin_add_node :: "StateMachine \<Rightarrow> u16 \<Rightarrow> NodeDescriptor \<Rightarrow> u64 \<Rightarrow> outcome" where
  "begin_add_node s format_version d committed_log_index =
     tryS (require_cluster_control s format_version) s (\<lambda>_.
     tryS (validate_descriptor d) s (\<lambda>_.
     tryS (ensure (nd_state d = Joining) (DescriptorE AddedNodeMustBeJoining)) s (\<lambda>_.
     (case cc_transition (cluster_control s) of
        Some existing \<Rightarrow>
          if mt_kind existing = TransitionAdd
             \<and> mt_node_id existing = nd_node_id d
             \<and> target_weight_millionths existing = Some (storage_weight_millionths d)
             \<and> bt_get (cc_nodes (cluster_control s)) (nd_node_id d) = Some d
          then (Inr (MembershipTransitionBegun existing), s)
          else (Inl (MembershipE (MembershipTransitionInProgress (started_log_index existing))), s)
      | None \<Rightarrow>
          tryS (ensure (\<not> used_contains (used_node_ids (cluster_control s)) (nd_node_id d))
                  (MembershipE (NodeIdAlreadyUsed (nd_node_id d)))) s (\<lambda>_.
          tryS (ensure_descriptor_unique (cc_nodes (cluster_control s)) d) s (\<lambda>_.
          let transition = \<lparr>mt_kind = TransitionAdd, mt_node_id = nd_node_id d,
                started_log_index = committed_log_index,
                target_weight_millionths = Some (storage_weight_millionths d)\<rparr> in
          (Inr (MembershipTransitionBegun transition),
           s\<lparr>cluster_control := (cluster_control s)
               \<lparr>used_node_ids := used_insert (used_node_ids (cluster_control s)) (nd_node_id d),
                cc_nodes := bt_insert (nd_node_id d) d (cc_nodes (cluster_control s)),
                cc_transition := Some transition\<rparr>\<rparr>)))))))"

definition begin_remove_node :: "StateMachine \<Rightarrow> u16 \<Rightarrow> NodeId \<Rightarrow> u64 \<Rightarrow> outcome" where
  "begin_remove_node s format_version node committed_log_index =
     tryS (require_cluster_control s format_version) s (\<lambda>_.
     tryS (validate_node_id node) s (\<lambda>_.
     (case cc_transition (cluster_control s) of
        Some existing \<Rightarrow>
          if mt_kind existing = TransitionRemove \<and> mt_node_id existing = node
          then (Inr (MembershipTransitionBegun existing), s)
          else (Inl (MembershipE (MembershipTransitionInProgress (started_log_index existing))), s)
      | None \<Rightarrow>
          tryS (ok_or (MembershipE (NodeNotAdmitted node))
                  (bt_get (cc_nodes (cluster_control s)) node)) s (\<lambda>d.
          tryS (ensure (nd_state d = Active) (MembershipE (NodeNotActive node))) s (\<lambda>_.
          tryS (ensure (active_node_count (cluster_control s) \<noteq> 1)
                  (MembershipE CannotRemoveLastActiveNode)) s (\<lambda>_.
          let transition = \<lparr>mt_kind = TransitionRemove, mt_node_id = node,
                started_log_index = committed_log_index, target_weight_millionths = None\<rparr> in
          (Inr (MembershipTransitionBegun transition), put_transition s (Some transition))))))))"

definition begin_reweight_node :: "StateMachine \<Rightarrow> u16 \<Rightarrow> NodeId \<Rightarrow> u32 \<Rightarrow> u64 \<Rightarrow> outcome" where
  "begin_reweight_node s format_version node weight committed_log_index =
     tryS (require_cluster_control s format_version) s (\<lambda>_.
     tryS (validate_node_id node) s (\<lambda>_.
     tryS (ensure (weight \<noteq> 0) (DescriptorE InvalidStorageWeight)) s (\<lambda>_.
     (case cc_transition (cluster_control s) of
        Some existing \<Rightarrow>
          if mt_kind existing = TransitionReweight \<and> mt_node_id existing = node
             \<and> target_weight_millionths existing = Some weight
          then (Inr (MembershipTransitionBegun existing), s)
          else (Inl (MembershipE (MembershipTransitionInProgress (started_log_index existing))), s)
      | None \<Rightarrow>
          tryS (ok_or (MembershipE (NodeNotAdmitted node))
                  (bt_get (cc_nodes (cluster_control s)) node)) s (\<lambda>d.
          tryS (ensure (nd_state d = Active) (MembershipE (NodeNotActive node))) s (\<lambda>_.
          tryS (ensure (storage_weight_millionths d \<noteq> weight)
                  (MembershipE StorageWeightUnchanged)) s (\<lambda>_.
          let transition = \<lparr>mt_kind = TransitionReweight, mt_node_id = node,
                started_log_index = committed_log_index,
                target_weight_millionths = Some weight\<rparr> in
          (Inr (MembershipTransitionBegun transition), put_transition s (Some transition)))))))))"

text \<open>The \<^verbatim>\<open>match transition.kind\<close>: the changed state with the flags \<^verbatim>\<open>finished\<close> and
  \<^verbatim>\<open>active_placement_changed\<close>.\<close>

definition transition_step ::
    "StateMachine \<Rightarrow> MembershipTransition \<Rightarrow> ApplyError + (bool \<times> bool \<times> StateMachine)" where
  "transition_step s t =
     (let c = cluster_control s; node = mt_node_id t;
          mismatch = MembershipE MembershipTransitionStateMismatch in
      (case mt_kind t of
         TransitionAdd \<Rightarrow>
           bindE (ok_or mismatch (bt_get (cc_nodes c) node)) (\<lambda>d.
           bindE (ensure (target_weight_millionths t = Some (storage_weight_millionths d))
                    mismatch) (\<lambda>_.
           (case nd_state d of
              Joining \<Rightarrow>
                bindE (ensure (range_contains (supported_protocol d) (active_protocol_version c)
                         \<and> range_contains (supported_storage_format d) (active_storage_format c))
                         (MembershipE ActiveNodeLacksCapability)) (\<lambda>_.
                Inr (False, True,
                  put_node s node (d\<lparr>nd_state := Active, join_capability_hash := None\<rparr>)))
            | Active \<Rightarrow> Inr (True, False, s))))
       | TransitionRemove \<Rightarrow>
           bindE (ok_or mismatch (bt_get (cc_nodes c) node)) (\<lambda>d.
           bindE (ensure (nd_state d = Active \<and> target_weight_millionths t = None)
                    mismatch) (\<lambda>_.
           Inr (True, True,
             s\<lparr>cluster_control := c\<lparr>cc_nodes := bt_remove node (cc_nodes c)\<rparr>\<rparr>)))
       | TransitionReweight \<Rightarrow>
           bindE (ok_or mismatch (target_weight_millionths t)) (\<lambda>weight.
           bindE (ok_or mismatch (bt_get (cc_nodes c) node)) (\<lambda>d.
           bindE (ensure (nd_state d = Active) mismatch) (\<lambda>_.
           Inr (True, True, put_node s node (d\<lparr>storage_weight_millionths := weight\<rparr>)))))))"

text \<open>What follows the \<^verbatim>\<open>match\<close>: recording the placement change and the end.\<close>

definition step_result ::
    "u64 \<Rightarrow> LogId \<Rightarrow> MembershipTransition \<Rightarrow> bool \<times> bool \<times> StateMachine \<Rightarrow> outcome" where
  "step_result started committed_log_id t r =
     (case r of (finished, placement_changed, s1) \<Rightarrow>
        let s2 = (if placement_changed
                  then s1\<lparr>cluster_control := (cluster_control s1)
                            \<lparr>active_placement_log_id := Some committed_log_id\<rparr>\<rparr>
                  else s1) in
        if finished
        then (Inr (MembershipTransitionFinished started), put_transition s2 None)
        else (Inr (MembershipTransitionAdvanced t), s2))"

definition complete_membership_transition ::
    "StateMachine \<Rightarrow> u16 \<Rightarrow> u64 \<Rightarrow> LogId \<Rightarrow> outcome" where
  "complete_membership_transition s format_version started committed_log_id =
     tryS (require_cluster_control s format_version) s (\<lambda>_.
     tryS (ok_or (MembershipE NoMembershipTransition) (cc_transition (cluster_control s))) s (\<lambda>t.
     tryS (ensure (started_log_index t = started)
             (MembershipE (MembershipTransitionFenceMismatch (started_log_index t) started)))
       s (\<lambda>_.
     tryS (transition_step s t) s (step_result started committed_log_id t))))"

definition refresh_joining_node_preparation ::
    "StateMachine \<Rightarrow> u16 \<Rightarrow> NodeId \<Rightarrow> u64 \<Rightarrow> digest \<Rightarrow> digest \<Rightarrow> digest \<Rightarrow> digest \<Rightarrow> outcome" where
  "refresh_joining_node_preparation s format_version node started
       expected_pin expected_capability new_pin new_capability =
     tryS (require_cluster_control s format_version) s (\<lambda>_.
     tryS (validate_node_id node) s (\<lambda>_.
     tryS (validate_pin expected_pin) s (\<lambda>_.
     tryS (validate_pin new_pin) s (\<lambda>_.
     tryS (validate_join_capability expected_capability) s (\<lambda>_.
     tryS (validate_join_capability new_capability) s (\<lambda>_.
     tryS (ok_or (MembershipE NoMembershipTransition) (cc_transition (cluster_control s))) s (\<lambda>t.
     tryS (ensure (started_log_index t = started)
             (MembershipE (MembershipTransitionFenceMismatch (started_log_index t) started)))
       s (\<lambda>_.
     tryS (ensure (mt_kind t = TransitionAdd \<and> mt_node_id t = node)
             (MembershipE MembershipTransitionStateMismatch)) s (\<lambda>_.
     tryS (ok_or (MembershipE (NodeNotAdmitted node))
             (bt_get (cc_nodes (cluster_control s)) node)) s (\<lambda>d.
     tryS (ensure (nd_state d = Joining \<and> overlap_peer_spki_sha256 d = None)
             (MembershipE MembershipTransitionStateMismatch)) s (\<lambda>_.
     if current_peer_spki_sha256 d = new_pin \<and> join_capability_hash d = Some new_capability
     then (Inr (JoiningNodePreparationRefreshed d), s)
     else
     tryS (ensure (\<not> (expected_pin = new_pin \<or> expected_capability = new_capability))
             (DescriptorE (JoiningPreparationUnchanged node))) s (\<lambda>_.
     tryS (ensure (current_peer_spki_sha256 d = expected_pin
                   \<and> join_capability_hash d = Some expected_capability)
             (DescriptorE (JoiningPreparationPairMismatch node))) s (\<lambda>_.
     tryS (ensure_pin_unique (cc_nodes (cluster_control s)) node new_pin) s (\<lambda>_.
     tryS (ensure_join_capability_unique (cc_nodes (cluster_control s)) node new_capability) s (\<lambda>_.
     let d' = d\<lparr>current_peer_spki_sha256 := new_pin,
                join_capability_hash := Some new_capability\<rparr> in
     (Inr (JoiningNodePreparationRefreshed d'), put_node s node d'))))))))))))))))"

section \<open>Peer pin rotation\<close>

definition stage_peer_spki_overlap ::
    "StateMachine \<Rightarrow> u16 \<Rightarrow> NodeId \<Rightarrow> digest \<Rightarrow> digest \<Rightarrow> outcome" where
  "stage_peer_spki_overlap s format_version node expected_current overlap =
     tryS (require_cluster_control s format_version) s (\<lambda>_.
     tryS (validate_pin expected_current) s (\<lambda>_.
     tryS (validate_pin overlap) s (\<lambda>_.
     tryS (ensure (expected_current \<noteq> overlap) (DescriptorE PeerPinsMustDiffer)) s (\<lambda>_.
     tryS (require_node_not_transitioning s node) s (\<lambda>_.
     tryS (ensure_pin_unique (cc_nodes (cluster_control s)) node overlap) s (\<lambda>_.
     tryS (active_descriptor_mut s node) s (\<lambda>d.
     tryS (ensure (current_peer_spki_sha256 d = expected_current)
             (DescriptorE (PeerCurrentPinMismatch node))) s (\<lambda>_.
     (case overlap_peer_spki_sha256 d of
        None \<Rightarrow>
          let d' = d\<lparr>overlap_peer_spki_sha256 := Some overlap\<rparr> in
          (Inr (PeerSpkiChanged d'), put_node s node d')
      | Some current \<Rightarrow>
          if current = overlap then (Inr (PeerSpkiChanged d), s)
          else (Inl (DescriptorE (PeerOverlapAlreadySet node)), s))))))))))"

definition promote_peer_spki_overlap ::
    "StateMachine \<Rightarrow> u16 \<Rightarrow> NodeId \<Rightarrow> digest \<Rightarrow> digest \<Rightarrow> outcome" where
  "promote_peer_spki_overlap s format_version node expected_current expected_overlap =
     tryS (require_cluster_control s format_version) s (\<lambda>_.
     tryS (validate_pin expected_current) s (\<lambda>_.
     tryS (validate_pin expected_overlap) s (\<lambda>_.
     tryS (require_node_not_transitioning s node) s (\<lambda>_.
     tryS (active_descriptor_mut s node) s (\<lambda>d.
     if current_peer_spki_sha256 d = expected_overlap
        \<and> overlap_peer_spki_sha256 d = Some expected_current
     then (Inr (PeerSpkiChanged d), s)
     else if current_peer_spki_sha256 d \<noteq> expected_current
             \<or> overlap_peer_spki_sha256 d \<noteq> Some expected_overlap
     then (Inl (DescriptorE (PeerPinPairMismatch node)), s)
     else
       let d' = d\<lparr>current_peer_spki_sha256 := expected_overlap,
                  overlap_peer_spki_sha256 := Some expected_current\<rparr> in
       (Inr (PeerSpkiChanged d'), put_node s node d'))))))"

definition clear_peer_spki_overlap ::
    "StateMachine \<Rightarrow> u16 \<Rightarrow> NodeId \<Rightarrow> digest \<Rightarrow> digest \<Rightarrow> outcome" where
  "clear_peer_spki_overlap s format_version node expected_current expected_overlap =
     tryS (require_cluster_control s format_version) s (\<lambda>_.
     tryS (validate_pin expected_current) s (\<lambda>_.
     tryS (validate_pin expected_overlap) s (\<lambda>_.
     tryS (require_node_not_transitioning s node) s (\<lambda>_.
     tryS (active_descriptor_mut s node) s (\<lambda>d.
     tryS (ensure (current_peer_spki_sha256 d = expected_current)
             (DescriptorE (PeerCurrentPinMismatch node))) s (\<lambda>_.
     (case overlap_peer_spki_sha256 d of
        Some overlap \<Rightarrow>
          if overlap = expected_overlap
          then let d' = d\<lparr>overlap_peer_spki_sha256 := None\<rparr> in
               (Inr (PeerSpkiChanged d'), put_node s node d')
          else (Inl (DescriptorE (PeerPinPairMismatch node)), s)
      | None \<Rightarrow> (Inr (PeerSpkiChanged d), s))))))))"

section \<open>Write-once settings\<close>

definition bind_jwt_signing_key_fingerprint :: "StateMachine \<Rightarrow> u16 \<Rightarrow> digest \<Rightarrow> outcome" where
  "bind_jwt_signing_key_fingerprint s format_version fingerprint =
     tryS (require_cluster_control s format_version) s (\<lambda>_.
     tryS (ensure (fingerprint \<noteq> 0) (ClusterE InvalidJwtSigningKeyFingerprint)) s (\<lambda>_.
     (case jwt_signing_key_fingerprint (cluster_control s) of
        None \<Rightarrow>
          (Inr (JwtSigningKeyFingerprintBound fingerprint),
           s\<lparr>cluster_control :=
               (cluster_control s)\<lparr>jwt_signing_key_fingerprint := Some fingerprint\<rparr>\<rparr>)
      | Some current \<Rightarrow>
          if current = fingerprint then (Inr (JwtSigningKeyFingerprintBound fingerprint), s)
          else (Inl (ClusterE (JwtSigningKeyFingerprintConflict current fingerprint)), s))))"

definition bind_erasure_code_profile ::
    "StateMachine \<Rightarrow> u16 \<Rightarrow> ErasureCodeProfile \<Rightarrow> outcome" where
  "bind_erasure_code_profile s format_version profile =
     tryS (require_cluster_control s format_version) s (\<lambda>_.
     tryS (ok_or (ClusterE InvalidErasureCodeProfile)
             (checked_add (data_shards profile) (parity_shards profile))) s (\<lambda>total_shards.
     tryS (ensure (\<not> (data_shards profile = 0 \<or> parity_shards profile = 0
                     \<or> stripe_unit profile = 0 \<or> total_shards > 256))
             (ClusterE InvalidErasureCodeProfile)) s (\<lambda>_.
     (case erasure_code_profile (cluster_control s) of
        None \<Rightarrow>
          (Inr (ErasureCodeProfileBound profile),
           s\<lparr>cluster_control :=
               (cluster_control s)\<lparr>erasure_code_profile := Some profile\<rparr>\<rparr>)
      | Some current \<Rightarrow>
          if current = profile then (Inr (ErasureCodeProfileBound profile), s)
          else (Inl (ClusterE (ErasureCodeProfileConflict current profile)), s)))))"

section \<open>Invariant\<close>

definition pins :: "NodeDescriptor \<Rightarrow> digest list" where
  "pins d = current_peer_spki_sha256 d #
     (case overlap_peer_spki_sha256 d of None \<Rightarrow> [] | Some p \<Rightarrow> [p])"

text \<open>No address, pin or join capability is shared by two nodes.\<close>

definition descriptors_apart :: "NodeDescriptor \<Rightarrow> NodeDescriptor \<Rightarrow> bool" where
  "descriptors_apart d e \<longleftrightarrow>
     peer_address d \<noteq> peer_address e \<and>
     (\<forall>p \<in> set (pins d). p \<notin> set (pins e)) \<and>
     (join_capability_hash d = None \<or> join_capability_hash d \<noteq> join_capability_hash e)"

definition nodes_ok :: "UsedNodeIds \<Rightarrow> (NodeId, NodeDescriptor) btree \<Rightarrow> bool" where
  "nodes_ok used nodes \<longleftrightarrow>
     bt_wf nodes \<and>
     (\<forall>(node, d) \<in> set nodes.
        nd_node_id d = node \<and> validate_descriptor d = Inr () \<and> used_contains used node) \<and>
     (\<forall>(i, d) \<in> set nodes. \<forall>(j, e) \<in> set nodes. i \<noteq> j \<longrightarrow> descriptors_apart d e)"

text \<open>What the one transition in progress says of the node it names. A joining node is always
  the one being added, and a removal never takes the last active node.\<close>

definition target_ok :: "nat \<Rightarrow> MembershipTransition \<Rightarrow> NodeDescriptor \<Rightarrow> bool" where
  "target_ok active t d =
     (case mt_kind t of
        TransitionAdd \<Rightarrow> target_weight_millionths t = Some (storage_weight_millionths d)
      | TransitionRemove \<Rightarrow> nd_state d = Active \<and> target_weight_millionths t = None \<and> 2 \<le> active
      | TransitionReweight \<Rightarrow> nd_state d = Active
          \<and> (\<exists>w. target_weight_millionths t = Some w \<and> w \<noteq> 0))"

definition transition_ok :: "ClusterControlState \<Rightarrow> bool" where
  "transition_ok c \<longleftrightarrow>
     (\<forall>(node, d) \<in> set (cc_nodes c). nd_state d = Joining \<longrightarrow>
        (\<exists>t. cc_transition c = Some t \<and> mt_kind t = TransitionAdd \<and> mt_node_id t = node)) \<and>
     (\<forall>t. cc_transition c = Some t \<longrightarrow>
        (\<exists>d. bt_get (cc_nodes c) (mt_node_id t) = Some d \<and> target_ok (active_node_count c) t d))"

definition cluster_ok :: "ClusterControlState \<Rightarrow> bool" where
  "cluster_ok c \<longleftrightarrow>
     length (used_node_ids c) = USED_NODE_ID_WORDS \<and> nodes_ok (used_node_ids c) (cc_nodes c)
     \<and> transition_ok c"

section \<open>Helper lemmas\<close>

lemma descriptors_apart_sym: "descriptors_apart d e \<Longrightarrow> descriptors_apart e d"
  by (auto simp: descriptors_apart_def)

lemma nodes_ok_get:
  assumes "nodes_ok used nodes" "bt_get nodes node = Some d"
  shows "nd_node_id d = node" "validate_descriptor d = Inr ()" "used_contains used node"
  using assms bt_get_mem [OF assms(2)] by (auto simp: nodes_ok_def)

lemma nodes_ok_apart:
  assumes "nodes_ok used nodes" "bt_get nodes i = Some d" "(j, e) \<in> set nodes" "i \<noteq> j"
  shows "descriptors_apart d e"
  using assms bt_get_mem [OF assms(2)] by (fastforce simp: nodes_ok_def)

lemma nodes_ok_put:
  assumes ok: "nodes_ok used nodes" and "nd_node_id d = node" "validate_descriptor d = Inr ()"
    and "used_contains used node"
    and apart: "\<And>j e. (j, e) \<in> set nodes \<Longrightarrow> j \<noteq> node \<Longrightarrow> descriptors_apart d e"
  shows "nodes_ok used (bt_insert node d nodes)"
proof -
  have wf: "bt_wf nodes" using ok by (simp add: nodes_ok_def)
  have "descriptors_apart x y"
    if "(i, x) \<in> set (bt_insert node d nodes)" "(j, y) \<in> set (bt_insert node d nodes)" "i \<noteq> j"
    for i j x y
  proof -
    have x: "i = node \<and> x = d \<or> i \<noteq> node \<and> (i, x) \<in> set nodes"
      using that(1) unfolding bt.entries_ins [OF wf] by auto
    have y: "j = node \<and> y = d \<or> j \<noteq> node \<and> (j, y) \<in> set nodes"
      using that(2) unfolding bt.entries_ins [OF wf] by auto
    from x y that(3) consider "x = d" "(j, y) \<in> set nodes" "j \<noteq> node"
      | "y = d" "(i, x) \<in> set nodes" "i \<noteq> node"
      | "(i, x) \<in> set nodes" "(j, y) \<in> set nodes" by blast
    then show ?thesis
    proof cases
      case 3
      with ok that(3) show ?thesis by (auto simp: nodes_ok_def)
    qed (auto intro: apart descriptors_apart_sym)
  qed
  moreover have "\<forall>(i, x) \<in> set (bt_insert node d nodes).
      nd_node_id x = i \<and> validate_descriptor x = Inr () \<and> used_contains used i"
    using assms(1-4) unfolding bt.entries_ins [OF wf] nodes_ok_def by auto
  ultimately show ?thesis using wf by (auto simp: nodes_ok_def)
qed

lemma nodes_ok_remove: "nodes_ok used nodes \<Longrightarrow> nodes_ok used (bt_remove node nodes)"
  by (fastforce simp: nodes_ok_def)

lemma active_node_count_sum:
  "active_node_count c = sum_list (map (\<lambda>e. if nd_state (snd e) = Active then 1 else 0) (cc_nodes c))"
proof -
  have "length (filter P (map snd m)) = sum_list (map (\<lambda>e. if P (snd e) then 1 else 0) m)"
    for P :: "'b \<Rightarrow> bool" and m :: "('a \<times> 'b) list"
    by (induction m) auto
  then show ?thesis by (simp add: active_node_count_def)
qed

lemma active_node_count_same:
  assumes "bt_wf (cc_nodes c)" "bt_get (cc_nodes c) node = Some d" "nd_state d' = nd_state d"
  shows "active_node_count (c\<lparr>cc_nodes := bt_insert node d' (cc_nodes c)\<rparr>) = active_node_count c"
  using bt.sum_entries_replace [OF assms(1,2), of "\<lambda>e. if nd_state (snd e) = Active then 1 else 0" d']
    assms(3) by (simp add: active_node_count_sum)

lemma active_node_count_frame [simp]:
  "active_node_count (c\<lparr>cc_transition := t\<rparr>) = active_node_count c"
  "active_node_count (c\<lparr>active_placement_log_id := l\<rparr>) = active_node_count c"
  "active_node_count (c\<lparr>used_node_ids := u\<rparr>) = active_node_count c"
  "active_node_count (c\<lparr>jwt_signing_key_fingerprint := j\<rparr>) = active_node_count c"
  "active_node_count (c\<lparr>erasure_code_profile := p\<rparr>) = active_node_count c"
  by (simp_all add: active_node_count_def)

lemma cluster_ok_frame [simp]:
  "cluster_ok (c\<lparr>active_placement_log_id := l\<rparr>) = cluster_ok c"
  "cluster_ok (c\<lparr>jwt_signing_key_fingerprint := j\<rparr>) = cluster_ok c"
  "cluster_ok (c\<lparr>erasure_code_profile := p\<rparr>) = cluster_ok c"
  "cluster_ok (c\<lparr>active_placement_log_id := l, cc_transition := t\<rparr>) =
     cluster_ok (c\<lparr>cc_transition := t\<rparr>)"
  by (simp_all add: cluster_ok_def transition_ok_def)

text \<open>Rewriting one descriptor in place without touching its state or weight.\<close>

lemma cluster_ok_rewrite:
  assumes ok: "cluster_ok c" and d: "bt_get (cc_nodes c) node = Some d"
    and "nd_node_id d' = nd_node_id d" "nd_state d' = nd_state d"
    and "storage_weight_millionths d' = storage_weight_millionths d"
    and "validate_descriptor d' = Inr ()"
    and apart: "\<And>j e. (j, e) \<in> set (cc_nodes c) \<Longrightarrow> j \<noteq> node \<Longrightarrow> descriptors_apart d' e"
  shows "cluster_ok (c\<lparr>cc_nodes := bt_insert node d' (cc_nodes c)\<rparr>)"
proof -
  from ok have nodes: "nodes_ok (used_node_ids c) (cc_nodes c)" and t: "transition_ok c"
    by (simp_all add: cluster_ok_def)
  then have wf: "bt_wf (cc_nodes c)" by (simp add: nodes_ok_def)
  have "nodes_ok (used_node_ids c) (bt_insert node d' (cc_nodes c))"
    by (rule nodes_ok_put [OF nodes _ _ _ apart])
      (use nodes_ok_get [OF nodes d] assms(3,6) in simp_all)
  moreover have "transition_ok (c\<lparr>cc_nodes := bt_insert node d' (cc_nodes c)\<rparr>)"
    using t assms(4,5) d bt_get_mem [OF d]
    unfolding transition_ok_def active_node_count_same [OF wf d assms(4)]
    by (auto simp: bt.entries_ins [OF wf] bt_get_insert target_ok_def
        split: MembershipTransitionKind.splits)
  ultimately show ?thesis using ok by (simp add: cluster_ok_def)
qed

lemma cluster_okE:
  assumes "cluster_ok c"
  obtains "nodes_ok (used_node_ids c) (cc_nodes c)" "bt_wf (cc_nodes c)" "transition_ok c"
    "length (used_node_ids c) = USED_NODE_ID_WORDS"
  using assms by (auto simp: cluster_ok_def nodes_ok_def)

lemma nodes_ok_used_insert:
  assumes "nodes_ok used nodes" "length used = USED_NODE_ID_WORDS" "node \<le> MAX_RAFT_NODE_ID"
  shows "nodes_ok (used_insert used node) nodes"
  using assms used_contains_insert [OF used_insert_in_range [OF assms(2,3)]]
  by (auto simp: nodes_ok_def)

lemma ensure_descriptor_unique_Inr:
  assumes "ensure_descriptor_unique nodes d = Inr u" "overlap_peer_spki_sha256 d = None"
    "(j, e) \<in> set nodes"
  shows "descriptors_apart d e"
  using assms
  by (auto simp: ensure_descriptor_unique_def descriptors_apart_def pins_def split: option.splits)

lemma ensure_pin_unique_Inr:
  "ensure_pin_unique nodes node pin = Inr u \<longleftrightarrow>
     (\<forall>(j, e) \<in> set nodes. j \<noteq> node \<longrightarrow> pin \<notin> set (pins e))"
  by (auto simp: ensure_pin_unique_def list_ex_iff pins_def split: option.splits)

lemma ensure_join_capability_unique_Inr:
  "ensure_join_capability_unique nodes node cap = Inr u \<longleftrightarrow>
     (\<forall>(j, e) \<in> set nodes. j \<noteq> node \<longrightarrow> join_capability_hash e \<noteq> Some cap)"
  by (auto simp: ensure_join_capability_unique_def list_ex_iff)

lemma active_node_count_insert:
  assumes "bt_wf (cc_nodes c)" "bt_get (cc_nodes c) node = None"
  shows "active_node_count (c\<lparr>cc_nodes := bt_insert node d (cc_nodes c)\<rparr>) =
    active_node_count c + (if nd_state d = Active then 1 else 0)"
  using bt.sum_entries_ins_fresh [OF assms] by (simp add: active_node_count_sum)

lemma active_node_count_remove:
  assumes "bt_wf (cc_nodes c)" "bt_get (cc_nodes c) node = Some d"
  shows "active_node_count (c\<lparr>cc_nodes := bt_remove node (cc_nodes c)\<rparr>) +
    (if nd_state d = Active then 1 else 0) = active_node_count c"
  using bt.sum_entries_del [OF assms, of "\<lambda>e. if nd_state (snd e) = Active then 1 else 0"]
  by (simp add: active_node_count_sum)

lemmas keep_cluster = tryS_snd [of "\<lambda>s. cluster_ok (cluster_control s)"]

lemma put_simps [simp]:
  "cluster_control (put_node s node d) =
     (cluster_control s)\<lparr>cc_nodes := bt_insert node d (cc_nodes (cluster_control s))\<rparr>"
  "cluster_control (put_transition s t) = (cluster_control s)\<lparr>cc_transition := t\<rparr>"
  by (simp_all add: put_node_def put_transition_def)

lemma active_descriptor_mut_Inr [simp]:
  "active_descriptor_mut s node = Inr d \<longleftrightarrow>
     validate_node_id node = Inr () \<and> bt_get (cc_nodes (cluster_control s)) node = Some d
     \<and> nd_state d = Active"
  by (auto simp: active_descriptor_mut_def)

section \<open>Every operation keeps the invariant\<close>

lemma cluster_ok_default: "cluster_ok cluster_control_default"
  by (simp add: cluster_ok_def cluster_control_default_def nodes_ok_def transition_ok_def
      used_default_def)

lemma validate_descriptor_Joining:
  "validate_descriptor d = Inr () \<Longrightarrow> nd_state d = Joining \<Longrightarrow>
     overlap_peer_spki_sha256 d = None \<and> join_capability_hash d \<noteq> None"
  by (auto simp: validate_descriptor_def)

lemma validate_descriptor_node_id:
  "validate_descriptor d = Inr () \<Longrightarrow> nd_node_id d \<le> MAX_RAFT_NODE_ID"
  by (auto simp: validate_descriptor_def validate_node_id_def)

lemma cluster_ok_add:
  assumes ok: "cluster_ok c" and no: "cc_transition c = None"
    and d: "validate_descriptor d = Inr ()" "nd_state d = Joining"
    and fresh: "\<not> used_contains (used_node_ids c) (nd_node_id d)"
    and unique: "ensure_descriptor_unique (cc_nodes c) d = Inr ()"
  shows "cluster_ok (c\<lparr>used_node_ids := used_insert (used_node_ids c) (nd_node_id d),
           cc_nodes := bt_insert (nd_node_id d) d (cc_nodes c),
           cc_transition := Some \<lparr>mt_kind = TransitionAdd, mt_node_id = nd_node_id d,
                started_log_index = idx,
                target_weight_millionths = Some (storage_weight_millionths d)\<rparr>\<rparr>)"
proof -
  from ok obtain wf: "bt_wf (cc_nodes c)" and nodes: "nodes_ok (used_node_ids c) (cc_nodes c)"
    and t: "transition_ok c" and len: "length (used_node_ids c) = USED_NODE_ID_WORDS"
    by (rule cluster_okE)
  note le = validate_descriptor_node_id [OF d(1)]
  have "nodes_ok (used_insert (used_node_ids c) (nd_node_id d))
      (bt_insert (nd_node_id d) d (cc_nodes c))"
    using nodes_ok_used_insert [OF nodes len le] ensure_descriptor_unique_Inr [OF unique]
      validate_descriptor_Joining [OF d] d(1)
    by (intro nodes_ok_put) (auto simp: used_contains_insert [OF used_insert_in_range [OF len le]])
  with t no len show ?thesis
    by (auto simp: cluster_ok_def transition_ok_def target_ok_def bt.entries_ins [OF wf] bt_get_insert)
qed

lemma begin_add_node_ok:
  assumes "cluster_ok (cluster_control s)"
  shows "cluster_ok (cluster_control (snd (begin_add_node s v d idx)))"
  using assms unfolding begin_add_node_def
  by (intro keep_cluster)
    (auto simp: Let_def intro!: keep_cluster cluster_ok_add split: option.splits)

lemma cluster_ok_remove_transition:
  assumes "cluster_ok c" "cc_transition c = None" "bt_get (cc_nodes c) node = Some d"
    and "nd_state d = Active" "active_node_count c \<noteq> 1"
  shows "cluster_ok (c\<lparr>cc_transition := Some \<lparr>mt_kind = TransitionRemove, mt_node_id = node,
           started_log_index = idx, target_weight_millionths = None\<rparr>\<rparr>)"
proof -
  have "0 < active_node_count c"
    using assms(3,4) bt_get_mem [OF assms(3)]
    by (force simp: active_node_count_def length_greater_0_conv filter_empty_conv)
  with assms show ?thesis
    by (auto simp: cluster_ok_def transition_ok_def target_ok_def)
qed

lemma begin_remove_node_ok:
  assumes "cluster_ok (cluster_control s)"
  shows "cluster_ok (cluster_control (snd (begin_remove_node s v node idx)))"
  using assms unfolding begin_remove_node_def
  by (intro keep_cluster)
    (auto simp: Let_def intro!: keep_cluster cluster_ok_remove_transition split: option.splits)

lemma cluster_ok_reweight_transition:
  assumes "cluster_ok c" "cc_transition c = None" "bt_get (cc_nodes c) node = Some d"
    and "nd_state d = Active" "w \<noteq> 0"
  shows "cluster_ok (c\<lparr>cc_transition := Some \<lparr>mt_kind = TransitionReweight, mt_node_id = node,
           started_log_index = idx, target_weight_millionths = Some w\<rparr>\<rparr>)"
  using assms by (auto simp: cluster_ok_def transition_ok_def target_ok_def)

lemma begin_reweight_node_ok:
  assumes "cluster_ok (cluster_control s)"
  shows "cluster_ok (cluster_control (snd (begin_reweight_node s v node w idx)))"
  using assms unfolding begin_reweight_node_def
  by (intro keep_cluster)
    (auto simp: Let_def intro!: keep_cluster cluster_ok_reweight_transition split: option.splits)

lemma bind_jwt_ok:
  assumes "cluster_ok (cluster_control s)"
  shows "cluster_ok (cluster_control (snd (bind_jwt_signing_key_fingerprint s v f)))"
  using assms unfolding bind_jwt_signing_key_fingerprint_def
  by (intro keep_cluster) (auto split: option.splits)

lemma bind_erasure_ok:
  assumes "cluster_ok (cluster_control s)"
  shows "cluster_ok (cluster_control (snd (bind_erasure_code_profile s v f)))"
  using assms unfolding bind_erasure_code_profile_def
  by (intro keep_cluster) (auto split: option.splits)

lemma apart_update:
  assumes "descriptors_apart d e" "peer_address d' = peer_address d"
    "set (pins d') \<subseteq> insert p (set (pins d))" "p \<notin> set (pins e)"
    "join_capability_hash d' = None \<or> join_capability_hash d' = join_capability_hash d
     \<or> join_capability_hash d' \<noteq> join_capability_hash e"
  shows "descriptors_apart d' e"
  using assms by (auto simp: descriptors_apart_def)

lemma cluster_ok_get:
  assumes "cluster_ok c" "bt_get (cc_nodes c) node = Some d"
  shows "nd_node_id d = node" "validate_descriptor d = Inr ()"
    "used_contains (used_node_ids c) node"
    "\<And>j e. (j, e) \<in> set (cc_nodes c) \<Longrightarrow> j \<noteq> node \<Longrightarrow> descriptors_apart d e"
  using assms nodes_ok_get [of "used_node_ids c" "cc_nodes c" node d]
    nodes_ok_apart [of "used_node_ids c" "cc_nodes c" node d]
  by (auto simp: cluster_ok_def)

lemma cluster_ok_stage:
  assumes ok: "cluster_ok c" and d: "bt_get (cc_nodes c) node = Some d" "nd_state d = Active"
    and "validate_pin p = Inr ()" "p \<noteq> current_peer_spki_sha256 d"
    and u: "ensure_pin_unique (cc_nodes c) node p = Inr ()"
  shows "cluster_ok (c\<lparr>cc_nodes :=
      bt_insert node (d\<lparr>overlap_peer_spki_sha256 := Some p\<rparr>) (cc_nodes c)\<rparr>)"
proof (rule cluster_ok_rewrite [OF ok d(1)])
  show "validate_descriptor (d\<lparr>overlap_peer_spki_sha256 := Some p\<rparr>) = Inr ()"
    using cluster_ok_get(2) [OF ok d(1)] assms(3-5) by (simp add: validate_descriptor_def)
  show "descriptors_apart (d\<lparr>overlap_peer_spki_sha256 := Some p\<rparr>) e"
    if "(j, e) \<in> set (cc_nodes c)" "j \<noteq> node" for j e
    by (rule apart_update [OF cluster_ok_get(4) [OF ok d(1) that], of _ p])
      (use u that in \<open>auto simp: ensure_pin_unique_Inr pins_def split: option.split\<close>)
qed simp_all

lemma stage_peer_spki_overlap_ok:
  assumes "cluster_ok (cluster_control s)"
  shows "cluster_ok (cluster_control (snd (stage_peer_spki_overlap s v node a b)))"
  using assms unfolding stage_peer_spki_overlap_def
  by (intro keep_cluster) (auto simp: Let_def intro!: cluster_ok_stage split: option.splits)

lemma cluster_ok_promote:
  assumes ok: "cluster_ok c" and d: "bt_get (cc_nodes c) node = Some d"
    and "overlap_peer_spki_sha256 d = Some p"
  shows "cluster_ok (c\<lparr>cc_nodes :=
      bt_insert node (d\<lparr>current_peer_spki_sha256 := p,
        overlap_peer_spki_sha256 := Some (current_peer_spki_sha256 d)\<rparr>) (cc_nodes c)\<rparr>)"
    (is "cluster_ok (c\<lparr>cc_nodes := bt_insert node ?d (cc_nodes c)\<rparr>)")
proof (rule cluster_ok_rewrite [OF ok d])
  show "validate_descriptor ?d = Inr ()"
    using cluster_ok_get(2) [OF ok d] assms(3)
    by (auto simp: validate_descriptor_def split: NodeState.splits)
  show "descriptors_apart ?d e" if "(j, e) \<in> set (cc_nodes c)" "j \<noteq> node" for j e
    using cluster_ok_get(4) [OF ok d that] assms(3) by (auto simp: descriptors_apart_def pins_def)
qed simp_all

lemma promote_peer_spki_overlap_ok:
  assumes "cluster_ok (cluster_control s)"
  shows "cluster_ok (cluster_control (snd (promote_peer_spki_overlap s v node a b)))"
  using assms unfolding promote_peer_spki_overlap_def
  by (intro keep_cluster) (auto simp: Let_def intro!: cluster_ok_promote)

lemma cluster_ok_clear:
  assumes ok: "cluster_ok c" and d: "bt_get (cc_nodes c) node = Some d"
  shows "cluster_ok (c\<lparr>cc_nodes :=
      bt_insert node (d\<lparr>overlap_peer_spki_sha256 := None\<rparr>) (cc_nodes c)\<rparr>)"
    (is "cluster_ok (c\<lparr>cc_nodes := bt_insert node ?d (cc_nodes c)\<rparr>)")
proof (rule cluster_ok_rewrite [OF ok d])
  show "validate_descriptor ?d = Inr ()"
    using cluster_ok_get(2) [OF ok d]
    by (auto simp: validate_descriptor_def split: NodeState.splits)
  show "descriptors_apart ?d e" if "(j, e) \<in> set (cc_nodes c)" "j \<noteq> node" for j e
    using cluster_ok_get(4) [OF ok d that] by (auto simp: descriptors_apart_def pins_def)
qed simp_all

lemma clear_peer_spki_overlap_ok:
  assumes "cluster_ok (cluster_control s)"
  shows "cluster_ok (cluster_control (snd (clear_peer_spki_overlap s v node a b)))"
  using assms unfolding clear_peer_spki_overlap_def
  by (intro keep_cluster) (auto simp: Let_def intro!: cluster_ok_clear split: option.splits)

lemma cluster_ok_refresh:
  assumes ok: "cluster_ok c" and d: "bt_get (cc_nodes c) node = Some d"
    and "nd_state d = Joining" "validate_pin p = Inr ()" "validate_join_capability j = Inr ()"
    and u: "ensure_pin_unique (cc_nodes c) node p = Inr ()"
    and w: "ensure_join_capability_unique (cc_nodes c) node j = Inr ()"
  shows "cluster_ok (c\<lparr>cc_nodes :=
      bt_insert node (d\<lparr>current_peer_spki_sha256 := p, join_capability_hash := Some j\<rparr>)
        (cc_nodes c)\<rparr>)"
    (is "cluster_ok (c\<lparr>cc_nodes := bt_insert node ?d (cc_nodes c)\<rparr>)")
proof (rule cluster_ok_rewrite [OF ok d])
  show "validate_descriptor ?d = Inr ()"
    using cluster_ok_get(2) [OF ok d] assms(3-5)
    by (auto simp: validate_descriptor_def)
  show "descriptors_apart ?d e" if "(j, e) \<in> set (cc_nodes c)" "j \<noteq> node" for j e
    by (rule apart_update [OF cluster_ok_get(4) [OF ok d that], of _ p])
      (use u w that in \<open>auto simp: ensure_pin_unique_Inr ensure_join_capability_unique_Inr pins_def\<close>)
qed simp_all

lemma refresh_joining_node_preparation_ok:
  assumes "cluster_ok (cluster_control s)"
  shows "cluster_ok (cluster_control (snd
      (refresh_joining_node_preparation s v node idx p1 j1 p2 j2)))"
  using assms unfolding refresh_joining_node_preparation_def
  by (intro keep_cluster) (auto simp: Let_def intro!: keep_cluster cluster_ok_refresh)

section \<open>Completing a transition\<close>

lemma validate_descriptor_activate:
  "validate_descriptor d = Inr () \<Longrightarrow>
     validate_descriptor (d\<lparr>nd_state := Active, join_capability_hash := None\<rparr>) = Inr ()"
  by (auto simp: validate_descriptor_def split: option.splits)

lemma validate_descriptor_reweight:
  "validate_descriptor d = Inr () \<Longrightarrow> w \<noteq> 0 \<Longrightarrow>
     validate_descriptor (d\<lparr>storage_weight_millionths := w\<rparr>) = Inr ()"
  by (auto simp: validate_descriptor_def split: option.splits NodeState.splits)

lemma nodes_ok_replace:
  assumes ok: "cluster_ok c" and d: "bt_get (cc_nodes c) node = Some d"
    and "nd_node_id d' = nd_node_id d" "validate_descriptor d' = Inr ()"
    and "peer_address d' = peer_address d" "pins d' = pins d"
    and "join_capability_hash d' = None \<or> join_capability_hash d' = join_capability_hash d"
  shows "nodes_ok (used_node_ids c) (bt_insert node d' (cc_nodes c))"
proof (rule nodes_ok_put)
  show "descriptors_apart d' e" if "(j, e) \<in> set (cc_nodes c)" "j \<noteq> node" for j e
    using cluster_ok_get(4) [OF ok d that] assms(5-7) by (auto simp: descriptors_apart_def)
qed (use ok assms(3,4) cluster_ok_get(1,3) [OF ok d] in \<open>simp_all add: cluster_ok_def\<close>)

text \<open>A transition in progress always finds its node in the state it left it in: completing it
  can only fail on a joining node whose capability range misses the active versions.\<close>

lemma transition_step_cases:
  assumes ok: "cluster_ok (cluster_control s)"
    and t: "cc_transition (cluster_control s) = Some t"
  obtains (lacks) d where "mt_kind t = TransitionAdd" "nd_state d = Joining"
      "bt_get (cc_nodes (cluster_control s)) (mt_node_id t) = Some d"
      "transition_step s t = Inl (MembershipE ActiveNodeLacksCapability)"
  | (activate) d where "mt_kind t = TransitionAdd" "nd_state d = Joining"
      "bt_get (cc_nodes (cluster_control s)) (mt_node_id t) = Some d"
      "target_weight_millionths t = Some (storage_weight_millionths d)"
      "transition_step s t = Inr (False, True, put_node s (mt_node_id t)
         (d\<lparr>nd_state := Active, join_capability_hash := None\<rparr>))"
  | (activated) d where "mt_kind t = TransitionAdd" "nd_state d = Active"
      "bt_get (cc_nodes (cluster_control s)) (mt_node_id t) = Some d"
      "transition_step s t = Inr (True, False, s)"
  | (removed) d where "mt_kind t = TransitionRemove" "nd_state d = Active"
      "bt_get (cc_nodes (cluster_control s)) (mt_node_id t) = Some d"
      "2 \<le> active_node_count (cluster_control s)"
      "transition_step s t = Inr (True, True, s\<lparr>cluster_control := (cluster_control s)
         \<lparr>cc_nodes := bt_remove (mt_node_id t) (cc_nodes (cluster_control s))\<rparr>\<rparr>)"
  | (reweighted) d w where "mt_kind t = TransitionReweight" "nd_state d = Active" "w \<noteq> 0"
      "target_weight_millionths t = Some w"
      "bt_get (cc_nodes (cluster_control s)) (mt_node_id t) = Some d"
      "transition_step s t = Inr (True, True, put_node s (mt_node_id t)
         (d\<lparr>storage_weight_millionths := w\<rparr>))"
proof -
  let ?c = "cluster_control s"
  from ok t obtain d where d: "bt_get (cc_nodes ?c) (mt_node_id t) = Some d"
    and target: "target_ok (active_node_count ?c) t d"
    by (auto simp: cluster_ok_def transition_ok_def)
  show ?thesis
  proof (cases "mt_kind t")
    case TransitionAdd
    show ?thesis
    proof (cases "nd_state d")
      case Joining
      with TransitionAdd d target show ?thesis
        using lacks [of d] activate [of d]
        by (cases "range_contains (supported_protocol d) (active_protocol_version ?c)
                   \<and> range_contains (supported_storage_format d) (active_storage_format ?c)")
          (simp_all add: transition_step_def Let_def target_ok_def)
    next
      case Active
      with TransitionAdd d target show ?thesis
        by (intro activated) (simp_all add: transition_step_def Let_def target_ok_def)
    qed
  next
    case TransitionRemove
    with d target show ?thesis
      by (intro removed) (simp_all add: transition_step_def Let_def target_ok_def)
  next
    case TransitionReweight
    with d target show ?thesis
      by (auto simp: transition_step_def Let_def target_ok_def intro!: reweighted)
  qed
qed

lemma cluster_ok_finish:
  assumes "nodes_ok (used_node_ids c) (cc_nodes c)"
    and "length (used_node_ids c) = USED_NODE_ID_WORDS"
    and "\<forall>e \<in> set (cc_nodes c). nd_state (snd e) = Active"
  shows "cluster_ok (c\<lparr>cc_transition := None\<rparr>)"
  using assms by (auto simp: cluster_ok_def transition_ok_def)

text \<open>While a transition is in progress, every node it does not name is active.\<close>

lemma others_active:
  assumes "cluster_ok c" "cc_transition c = Some t" "(j, e) \<in> set (cc_nodes c)"
    and "j \<noteq> mt_node_id t \<or> mt_kind t \<noteq> TransitionAdd"
  shows "nd_state e = Active"
  using assms by (cases "nd_state e") (auto simp: cluster_ok_def transition_ok_def)

lemma step_result_ok:
  assumes ok: "cluster_ok (cluster_control s)"
    and t: "cc_transition (cluster_control s) = Some t"
    and r: "transition_step s t = Inr r"
  shows "cluster_ok (cluster_control (snd (step_result started log t r)))"
  using ok t
proof (cases rule: transition_step_cases)
  let ?c = "cluster_control s" and ?n = "mt_node_id t"
  have wf: "bt_wf (cc_nodes ?c)" and len: "length (used_node_ids ?c) = USED_NODE_ID_WORDS"
    using ok by (auto elim: cluster_okE)
  note others = others_active [OF ok t]
  {
    case (activate d)
    let ?d = "d\<lparr>nd_state := Active, join_capability_hash := None\<rparr>"
    have "nodes_ok (used_node_ids ?c) (bt_insert ?n ?d (cc_nodes ?c))"
      using cluster_ok_get(2) [OF ok activate(3)]
      by (intro nodes_ok_replace [OF ok activate(3)])
        (simp_all add: validate_descriptor_activate pins_def)
    moreover have "transition_ok (?c\<lparr>cc_nodes := bt_insert ?n ?d (cc_nodes ?c)\<rparr>)"
      using others activate(1,4) t
      by (auto simp: transition_ok_def bt.entries_ins [OF wf] bt_get_insert target_ok_def)
    ultimately show ?thesis
      using activate(5) r len by (simp add: step_result_def cluster_ok_def [of "_\<lparr>cc_nodes := _\<rparr>"])
  next
    case (activated d)
    have "\<forall>e \<in> set (cc_nodes ?c). nd_state (snd e) = Active"
      using others activated(2,3) bt_get_iff [OF wf] by fastforce
    with activated(4) r ok len show ?thesis
      by (simp add: step_result_def cluster_ok_finish cluster_ok_def [of ?c])
  next
    case (removed d)
    have "cluster_ok (?c\<lparr>cc_nodes := bt_remove ?n (cc_nodes ?c), cc_transition := None\<rparr>)"
      using cluster_ok_finish [of "?c\<lparr>cc_nodes := bt_remove ?n (cc_nodes ?c)\<rparr>"] others removed(1)
        ok len by (fastforce simp: cluster_ok_def [of ?c] nodes_ok_remove)
    with removed(5) r show ?thesis by (simp add: step_result_def)
  next
    case (reweighted d w)
    let ?d = "d\<lparr>storage_weight_millionths := w\<rparr>"
    have "nodes_ok (used_node_ids ?c) (bt_insert ?n ?d (cc_nodes ?c))"
      using cluster_ok_get(2) [OF ok reweighted(5)] reweighted(3)
      by (intro nodes_ok_replace [OF ok reweighted(5)])
        (simp_all add: validate_descriptor_reweight pins_def)
    moreover have "\<forall>e \<in> set (bt_insert ?n ?d (cc_nodes ?c)). nd_state (snd e) = Active"
      using others reweighted(1,2) by (fastforce simp: bt.entries_ins [OF wf])
    ultimately have "cluster_ok (?c\<lparr>cc_nodes := bt_insert ?n ?d (cc_nodes ?c), cc_transition := None\<rparr>)"
      using cluster_ok_finish [of "?c\<lparr>cc_nodes := bt_insert ?n ?d (cc_nodes ?c)\<rparr>"] len by simp
    with reweighted(6) r show ?thesis by (simp add: step_result_def)
  }
qed (use r in simp)

lemma complete_membership_transition_ok:
  assumes "cluster_ok (cluster_control s)"
  shows "cluster_ok (cluster_control (snd (complete_membership_transition s v idx log)))"
  using assms unfolding complete_membership_transition_def
  by (intro keep_cluster) (auto intro: step_result_ok)

section \<open>What the operations leave alone and what only grows\<close>

definition cluster_only :: "StateMachine \<Rightarrow> StateMachine \<Rightarrow> bool" where
  "cluster_only s s' \<longleftrightarrow> s' = s\<lparr>cluster_control := cluster_control s'\<rparr>"

text \<open>
  Admitted identities are never forgotten, a retired identity never returns, the signing key and
  the erasure profile are write-once, and a cluster with an active node keeps one.
\<close>

definition cluster_grows :: "ClusterControlState \<Rightarrow> ClusterControlState \<Rightarrow> bool" where
  "cluster_grows c c' \<longleftrightarrow>
     (\<forall>n. used_contains (used_node_ids c) n \<longrightarrow> used_contains (used_node_ids c') n) \<and>
     (\<forall>n. used_contains (used_node_ids c) n \<and> bt_get (cc_nodes c) n = None \<longrightarrow>
        bt_get (cc_nodes c') n = None) \<and>
     (\<forall>f. jwt_signing_key_fingerprint c = Some f \<longrightarrow> jwt_signing_key_fingerprint c' = Some f) \<and>
     (\<forall>p. erasure_code_profile c = Some p \<longrightarrow> erasure_code_profile c' = Some p) \<and>
     (0 < active_node_count c \<longrightarrow> 0 < active_node_count c')"

lemma cluster_grows_refl [simp]: "cluster_grows c c"
  by (simp add: cluster_grows_def)

lemma cluster_grows_trans: "cluster_grows a b \<Longrightarrow> cluster_grows b c \<Longrightarrow> cluster_grows a c"
  by (simp add: cluster_grows_def)

lemma cluster_only_simps [simp]:
  "cluster_only s s"
  "cluster_only s (s\<lparr>cluster_control := c\<rparr>)"
  "cluster_only s (put_node s node d)"
  "cluster_only s (put_transition s t)"
  "cluster_only s (put_transition (put_node s node d) t)"
  "cluster_only s (put_transition (s\<lparr>cluster_control := c\<rparr>) t)"
  by (simp_all add: cluster_only_def put_node_def put_transition_def)

lemma keep_only:
  "cluster_only s0 s \<Longrightarrow> (\<And>x. m = Inr x \<Longrightarrow> cluster_only s0 (snd (k x))) \<Longrightarrow>
   cluster_only s0 (snd (tryS m s k))"
  by (rule tryS_snd)

lemma keep_grows:
  "cluster_grows c (cluster_control s) \<Longrightarrow>
   (\<And>x. m = Inr x \<Longrightarrow> cluster_grows c (cluster_control (snd (k x)))) \<Longrightarrow>
   cluster_grows c (cluster_control (snd (tryS m s k)))"
  by (cases m) simp_all

lemma cluster_grows_put:
  assumes "cluster_ok c" "bt_get (cc_nodes c) node = Some d"
    and "nd_state d' = nd_state d \<or> nd_state d' = Active"
  shows "cluster_grows c (c\<lparr>cc_nodes := bt_insert node d' (cc_nodes c)\<rparr>)"
proof -
  have wf: "bt_wf (cc_nodes c)" using assms(1) by (rule cluster_okE)
  have "0 < active_node_count (c\<lparr>cc_nodes := bt_insert node d' (cc_nodes c)\<rparr>)"
    if "0 < active_node_count c"
  proof (cases "nd_state d' = Active")
    case True
    then show ?thesis using bt_get_insert [of node d' "cc_nodes c"]
      by (force simp: active_node_count_def length_greater_0_conv filter_empty_conv bt.entries_ins [OF wf])
  qed (use assms that active_node_count_same [OF wf assms(2)] in simp)
  with assms(2) show ?thesis by (auto simp: cluster_grows_def bt_get_insert)
qed

lemma cluster_grows_frame [simp]:
  "cluster_grows c (c'\<lparr>cc_transition := t\<rparr>) = cluster_grows c c'"
  "cluster_grows c (c'\<lparr>active_placement_log_id := l\<rparr>) = cluster_grows c c'"
  by (simp_all add: cluster_grows_def)

lemma cluster_grows_add:
  assumes ok: "cluster_ok c" and d: "validate_descriptor d = Inr ()"
    and fresh: "\<not> used_contains (used_node_ids c) (nd_node_id d)"
  shows "cluster_grows c (c\<lparr>used_node_ids := used_insert (used_node_ids c) (nd_node_id d),
           cc_nodes := bt_insert (nd_node_id d) d (cc_nodes c)\<rparr>)"
proof -
  from ok obtain wf: "bt_wf (cc_nodes c)" and nodes: "nodes_ok (used_node_ids c) (cc_nodes c)"
    and len: "length (used_node_ids c) = USED_NODE_ID_WORDS" by (rule cluster_okE)
  note used = used_contains_insert [OF used_insert_in_range [OF len validate_descriptor_node_id [OF d]]]
  have "bt_get (cc_nodes c) (nd_node_id d) = None"
    using nodes_ok_get(3) [OF nodes] fresh by (cases "bt_get (cc_nodes c) (nd_node_id d)") auto
  from active_node_count_insert [OF wf this, of d] fresh show ?thesis
    by (auto simp: cluster_grows_def used bt_get_insert active_node_count_def)
qed

lemma cluster_grows_step:
  assumes ok: "cluster_ok (cluster_control s)"
    and t: "cc_transition (cluster_control s) = Some t"
    and r: "transition_step s t = Inr r"
  shows "cluster_grows (cluster_control s) (cluster_control (snd (step_result started log t r)))"
  using ok t
proof (cases rule: transition_step_cases)
  case (activate d)
  with r ok show ?thesis by (auto simp: step_result_def intro!: cluster_grows_put)
next
  case (removed d)
  let ?c = "cluster_control s"
  have "bt_wf (cc_nodes ?c)" using ok by (rule cluster_okE)
  from active_node_count_remove [OF this removed(3)] removed(2,4)
  have "0 < active_node_count (?c\<lparr>cc_nodes := bt_remove (mt_node_id t) (cc_nodes ?c)\<rparr>)" by simp
  with removed(5) r show ?thesis
    by (auto simp: step_result_def cluster_grows_def bt_get_remove)
next
  case (reweighted d w)
  with r ok show ?thesis by (auto simp: step_result_def intro!: cluster_grows_put)
qed (use r in \<open>auto simp: step_result_def\<close>)

lemma cluster_op_only:
  shows "cluster_only s (snd (begin_add_node s v d idx))"
    and "cluster_only s (snd (begin_remove_node s v node idx))"
    and "cluster_only s (snd (begin_reweight_node s v node w idx))"
    and "cluster_only s (snd (refresh_joining_node_preparation s v node idx p1 j1 p2 j2))"
    and "cluster_only s (snd (stage_peer_spki_overlap s v node a b))"
    and "cluster_only s (snd (promote_peer_spki_overlap s v node a b))"
    and "cluster_only s (snd (clear_peer_spki_overlap s v node a b))"
    and "cluster_only s (snd (bind_jwt_signing_key_fingerprint s v f))"
    and "cluster_only s (snd (bind_erasure_code_profile s v p))"
  unfolding begin_add_node_def begin_remove_node_def begin_reweight_node_def
    refresh_joining_node_preparation_def stage_peer_spki_overlap_def
    promote_peer_spki_overlap_def clear_peer_spki_overlap_def
    bind_jwt_signing_key_fingerprint_def bind_erasure_code_profile_def
  by (intro keep_only; auto simp: Let_def intro!: keep_only split: option.splits)+

lemma complete_membership_transition_only:
  "cluster_only s (snd (complete_membership_transition s v idx log))"
proof -
  have "cluster_only s (snd (step_result idx log t (f, g, s1)))" if only: "cluster_only s s1" for t f g s1
  proof -
    obtain c where "s1 = s\<lparr>cluster_control := c\<rparr>" using only unfolding cluster_only_def by blast
    then show ?thesis by (simp add: step_result_def Let_def)
  qed
  moreover have "cluster_only s s1" if "transition_step s t = Inr (f, g, s1)" for t f g s1
    using that
    by (auto simp: transition_step_def Let_def split: MembershipTransitionKind.splits NodeState.splits)
      (use NodeState.exhaust in blast)
  ultimately show ?thesis
    unfolding complete_membership_transition_def
    by (intro keep_only) (auto simp: split_paired_all)
qed

lemma begin_add_node_grows:
  assumes "cluster_ok (cluster_control s)"
  shows "cluster_grows (cluster_control s) (cluster_control (snd (begin_add_node s v d idx)))"
  using assms unfolding begin_add_node_def
  by (intro keep_grows) (auto simp: Let_def intro!: keep_grows cluster_grows_add
      cluster_grows_put cluster_grows_step split: option.splits)

lemma begin_remove_node_grows:
  assumes "cluster_ok (cluster_control s)"
  shows "cluster_grows (cluster_control s) (cluster_control (snd (begin_remove_node s v node idx)))"
  using assms unfolding begin_remove_node_def
  by (intro keep_grows) (auto simp: Let_def intro!: keep_grows cluster_grows_add
      cluster_grows_put cluster_grows_step split: option.splits)

lemma begin_reweight_node_grows:
  assumes "cluster_ok (cluster_control s)"
  shows "cluster_grows (cluster_control s) (cluster_control (snd (begin_reweight_node s v node w idx)))"
  using assms unfolding begin_reweight_node_def
  by (intro keep_grows) (auto simp: Let_def intro!: keep_grows cluster_grows_add
      cluster_grows_put cluster_grows_step split: option.splits)

lemma refresh_joining_node_preparation_grows:
  assumes "cluster_ok (cluster_control s)"
  shows "cluster_grows (cluster_control s) (cluster_control (snd (refresh_joining_node_preparation s v node idx p1 j1 p2 j2)))"
  using assms unfolding refresh_joining_node_preparation_def
  by (intro keep_grows) (auto simp: Let_def intro!: keep_grows cluster_grows_add
      cluster_grows_put cluster_grows_step split: option.splits)

lemma stage_peer_spki_overlap_grows:
  assumes "cluster_ok (cluster_control s)"
  shows "cluster_grows (cluster_control s) (cluster_control (snd (stage_peer_spki_overlap s v node a b)))"
  using assms unfolding stage_peer_spki_overlap_def
  by (intro keep_grows) (auto simp: Let_def intro!: keep_grows cluster_grows_add
      cluster_grows_put cluster_grows_step split: option.splits)

lemma promote_peer_spki_overlap_grows:
  assumes "cluster_ok (cluster_control s)"
  shows "cluster_grows (cluster_control s) (cluster_control (snd (promote_peer_spki_overlap s v node a b)))"
  using assms unfolding promote_peer_spki_overlap_def
  by (intro keep_grows) (auto simp: Let_def intro!: keep_grows cluster_grows_add
      cluster_grows_put cluster_grows_step split: option.splits)

lemma clear_peer_spki_overlap_grows:
  assumes "cluster_ok (cluster_control s)"
  shows "cluster_grows (cluster_control s) (cluster_control (snd (clear_peer_spki_overlap s v node a b)))"
  using assms unfolding clear_peer_spki_overlap_def
  by (intro keep_grows) (auto simp: Let_def intro!: keep_grows cluster_grows_add
      cluster_grows_put cluster_grows_step split: option.splits)

lemma complete_membership_transition_grows:
  assumes "cluster_ok (cluster_control s)"
  shows "cluster_grows (cluster_control s) (cluster_control (snd (complete_membership_transition s v idx log)))"
  using assms unfolding complete_membership_transition_def
  by (intro keep_grows) (auto simp: Let_def intro!: keep_grows cluster_grows_add
      cluster_grows_put cluster_grows_step split: option.splits)

lemma cluster_bind_grows:
  "cluster_grows (cluster_control s) (cluster_control (snd (bind_jwt_signing_key_fingerprint s v f)))"
  "cluster_grows (cluster_control s) (cluster_control (snd (bind_erasure_code_profile s v p)))"
  unfolding bind_jwt_signing_key_fingerprint_def bind_erasure_code_profile_def
  by (intro keep_grows; auto simp: cluster_grows_def split: option.splits)+

end
