(* ===== verification/Decision_Machine.thy ===== *)
theory Decision_Machine
  imports Cluster_Control
begin

text \<open>
  The replicated machine around the decision state: the dispatch on commands
  (\<^verbatim>\<open>StateMachine::apply\<close>), and from \<^verbatim>\<open>keldra-consensus/src/raft.rs\<close> the checks of a
  command against the OpenRaft membership, the application of one log entry, and the check of a
  whole machine state that a restart and a snapshot run.

  OpenRaft is not part of the sources. A membership is known only by what its accessors return,
  the fields of \<open>Membership\<close>; \<open>membership_wf\<close> is what OpenRaft documents of them.
\<close>

section \<open>OpenRaft data\<close>

record Membership =
  mb_voter_ids :: "u64 list"
  mb_nodes :: "(u64 \<times> string) list"
  mb_get_node :: "u64 \<Rightarrow> string option"

record StoredMembership =
  sm_log_id :: "LogId option"
  sm_membership :: Membership

definition membership_wf :: "Membership \<Rightarrow> bool" where
  "membership_wf m \<longleftrightarrow>
     (\<forall>n. mb_get_node m n = map_of (mb_nodes m) n) \<and>
     (\<forall>v \<in> set (mb_voter_ids m). v \<in> fst ` set (mb_nodes m))"

datatype EntryPayload =
    Blank
  | MembershipChange Membership
  | Normal Command

record RaftEntry =
  entry_log_id :: LogId
  entry_payload :: EntryPayload

datatype DecisionApplyResult =
    Applied ApplyResult
  | Rejected ApplyError
  | Noop

section \<open>Dispatch\<close>

definition apply_command :: "Bincode \<Rightarrow> StateMachine \<Rightarrow> LogId \<Rightarrow> Command \<Rightarrow> outcome" where
  "apply_command B s committed_log_id command =
     (let i = log_index committed_log_id in
      (case command of
         NominateExecutor executor \<Rightarrow> nominate_executor s executor i
       | BeginBatchCommand batch \<Rightarrow> begin_batch B s i batch
       | CommitPreparedBatchCommand batch \<Rightarrow> commit_prepared_batch B s i batch
       | AbortPreparedBatchCommand batch \<Rightarrow> abort_prepared_batch s batch
       | FinalizedThrough executor nomination through \<Rightarrow>
           advance_finalization s executor nomination through
       | InitializeCluster cluster \<Rightarrow> initialize_cluster s cluster
       | CompleteSystemBootstrap executor nomination version \<Rightarrow>
           complete_system_bootstrap s executor nomination version i
       | BeginAddNode v d \<Rightarrow> begin_add_node s v d i
       | BeginRemoveNode v node \<Rightarrow> begin_remove_node s v node i
       | BeginReweightNode v node weight \<Rightarrow> begin_reweight_node s v node weight i
       | CompleteMembershipTransition v started \<Rightarrow>
           complete_membership_transition s v started committed_log_id
       | StagePeerSpkiOverlap v node current overlap \<Rightarrow>
           stage_peer_spki_overlap s v node current overlap
       | PromotePeerSpkiOverlap v node current overlap \<Rightarrow>
           promote_peer_spki_overlap s v node current overlap
       | ClearPeerSpkiOverlap v node current overlap \<Rightarrow>
           clear_peer_spki_overlap s v node current overlap
       | BindJwtSigningKeyFingerprint v fingerprint \<Rightarrow>
           bind_jwt_signing_key_fingerprint s v fingerprint
       | BindErasureCodeProfile v profile \<Rightarrow> bind_erasure_code_profile s v profile
       | RefreshJoiningNodePreparation v node started pin capability new_pin new_capability \<Rightarrow>
           refresh_joining_node_preparation s v node started pin capability new_pin
             new_capability))"

section \<open>Commands against the membership\<close>

definition is_active :: "StateMachine \<Rightarrow> NodeId \<Rightarrow> bool" where
  "is_active s node \<longleftrightarrow>
     (case bt_get (cc_nodes (cluster_control s)) node of
        None \<Rightarrow> False | Some d \<Rightarrow> nd_state d = Active)"

definition validate_voters :: "Membership \<Rightarrow> StateMachine \<Rightarrow> nat \<Rightarrow> ApplyError + unit" where
  "validate_voters m s expected =
     (let voters = bs_of_list (mb_voter_ids m) in
      bindE (ensure (length voters = expected)
               (MembershipE (VoterTargetMismatch (of_nat expected) (of_nat (length voters))))) (\<lambda>_.
      forE (\<lambda>voter. ensure (is_active s voter) (MembershipE (VoterNotActive voter))) voters))"

definition validate_fixed_voters :: "Membership \<Rightarrow> StateMachine \<Rightarrow> ApplyError + unit" where
  "validate_fixed_voters m s = validate_voters m s (voter_target (cluster_control s))"

definition command_executor :: "Command \<Rightarrow> NodeId option" where
  "command_executor command =
     (case command of
        NominateExecutor executor \<Rightarrow> Some executor
      | BeginBatchCommand batch \<Rightarrow> Some (bb_executor batch)
      | CommitPreparedBatchCommand batch \<Rightarrow> Some (pr_executor batch)
      | AbortPreparedBatchCommand batch \<Rightarrow> Some (pr_executor batch)
      | FinalizedThrough executor _ _ \<Rightarrow> Some executor
      | CompleteSystemBootstrap executor _ _ \<Rightarrow> Some executor
      | _ \<Rightarrow> None)"

definition validate_added_node ::
    "Membership \<Rightarrow> StateMachine \<Rightarrow> NodeDescriptor \<Rightarrow> ApplyError + unit" where
  "validate_added_node m s d =
     forE (\<lambda>(node, addr).
        if node = nd_node_id d
        then ensure (addr = peer_address d) (MembershipE (RaftMemberAddressMismatch node))
        else ensure (bt_contains_key (cc_nodes (cluster_control s)) node)
               (MembershipE (RaftMemberDescriptorMissing node)))
       (mb_nodes m)"

definition validate_executor_member ::
    "Membership \<Rightarrow> StateMachine \<Rightarrow> NodeId \<Rightarrow> ApplyError + unit" where
  "validate_executor_member m s executor =
     bindE (ensure (mb_get_node m executor \<noteq> None)
              (MembershipE (ExecutorNotCurrentMember executor))) (\<lambda>_.
     ensure (cc_nodes (cluster_control s) = [] \<or> is_active s executor)
       (MembershipE (ExecutorNotActiveMember executor)))"

definition validate_completion ::
    "Membership \<Rightarrow> StateMachine \<Rightarrow> u64 \<Rightarrow> ApplyError + unit" where
  "validate_completion m s started =
     bindE (ok_or (MembershipE NoMembershipTransition) (cc_transition (cluster_control s))) (\<lambda>t.
     bindE (ensure (started_log_index t = started)
              (MembershipE (MembershipTransitionFenceMismatch (started_log_index t) started))) (\<lambda>_.
     let node = mt_node_id t;
         is_member = ensure (mb_get_node m node \<noteq> None)
           (MembershipE (TransitionNodeNotCurrentMember node)) in
     (case mt_kind t of
        TransitionAdd \<Rightarrow>
          bindE is_member (\<lambda>_.
          bindE (ok_or (MembershipE MembershipTransitionStateMismatch)
                   (bt_get (cc_nodes (cluster_control s)) node)) (\<lambda>d.
          if nd_state d = Active then validate_fixed_voters m s else Inr ()))
      | TransitionReweight \<Rightarrow> bindE is_member (\<lambda>_. validate_fixed_voters m s)
      | TransitionRemove \<Rightarrow>
          bindE (ensure (mb_get_node m node = None)
                   (MembershipE (RemovingNodeIsStillMember node))) (\<lambda>_.
          validate_voters m s
            (min (active_node_count (cluster_control s) - 1) FIXED_VOTER_TARGET)))))"

definition validate_membership_command ::
    "StoredMembership \<Rightarrow> StateMachine \<Rightarrow> Command \<Rightarrow> ApplyError + unit" where
  "validate_membership_command stored s command =
     (let m = sm_membership stored in
      bindE (case command of BeginAddNode _ d \<Rightarrow> validate_added_node m s d | _ \<Rightarrow> Inr ()) (\<lambda>_.
      bindE (case command_executor command of
               Some executor \<Rightarrow> validate_executor_member m s executor | None \<Rightarrow> Inr ()) (\<lambda>_.
      bindE (case command of
               CompleteMembershipTransition _ started \<Rightarrow> validate_completion m s started
             | _ \<Rightarrow> Inr ()) (\<lambda>_.
      (case command of
         RefreshJoiningNodePreparation _ node _ _ _ _ _ \<Rightarrow>
           ensure (mb_get_node m node = None) (MembershipE (JoiningNodeAlreadyRaftMember node))
       | _ \<Rightarrow> Inr ())))))"

section \<open>The machine\<close>

record MachineState =
  decisions :: StateMachine
  last_applied_log_id :: "LogId option"
  ms_membership :: StoredMembership
  snapshot_generation :: u64

record StorageConfig =
  config_max_commit_entries :: u32
  config_max_commit_bytes :: u64

text \<open>\<open>M0\<close> stands for \<^verbatim>\<open>StoredMembership::default()\<close>.\<close>

definition new_machine ::
    "Bincode \<Rightarrow> StoredMembership \<Rightarrow> StorageConfig \<Rightarrow> ApplyError + MachineState" where
  "new_machine B M0 config =
     bindE (new_state_machine B (config_max_commit_entries config)
              (config_max_commit_bytes config)) (\<lambda>d.
     Inr \<lparr>decisions = d, last_applied_log_id = None, ms_membership = M0,
          snapshot_generation = 0\<rparr>)"

definition validate_config :: "MachineState \<Rightarrow> StorageConfig \<Rightarrow> string + unit" where
  "validate_config st config =
     ensure (max_commit_entries (decisions st) = config_max_commit_entries config
             \<and> max_commit_bytes (decisions st) = config_max_commit_bytes config)
       ''snapshot state-machine configuration does not match this node''"

text \<open>The index a machine expects next, \<^verbatim>\<open>map_or(0, |id| id.index.saturating_add(1))\<close>.\<close>

definition next_index :: "LogId option \<Rightarrow> u64" where
  "next_index log_id =
     (case log_id of None \<Rightarrow> 0 | Some l \<Rightarrow> saturating_add (log_index l) 1)"

definition apply_entry ::
    "Bincode \<Rightarrow> MachineState \<Rightarrow> RaftEntry \<Rightarrow> string + (DecisionApplyResult \<times> MachineState)" where
  "apply_entry B st entry =
     bindE (ensure (log_index (entry_log_id entry) = next_index (last_applied_log_id st))
              ''applied-state journal is not consecutive'') (\<lambda>_.
     let (response, st1) =
       (case entry_payload entry of
          Blank \<Rightarrow> (Noop, st)
        | MembershipChange m \<Rightarrow>
            (Noop, st\<lparr>ms_membership :=
               \<lparr>sm_log_id = Some (entry_log_id entry), sm_membership = m\<rparr>\<rparr>)
        | Normal command \<Rightarrow>
            (case tryS (validate_membership_command (ms_membership st) (decisions st) command)
                    (decisions st) (\<lambda>_.
                    apply_command B (decisions st) (entry_log_id entry) command) of
               (Inr r, d) \<Rightarrow> (Applied r, st\<lparr>decisions := d\<rparr>)
             | (Inl e, d) \<Rightarrow> (Rejected e, st\<lparr>decisions := d\<rparr>))) in
     Inr (response, st1\<lparr>last_applied_log_id := Some (entry_log_id entry)\<rparr>))"

fun validate_sequence_from :: "u64 \<Rightarrow> RaftEntry list \<Rightarrow> string + unit" where
  "validate_sequence_from expected [] = Inr ()"
| "validate_sequence_from expected (e # es) =
     bindE (ensure (log_index (entry_log_id e) = expected)
              ''applied-state journal is not consecutive'') (\<lambda>_.
     validate_sequence_from (saturating_add expected 1) es)"

definition validate_applied_entry_sequence ::
    "LogId option \<Rightarrow> RaftEntry list \<Rightarrow> string + unit" where
  "validate_applied_entry_sequence last_applied entries =
     validate_sequence_from (next_index last_applied) entries"

section \<open>Checking a whole machine state\<close>

text \<open>The message of a failed check: a text of its own, or that of an \<^verbatim>\<open>ApplyError\<close>.\<close>

datatype MembershipText = Text string | ErrorText ApplyError

definition validate_raft_members ::
    "Membership \<Rightarrow> ClusterControlState \<Rightarrow> MembershipText + unit" where
  "validate_raft_members m c =
     forE (\<lambda>(node, addr).
        bindE (ok_or (Text ''Raft member has no admitted node descriptor'') (bt_get (cc_nodes c) node)) (\<lambda>d.
        ensure (peer_address d = addr)
          (Text ''Raft member address does not match its admitted descriptor''))) (mb_nodes m)"

definition validate_admitted_node ::
    "Membership \<Rightarrow> ClusterControlState \<Rightarrow> NodeId \<times> NodeDescriptor \<Rightarrow> MembershipText + unit" where
  "validate_admitted_node m c = (\<lambda>(node, d).
     let kind = (case cc_transition c of
                   Some t \<Rightarrow> if mt_node_id t = node then Some (mt_kind t) else None
                 | None \<Rightarrow> None);
         membership_optional = (kind = Some TransitionAdd \<and> nd_state d = Joining
                                \<or> kind = Some TransitionRemove \<and> nd_state d = Active) in
     bindE (ensure (nd_node_id d = node) (Text ''admitted node is stored under descriptor key'')) (\<lambda>_.
     bindE (ensure (used_contains (used_node_ids c) node)
              (Text ''admitted node is absent from the never-reuse bitmap'')) (\<lambda>_.
     bindE (ensure (mb_get_node m node \<noteq> None \<or> membership_optional)
              (Text ''admitted node is not present in OpenRaft membership'')) (\<lambda>_.
     ensure (\<not> (nd_state d = Joining \<and> kind \<noteq> Some TransitionAdd))
       (Text ''JOINING node is not the current ADD transition'')))))"

definition fixed_voters_text :: "Membership \<Rightarrow> StateMachine \<Rightarrow> MembershipText + unit" where
  "fixed_voters_text m s = map_err ErrorText (validate_fixed_voters m s)"

definition validate_cluster_membership :: "MachineState \<Rightarrow> MembershipText + unit" where
  "validate_cluster_membership st =
     (let c = cluster_control (decisions st); m = sm_membership (ms_membership st) in
      if cc_nodes c = []
      then ensure (cc_transition c = None)
             (Text ''membership transition has no admitted node descriptor'')
      else
      bindE (validate_raft_members m c) (\<lambda>_.
      bindE (forE (validate_admitted_node m c) (cc_nodes c)) (\<lambda>_.
      bindE (ensure (case cc_transition c of
                       None \<Rightarrow> True | Some t \<Rightarrow> bt_contains_key (cc_nodes c) (mt_node_id t))
               (Text ''membership transition references missing node'')) (\<lambda>_.
      (case cc_transition c of
         None \<Rightarrow> fixed_voters_text m (decisions st)
       | Some t \<Rightarrow>
           (case mt_kind t of
              TransitionReweight \<Rightarrow> fixed_voters_text m (decisions st)
            | TransitionAdd \<Rightarrow>
                (case bt_get (cc_nodes c) (mt_node_id t) of
                   Some d \<Rightarrow>
                     if nd_state d = Joining then fixed_voters_text m (decisions st) else Inr ()
                 | None \<Rightarrow> Inr ())
            | TransitionRemove \<Rightarrow> Inr ()))))))"

section \<open>Frames of the batch operations\<close>

lemma prune_frame [simp]:
  "cluster_control (snd (prune_committed_invocations B s cs)) = cluster_control s"
  "sm_cluster_id (snd (prune_committed_invocations B s cs)) = sm_cluster_id s"
  "last_commit_cursor (snd (prune_committed_invocations B s cs)) = last_commit_cursor s"
  "finalized_through (snd (prune_committed_invocations B s cs)) = finalized_through s"
  "preparing_batch (snd (prune_committed_invocations B s cs)) = preparing_batch s"
  "sm_executor (snd (prune_committed_invocations B s cs)) = sm_executor s"
  by (induction cs arbitrary: s) (auto simp: Let_def split: option.split tryS_split)

lemma begin_batch_frame [simp]:
  "cluster_control (snd (begin_batch B s i b)) = cluster_control s"
  "sm_cluster_id (snd (begin_batch B s i b)) = sm_cluster_id s"
  "last_commit_cursor (snd (begin_batch B s i b)) = last_commit_cursor s"
  "finalized_through (snd (begin_batch B s i b)) = finalized_through s"
  "sm_executor (snd (begin_batch B s i b)) = sm_executor s"
  using prune_frame [of B s "expired_finalized_cursors s (bb_proposal_at_unix_millis b)"]
  by (cases "prune_committed_invocations B s
        (expired_finalized_cursors s (bb_proposal_at_unix_millis b))";
      simp add: begin_batch_def Let_def split: tryS_split option.split)+

lemma commit_frame [simp]:
  "cluster_control (snd (commit_prepared_batch B s i r)) = cluster_control s"
  "sm_cluster_id (snd (commit_prepared_batch B s i r)) = sm_cluster_id s"
  "finalized_through (snd (commit_prepared_batch B s i r)) = finalized_through s"
  "sm_executor (snd (commit_prepared_batch B s i r)) = sm_executor s"
  by (auto simp: commit_prepared_batch_def Let_def split: tryS_split)

lemma abort_frame [simp]:
  "cluster_control (snd (abort_prepared_batch s r)) = cluster_control s"
  "sm_cluster_id (snd (abort_prepared_batch s r)) = sm_cluster_id s"
  "last_commit_cursor (snd (abort_prepared_batch s r)) = last_commit_cursor s"
  "finalized_through (snd (abort_prepared_batch s r)) = finalized_through s"
  "committed_invocations (snd (abort_prepared_batch s r)) = committed_invocations s"
  by (auto simp: abort_prepared_batch_def split: tryS_split)

lemma advance_frame [simp]:
  "cluster_control (snd (advance_finalization s e n t)) = cluster_control s"
  "sm_cluster_id (snd (advance_finalization s e n t)) = sm_cluster_id s"
  "last_commit_cursor (snd (advance_finalization s e n t)) = last_commit_cursor s"
  "committed_invocations (snd (advance_finalization s e n t)) = committed_invocations s"
  by (auto simp: advance_finalization_eq split: sum.split option.split)

lemma nominate_frame [simp]:
  "cluster_control (snd (nominate_executor s e i)) = cluster_control s"
  "sm_cluster_id (snd (nominate_executor s e i)) = sm_cluster_id s"
  "last_commit_cursor (snd (nominate_executor s e i)) = last_commit_cursor s"
  "finalized_through (snd (nominate_executor s e i)) = finalized_through s"
  "committed_invocations (snd (nominate_executor s e i)) = committed_invocations s"
  by (auto simp: nominate_executor_def Let_def split: tryS_split)

lemma bootstrap_frame [simp]:
  "cluster_control (snd (complete_system_bootstrap s e n v i)) = cluster_control s"
  "sm_cluster_id (snd (complete_system_bootstrap s e n v i)) = sm_cluster_id s"
  "last_commit_cursor (snd (complete_system_bootstrap s e n v i)) = last_commit_cursor s"
  "finalized_through (snd (complete_system_bootstrap s e n v i)) = finalized_through s"
  "committed_invocations (snd (complete_system_bootstrap s e n v i)) = committed_invocations s"
  by (auto simp: complete_system_bootstrap_def Let_def split: tryS_split SystemBootstrapState.split)

lemma initialize_frame [simp]:
  "last_commit_cursor (snd (initialize_cluster s c)) = last_commit_cursor s"
  "finalized_through (snd (initialize_cluster s c)) = finalized_through s"
  "committed_invocations (snd (initialize_cluster s c)) = committed_invocations s"
  by (auto simp: initialize_cluster_def split: tryS_split option.split)

lemma cluster_only_frame:
  assumes "cluster_only s s'"
  shows "decision_inv B s' = decision_inv B s" "sm_cluster_id s' = sm_cluster_id s"
    "last_commit_cursor s' = last_commit_cursor s" "finalized_through s' = finalized_through s"
    "committed_invocations s' = committed_invocations s" "sm_executor s' = sm_executor s"
  using assms unfolding cluster_only_def by (metis decision_inv_cluster_fields(1) StateMachine.select_convs StateMachine.surjective StateMachine.update_convs)+

lemma initialize_cluster_ok:
  "cluster_ok (cluster_control s) \<Longrightarrow> cluster_ok (cluster_control (snd (initialize_cluster s c)))"
  by (auto simp: initialize_cluster_def cluster_ok_def transition_ok_def active_node_count_def
      split: tryS_split option.split)

lemma initialize_cluster_grows:
  "cluster_grows (cluster_control s) (cluster_control (snd (initialize_cluster s c)))"
  by (auto simp: initialize_cluster_def cluster_grows_def active_node_count_def
      split: tryS_split option.split)

section \<open>Every command keeps the invariants\<close>

lemmas cluster_ops_only = cluster_op_only complete_membership_transition_only
lemmas cluster_ops_inv = cluster_ops_only [THEN cluster_only_frame(1)]
lemmas cluster_ops_frame = cluster_ops_only [THEN cluster_only_frame(2)]
  cluster_ops_only [THEN cluster_only_frame(3)] cluster_ops_only [THEN cluster_only_frame(4)]
  cluster_ops_only [THEN cluster_only_frame(5)] cluster_ops_only [THEN cluster_only_frame(6)]

lemma apply_command_inv:
  assumes "decision_inv B s"
  shows "decision_inv B (snd (apply_command B s l c))"
  using assms
  by (cases c)
    (simp_all add: apply_command_def Let_def cluster_ops_inv nominate_executor_inv
      advance_finalization_inv initialize_cluster_inv complete_system_bootstrap_inv
      begin_batch_inv commit_prepared_batch_inv abort_prepared_batch_inv)

lemma apply_command_cluster_ok:
  assumes "cluster_ok (cluster_control s)"
  shows "cluster_ok (cluster_control (snd (apply_command B s l c)))"
  using assms
  by (cases c)
    (simp_all add: apply_command_def Let_def initialize_cluster_ok begin_add_node_ok
      begin_remove_node_ok begin_reweight_node_ok complete_membership_transition_ok
      stage_peer_spki_overlap_ok promote_peer_spki_overlap_ok clear_peer_spki_overlap_ok
      bind_jwt_ok bind_erasure_ok refresh_joining_node_preparation_ok)

lemma apply_command_grows:
  assumes "cluster_ok (cluster_control s)"
  shows "cluster_grows (cluster_control s) (cluster_control (snd (apply_command B s l c)))"
  using assms
  by (cases c)
    (simp_all add: apply_command_def Let_def initialize_cluster_grows begin_add_node_grows
      begin_remove_node_grows begin_reweight_node_grows complete_membership_transition_grows
      stage_peer_spki_overlap_grows promote_peer_spki_overlap_grows
      clear_peer_spki_overlap_grows cluster_bind_grows refresh_joining_node_preparation_grows)

section \<open>Runs\<close>

definition machine_inv :: "Bincode \<Rightarrow> MachineState \<Rightarrow> bool" where
  "machine_inv B st \<longleftrightarrow>
     decision_inv B (decisions st) \<and> cluster_ok (cluster_control (decisions st)) \<and>
     (\<forall>c. last_commit_cursor (decisions st) = Some c \<longrightarrow>
        (\<exists>l. last_applied_log_id st = Some l \<and> c \<le> log_index l))"

inductive reachable ::
    "Bincode \<Rightarrow> StoredMembership \<Rightarrow> StorageConfig \<Rightarrow> MachineState \<Rightarrow> bool"
  for B M0 config where
  init: "new_machine B M0 config = Inr st \<Longrightarrow> reachable B M0 config st"
| step: "reachable B M0 config st \<Longrightarrow> apply_entry B st e = Inr (r, st') \<Longrightarrow>
    reachable B M0 config st'"

text \<open>What one entry does to the decision state.\<close>

lemma apply_entry_cases:
  assumes "apply_entry B st e = Inr (r, st')"
  obtains (noop) "r = Noop" "decisions st' = decisions st"
      "last_applied_log_id st' = Some (entry_log_id e)"
      "log_index (entry_log_id e) = next_index (last_applied_log_id st)"
      "\<forall>c. entry_payload e \<noteq> Normal c"
  | (refused) c err where "entry_payload e = Normal c" "r = Rejected err"
      "validate_membership_command (ms_membership st) (decisions st) c = Inl err"
      "st' = st\<lparr>last_applied_log_id := Some (entry_log_id e)\<rparr>"
      "log_index (entry_log_id e) = next_index (last_applied_log_id st)"
  | (command) c res d where "entry_payload e = Normal c"
      "validate_membership_command (ms_membership st) (decisions st) c = Inr ()"
      "apply_command B (decisions st) (entry_log_id e) c = (res, d)"
      "r = (case res of Inr x \<Rightarrow> Applied x | Inl err \<Rightarrow> Rejected err)"
      "st' = st\<lparr>decisions := d, last_applied_log_id := Some (entry_log_id e)\<rparr>"
      "log_index (entry_log_id e) = next_index (last_applied_log_id st)"
proof (cases "entry_payload e")
  case (Normal c)
  show ?thesis
  proof (cases "validate_membership_command (ms_membership st) (decisions st) c")
    case (Inl err)
    with assms Normal show ?thesis by (intro refused) (auto simp: apply_entry_def)
  next
    case (Inr u)
    obtain res d where "apply_command B (decisions st) (entry_log_id e) c = (res, d)" by fastforce
    with assms Normal Inr show ?thesis
      by (intro command [of c res d]) (auto simp: apply_entry_def split: sum.splits)
  qed
qed (use assms noop in \<open>auto simp: apply_entry_def\<close>)

lemma apply_entry_decisions:
  assumes "apply_entry B st e = Inr (r, st')"
  obtains "decisions st' = decisions st"
  | c where "entry_payload e = Normal c"
      "decisions st' = snd (apply_command B (decisions st) (entry_log_id e) c)"
  using assms by (cases rule: apply_entry_cases) auto

lemma apply_command_last_commit:
  "last_commit_cursor (snd (apply_command B s l c)) = last_commit_cursor s \<or>
   last_commit_cursor (snd (apply_command B s l c)) = Some (log_index l)"
proof (cases "\<exists>r. c = CommitPreparedBatchCommand r")
  case True
  then obtain r where c: "c = CommitPreparedBatchCommand r" by blast
  obtain res s' where "commit_prepared_batch B s (log_index l) r = (res, s')" by fastforce
  moreover from this have "last_commit_cursor s' = last_commit_cursor s
      \<or> last_commit_cursor s' = Some (log_index l)"
    by (cases rule: commit_prepared_batch_cases) simp_all
  ultimately show ?thesis by (simp add: c apply_command_def Let_def)
qed (cases c; simp add: apply_command_def Let_def cluster_ops_frame)

lemma next_index_ge: "applied = Some l \<Longrightarrow> log_index l \<le> next_index applied"
  by (simp add: next_index_def saturating_add_ge)

lemma machine_inv_step:
  assumes inv: "machine_inv B st" and e: "apply_entry B st e = Inr (r, st')"
  shows "machine_inv B st'"
proof -
  have applied: "last_applied_log_id st' = Some (entry_log_id e)"
    and idx: "log_index (entry_log_id e) = next_index (last_applied_log_id st)"
    using e by (auto elim!: apply_entry_cases)
  have mono: "c \<le> log_index (entry_log_id e)" if "last_commit_cursor (decisions st) = Some c" for c
    using inv that next_index_ge [of "last_applied_log_id st"]
    by (force simp: machine_inv_def idx)
  from e show ?thesis
  proof (cases rule: apply_entry_decisions)
    case 1
    with inv mono applied show ?thesis by (auto simp: machine_inv_def)
  next
    case (2 c)
    with inv apply_command_last_commit [of B "decisions st" "entry_log_id e" c] mono applied
    show ?thesis
      by (auto simp: machine_inv_def apply_command_inv apply_command_cluster_ok)
  qed
qed

lemma new_machine_inv: "new_machine B M0 config = Inr st \<Longrightarrow> machine_inv B st"
  using new_state_machine_inv [of B]
  by (auto simp: new_machine_def machine_inv_def new_state_machine_def cluster_ok_default)

lemma reachable_machine_inv: "reachable B M0 config st \<Longrightarrow> machine_inv B st"
  by (induction rule: reachable.induct) (auto intro: new_machine_inv machine_inv_step)

text \<open>Applying a sequence of entries, as \<^verbatim>\<open>RaftStateMachine::apply\<close> and the reload do.\<close>

definition run_entries :: "Bincode \<Rightarrow> MachineState \<Rightarrow> RaftEntry list \<Rightarrow> string + MachineState" where
  "run_entries B st es =
     foldE (\<lambda>st e. bindE (apply_entry B st e) (\<lambda>(_, st'). Inr st')) st es"

lemma run_entries_simps [simp]:
  "run_entries B st [] = Inr st"
  "run_entries B st (e # es) = bindE (apply_entry B st e) (\<lambda>(_, st'). run_entries B st' es)"
  by (cases "apply_entry B st e"; auto simp: run_entries_def)+

lemma run_entries_append:
  "run_entries B st (xs @ ys) = bindE (run_entries B st xs) (\<lambda>st'. run_entries B st' ys)"
  by (simp add: run_entries_def foldE_append)

text \<open>A property every entry keeps, a run keeps.\<close>

lemma run_entries_keep:
  assumes "run_entries B st es = Inr st'" "P st"
    and "\<And>st e r st'. e \<in> set es \<Longrightarrow> P st \<Longrightarrow> apply_entry B st e = Inr (r, st') \<Longrightarrow> P st'"
  shows "P st'"
  using assms(1) unfolding run_entries_def
  by (rule foldE_invariant [where P = P]) (use assms(2,3) in auto)

lemma run_entries_inv:
  "run_entries B st es = Inr st' \<Longrightarrow> machine_inv B st \<Longrightarrow> machine_inv B st'"
  by (erule run_entries_keep) (auto intro: machine_inv_step)

lemma run_entries_reachable:
  "run_entries B st es = Inr st' \<Longrightarrow> reachable B M0 config st \<Longrightarrow> reachable B M0 config st'"
  by (erule run_entries_keep) (auto intro: reachable.step)

end
