(* ===== verification/Decision_Runs.thy ===== *)
theory Decision_Runs
  imports Decision_Machine
begin

text \<open>
  Properties of whole runs of the decision machine: what stays in the replay window, which
  errors no run produces, the executor fence, the voters a finished transition leaves, and what
  only ever grows. The claims are at the end, each with the concrete run that instantiates it.
\<close>

section \<open>What stays in the replay window\<close>

text \<open>The record of a commit can leave the window only through a begin whose proposal time has
  reached its expiry, and only once the watermark has passed it.\<close>

definition begins_after :: "u64 \<Rightarrow> Command \<Rightarrow> bool" where
  "begins_after t c = (case c of BeginBatchCommand b \<Rightarrow> t \<le> bb_proposal_at_unix_millis b | _ \<Rightarrow> False)"

lemma expired_cursor_entry:
  assumes "bt_wf (committed_invocations s)" "(c, i) \<in> set (committed_invocations s)"
    "c \<in> set (expired_finalized_cursors s t)"
  shows "ci_replay_expires_at_unix_millis i \<le> t" "c \<le> finalized_or_zero s"
  using assms bt_get_iff [OF assms(1)]
  by (auto simp: expired_finalized_cursors_def finalized_or_zero_def split: option.splits)

lemma begin_batch_window:
  assumes inv: "decision_inv B s" and e: "(c, i) \<in> set (committed_invocations s)"
    and keep: "bb_proposal_at_unix_millis b < ci_replay_expires_at_unix_millis i
               \<or> finalized_or_zero s < c"
  shows "(c, i) \<in> set (committed_invocations (snd (begin_batch B s idx b)))"
proof -
  let ?cs = "expired_finalized_cursors s (bb_proposal_at_unix_millis b)"
  obtain left where p: "prune_committed_invocations B s ?cs =
      (Inr (), s\<lparr>committed_invocations := filter (\<lambda>e. fst e \<notin> set ?cs) (committed_invocations s),
                committed_invocation_bytes := left\<rparr>)"
    using prune_expired [OF inv] .
  have "bt_wf (committed_invocations s)" using inv by (simp add: decision_inv_def window_ok_def)
  from expired_cursor_entry [OF this e] keep have "c \<notin> set ?cs" by force
  with e show ?thesis
    by (simp add: begin_batch_def p Let_def split: tryS_split option.split)
qed

lemma commit_prepared_batch_window:
  assumes "decision_inv B s" "(c, i) \<in> set (committed_invocations s)"
  shows "(c, i) \<in> set (committed_invocations (snd (commit_prepared_batch B s idx r)))"
proof -
  obtain res s' where "commit_prepared_batch B s idx r = (res, s')" by fastforce
  moreover from this have "(c, i) \<in> set (committed_invocations s')"
  proof (cases rule: commit_prepared_batch_cases)
    case (committed p n bytes tail_bytes)
    have "cursors_ok s" using assms(1) by (simp add: decision_inv_def)
    from commit_appends [OF this committed(4)] committed(14) assms(2) show ?thesis by simp
  qed (use assms in simp)
  ultimately show ?thesis by simp
qed

lemma apply_command_window:
  assumes "decision_inv B s" "(cur, i) \<in> set (committed_invocations s)"
    and "\<not> begins_after (ci_replay_expires_at_unix_millis i) c \<or> finalized_or_zero s < cur"
  shows "(cur, i) \<in> set (committed_invocations (snd (apply_command B s l c)))"
  using assms begin_batch_window [OF assms(1,2)] commit_prepared_batch_window [OF assms(1,2)]
  by (cases c) (auto simp: apply_command_def Let_def cluster_ops_frame begins_after_def not_le)

lemma run_entries_window:
  assumes run: "run_entries B st es = Inr st'" and inv: "machine_inv B st"
    and e: "(cur, i) \<in> set (committed_invocations (decisions st))"
    and "\<forall>e \<in> set es. \<forall>c. entry_payload e = Normal c \<longrightarrow>
           \<not> begins_after (ci_replay_expires_at_unix_millis i) c"
  shows "(cur, i) \<in> set (committed_invocations (decisions st'))"
proof -
  have "machine_inv B st' \<and> (cur, i) \<in> set (committed_invocations (decisions st'))"
  proof (rule run_entries_keep [OF run])
    fix st e r st'
    assume e: "e \<in> set es" and st: "machine_inv B st \<and> (cur, i) \<in> set (committed_invocations (decisions st))"
      and a: "apply_entry B st e = Inr (r, st')"
    from a have "(cur, i) \<in> set (committed_invocations (decisions st'))"
      by (cases rule: apply_entry_decisions)
        (use st e assms(4) apply_command_window in \<open>auto simp: machine_inv_def\<close>)
    with machine_inv_step [OF _ a] st
    show "machine_inv B st' \<and> (cur, i) \<in> set (committed_invocations (decisions st'))" by blast
  qed (use inv e in simp)
  then show ?thesis by blast
qed

lemma commit_entry:
  assumes a: "apply_entry B st e = Inr (Applied (BatchCommitted r), st')"
    and c: "entry_payload e = Normal (CommitPreparedBatchCommand q)"
    and inv: "machine_inv B st"
  obtains p where "preparing_batch (decisions st) = Some p"
    "cr_invocation r = committed_invocation_of (log_index (entry_log_id e)) p"
    "(log_index (entry_log_id e), cr_invocation r) \<in> set (committed_invocations (decisions st'))"
    "ci_invocation_id (cr_invocation r) \<notin> set (invocation_ids (decisions st))"
  using a
proof (cases rule: apply_entry_cases)
  case (command c' res d)
  have c': "c' = CommitPreparedBatchCommand q" using command(1) c by simp
  have inv': "decision_inv B (decisions st)" using inv by (simp add: machine_inv_def)
  have "commit_prepared_batch B (decisions st) (log_index (entry_log_id e)) q = (res, d)"
    using command(3) by (simp add: c' apply_command_def Let_def)
  then show ?thesis
  proof (cases rule: commit_prepared_batch_cases)
    case k: (committed p n bytes tail_bytes)
    have r: "cr_invocation r = committed_invocation_of (log_index (entry_log_id e)) p"
      using command(4) k(13) by simp
    have "cursors_ok (decisions st)" and prep: "preparing_ok (decisions st)"
      using inv' by (auto simp: decision_inv_def)
    from commit_appends [OF this(1) k(4)] k(14) command(5)
    have "(log_index (entry_log_id e), cr_invocation r) \<in> set (committed_invocations (decisions st'))"
      by (simp add: r)
    moreover have "ci_invocation_id (cr_invocation r) \<notin> set (invocation_ids (decisions st))"
      using prep k(2) by (simp add: preparing_ok_def r committed_invocation_of_def Let_def)
    ultimately show ?thesis
      using k(2) r by (intro that [of p])
  next
    case rejected
    with command(4) show ?thesis by simp
  qed
qed (use c in auto)

section \<open>Errors that no run produces\<close>

definition internal_error :: "ApplyError \<Rightarrow> bool" where
  "internal_error e \<longleftrightarrow>
     e = CommitE CommittedInvocationAccountingCorrupt
     \<or> e = CommitE CommittedInvocationByteCountExhausted
     \<or> e = CommitE CommitTailByteCountExhausted
     \<or> (\<exists>a b. e = CommitE (CommitCursorDidNotAdvance a b))
     \<or> (\<exists>a b. e = CommitE (CommitCursorNotAfterFinalization a b))"

lemma entry_bytes_bound:
  "committed_invocation_entry_bytes B c i = Inr n \<Longrightarrow> unat n \<le> MAX_ENCODED_BYTES"
  by (auto simp: committed_invocation_entry_bytes_def encoded_len_def)

lemma entry_size_bound: "entry_size B e \<le> MAX_ENCODED_BYTES"
  using entry_bytes_bound [of B "fst e" "snd e"]
  by (auto simp: entry_size_def split: sum.split)

lemma empty_map_size_bound: "empty_map_size B \<le> MAX_ENCODED_BYTES"
  by (auto simp: empty_map_size_def encoded_len_def split: sum.split)

lemma sum_entry_size_bound: "sum_list (map (entry_size B) es) \<le> length es * MAX_ENCODED_BYTES"
  using sum_list_mono [of es "entry_size B" "\<lambda>_. MAX_ENCODED_BYTES"] entry_size_bound
  by (simp add: sum_list_triv)

lemma window_bytes_bound:
  assumes "window_ok B s"
  shows "unat (committed_invocation_bytes s) \<le> MAX_ENCODED_BYTES"
proof (cases "committed_invocations s = []")
  case True
  with assms empty_map_size_bound [of B] show ?thesis by (simp add: window_ok_def)
next
  case False
  with assms have "committed_invocation_bytes s \<le> MAX_COMMITTED_INVOCATION_BYTES"
    by (simp add: window_ok_def)
  then show ?thesis
    by (simp add: word_le_nat_alt MAX_COMMITTED_INVOCATION_BYTES_def MAX_ENCODED_BYTES_def)
qed

lemma checked_add_small:
  "unat a + unat b < 2 ^ 64 \<Longrightarrow> checked_add a (b :: u64) = Some (a + b)"
  by (simp add: checked_add_def)

lemma unfinalized_commit_bytes_total:
  assumes win: "window_ok B s"
  shows "\<exists>n. unfinalized_commit_bytes B s = Inr n \<and> unat n \<le> 4096 * MAX_ENCODED_BYTES"
proof -
  have fold: "\<exists>n. foldE (\<lambda>total (cursor, entry).
        bindE (committed_invocation_entry_bytes B cursor entry) (\<lambda>n.
        ok_or (CommitE CommitTailByteCountExhausted) (checked_add total n))) t xs = Inr n"
    if "\<forall>e \<in> set xs. \<exists>n. committed_invocation_entry_bytes B (fst e) (snd e) = Inr n"
      "unat t + length xs * MAX_ENCODED_BYTES < 2 ^ 64" for t xs
    using that
  proof (induction xs arbitrary: t)
    case (Cons e xs)
    obtain c i where e: "e = (c, i)" by (cases e)
    with Cons.prems obtain n where n: "committed_invocation_entry_bytes B c i = Inr n" by auto
    have "unat n \<le> MAX_ENCODED_BYTES" using n by (rule entry_bytes_bound)
    with Cons.prems(2) have lt: "unat t + unat n + length xs * MAX_ENCODED_BYTES < 2 ^ 64" by simp
    then have add: "checked_add t n = Some (t + n)" by (intro checked_add_small) simp
    from checked_add_SomeD [OF this] lt
    have "unat (t + n) + length xs * MAX_ENCODED_BYTES < 2 ^ 64" by simp
    from Cons.IH [OF _ this] Cons.prems(1) show ?case by (simp add: e n add)
  qed simp
  have len: "length (unfinalized_entries s) \<le> 4096"
    using win unfinalized_sublist [of s] by (simp add: window_ok_def MAX_COMMITTED_INVOCATIONS_def)
  have "\<forall>e \<in> set (unfinalized_entries s). \<exists>n. committed_invocation_entry_bytes B (fst e) (snd e) = Inr n"
    using win by (auto simp: window_ok_def unfinalized_entries_def)
  moreover have "unat (0 :: u64) + length (unfinalized_entries s) * MAX_ENCODED_BYTES < 2 ^ 64"
    using len by (simp add: MAX_ENCODED_BYTES_def)
  ultimately obtain n where n: "unfinalized_commit_bytes B s = Inr n"
    using fold [of "unfinalized_entries s" 0] by (auto simp: unfinalized_commit_bytes_def)
  from unfinalized_commit_bytes_Inr [OF n] sum_entry_size_bound [of B "unfinalized_entries s"] len
  have "unat n \<le> 4096 * MAX_ENCODED_BYTES"
    by (metis le_trans mult_le_mono1)
  with n show ?thesis by blast
qed

lemma commit_prepared_batch_errors:
  assumes inv: "decision_inv B s"
    and fresh: "\<forall>l. last_commit_cursor s = Some l \<longrightarrow> l < idx"
    and err: "fst (commit_prepared_batch B s idx r) = Inl e"
  shows "\<not> internal_error e"
proof -
  have win: "window_ok B s" and cur: "cursors_ok s" using inv by (auto simp: decision_inv_def)
  have fin: "\<forall>f. finalized_through s = Some f \<longrightarrow> f < idx"
    using cur fresh by (fastforce simp: cursors_ok_def)
  obtain t where t: "unfinalized_commit_bytes B s = Inr t" and tb: "unat t \<le> 4096 * MAX_ENCODED_BYTES"
    using unfinalized_commit_bytes_total [OF win] by blast
  have add: "checked_add (committed_invocation_bytes s) n = Some (committed_invocation_bytes s + n)"
    "checked_add t n = Some (t + n)"
    if "committed_invocation_entry_bytes B idx (committed_invocation_of idx p) = Inr n" for n p
    using entry_bytes_bound [OF that] window_bytes_bound [OF win] tb
    by (auto intro!: checked_add_small simp: MAX_ENCODED_BYTES_def)
  show ?thesis
    using err fresh fin t
    by (auto simp: commit_prepared_batch_def Let_def add internal_error_def require_executor_def
        validate_node_def validate_prepared_identity_def bindE_eq_Inl
        committed_invocation_entry_bytes_def
        split: tryS_split_asm option.splits)
qed

lemma begin_batch_errors:
  assumes inv: "decision_inv B s" and err: "fst (begin_batch B s idx b) = Inl e"
  shows "\<not> internal_error e"
proof -
  obtain left where p: "prune_committed_invocations B s
        (expired_finalized_cursors s (bb_proposal_at_unix_millis b)) =
      (Inr (), s\<lparr>committed_invocations := filter (\<lambda>e. fst e \<notin> set
          (expired_finalized_cursors s (bb_proposal_at_unix_millis b))) (committed_invocations s),
        committed_invocation_bytes := left\<rparr>)"
    using prune_expired [OF inv] .
  show ?thesis
    using err
    by (auto simp: begin_batch_def p Let_def internal_error_def require_executor_def
        validate_node_def validate_begin_batch_def validate_authority_def replay_def bindE_eq_Inl
        split: tryS_split_asm option.splits if_splits AtomicBundleAuthority.splits)
qed

text \<open>The other operations never report an error of the commit tail that is internal.\<close>

definition no_commit_error :: "ApplyError + 'a \<Rightarrow> bool" where
  "no_commit_error m \<longleftrightarrow> (\<forall>x. m \<noteq> Inl (CommitE x))"

lemma no_commit_error_simps [simp]:
  "no_commit_error (Inr x)"
  "no_commit_error (Inl (BatchE b))"
  "no_commit_error (Inl (ClusterE c))"
  "no_commit_error (Inl (DescriptorE d))"
  "no_commit_error (Inl (MembershipE m))"
  "no_commit_error (ensure ok e) = (ok \<or> (\<forall>x. e \<noteq> CommitE x))"
  "no_commit_error (ok_or e v) = (v \<noteq> None \<or> (\<forall>x. e \<noteq> CommitE x))"
  by (auto simp: no_commit_error_def)

lemma no_commit_error_bindE:
  "no_commit_error m \<Longrightarrow> (\<And>x. m = Inr x \<Longrightarrow> no_commit_error (f x)) \<Longrightarrow> no_commit_error (bindE m f)"
  by (cases m) (auto simp: no_commit_error_def)

lemma no_commit_error_tryS:
  "no_commit_error m \<Longrightarrow> (\<And>x. m = Inr x \<Longrightarrow> no_commit_error (fst (k x))) \<Longrightarrow>
   no_commit_error (fst (tryS m s k))"
  by (cases m) (auto simp: no_commit_error_def)

lemma no_commit_error_forE:
  "(\<And>x. x \<in> set xs \<Longrightarrow> no_commit_error (f x)) \<Longrightarrow> no_commit_error (forE f xs)"
  by (induction xs) (auto intro!: no_commit_error_bindE)

lemma no_commit_error_checks:
  "no_commit_error (validate_node n)"
  "no_commit_error (validate_cluster_id cl)"
  "no_commit_error (validate_node_id n)"
  "no_commit_error (validate_pin p)"
  "no_commit_error (validate_join_capability j)"
  "no_commit_error (validate_peer_address a)"
  "no_commit_error (validate_capability_range r)"
  "no_commit_error (require_cluster_control s v)"
  "no_commit_error (require_node_not_transitioning s n)"
  "no_commit_error (ensure_pin_unique nodes n p)"
  "no_commit_error (ensure_join_capability_unique nodes n j)"
  by (auto simp: validate_node_def validate_cluster_id_def validate_node_id_def validate_pin_def
      validate_join_capability_def validate_peer_address_def validate_capability_range_def
      require_cluster_control_def require_node_not_transitioning_def ensure_pin_unique_def
      ensure_join_capability_unique_def intro!: no_commit_error_bindE split: option.split)

lemma no_commit_error_require_executor: "no_commit_error (require_executor s e n)"
  by (auto simp: require_executor_def no_commit_error_checks intro!: no_commit_error_bindE)

lemma no_commit_error_validate_descriptor: "no_commit_error (validate_descriptor d)"
  by (auto simp: validate_descriptor_def no_commit_error_checks intro!: no_commit_error_bindE
      split: option.split NodeState.split)

lemma no_commit_error_descriptor_unique: "no_commit_error (ensure_descriptor_unique nodes d)"
  by (auto simp: ensure_descriptor_unique_def intro!: no_commit_error_forE no_commit_error_bindE)

lemma no_commit_error_active: "no_commit_error (active_descriptor_mut s n)"
  by (auto simp: active_descriptor_mut_def no_commit_error_checks intro!: no_commit_error_bindE)

lemma no_commit_error_step: "no_commit_error (transition_step s t)"
  by (auto simp: transition_step_def Let_def intro!: no_commit_error_bindE
      split: MembershipTransitionKind.split NodeState.split)

lemmas no_commit_error_all = no_commit_error_checks no_commit_error_require_executor
  no_commit_error_validate_descriptor no_commit_error_descriptor_unique no_commit_error_active
  no_commit_error_step

lemma no_commit_error_cluster_ops:
  "no_commit_error (fst (begin_add_node s v d idx))"
  "no_commit_error (fst (begin_remove_node s v node idx))"
  "no_commit_error (fst (begin_reweight_node s v node w idx))"
  "no_commit_error (fst (refresh_joining_node_preparation s v node idx p1 j1 p2 j2))"
  "no_commit_error (fst (stage_peer_spki_overlap s v node a b))"
  "no_commit_error (fst (promote_peer_spki_overlap s v node a b))"
  "no_commit_error (fst (clear_peer_spki_overlap s v node a b))"
  "no_commit_error (fst (bind_jwt_signing_key_fingerprint s v f))"
  "no_commit_error (fst (bind_erasure_code_profile s v p))"
  "no_commit_error (fst (complete_membership_transition s v idx log))"
  unfolding begin_add_node_def begin_remove_node_def begin_reweight_node_def
    refresh_joining_node_preparation_def stage_peer_spki_overlap_def
    promote_peer_spki_overlap_def clear_peer_spki_overlap_def
    bind_jwt_signing_key_fingerprint_def bind_erasure_code_profile_def
    complete_membership_transition_def
  by (intro no_commit_error_tryS; auto simp: Let_def no_commit_error_all step_result_def
      intro!: no_commit_error_tryS split: option.split)+

lemma no_commit_error_batch_ops:
  "no_commit_error (fst (nominate_executor s e i))"
  "no_commit_error (fst (abort_prepared_batch s r))"
  "no_commit_error (fst (initialize_cluster s c))"
  "no_commit_error (fst (complete_system_bootstrap s e n w i))"
  unfolding nominate_executor_def abort_prepared_batch_def initialize_cluster_def
    complete_system_bootstrap_def
  by (intro no_commit_error_tryS; auto simp: Let_def no_commit_error_all validate_prepared_identity_def
      split: option.split SystemBootstrapState.split)+

lemma advance_finalization_errors:
  "fst (advance_finalization s e n t) = Inl err \<Longrightarrow> \<not> internal_error err"
  using no_commit_error_require_executor [of s e n]
  by (auto simp: advance_finalization_eq internal_error_def no_commit_error_def
      split: sum.splits option.splits if_splits)

lemma no_commit_error_not_internal: "no_commit_error m \<Longrightarrow> m = Inl e \<Longrightarrow> \<not> internal_error e"
  by (auto simp: no_commit_error_def internal_error_def)

lemma apply_command_errors:
  assumes "decision_inv B s" "\<forall>c. last_commit_cursor s = Some c \<longrightarrow> c < log_index l"
    and "fst (apply_command B s l c) = Inl e"
  shows "\<not> internal_error e"
proof (cases c)
  case (FinalizedThrough x y z)
  with assms(3) show ?thesis
    by (auto simp: apply_command_def Let_def dest: advance_finalization_errors)
next
  case (BeginBatchCommand b)
  with assms show ?thesis by (auto simp: apply_command_def Let_def dest: begin_batch_errors)
next
  case (CommitPreparedBatchCommand q)
  with assms show ?thesis
    by (auto simp: apply_command_def Let_def dest: commit_prepared_batch_errors)
qed (use assms(3) in \<open>auto simp: apply_command_def Let_def
      dest!: no_commit_error_not_internal [rotated]
      intro: no_commit_error_batch_ops no_commit_error_cluster_ops\<close>)

section \<open>The executor fence\<close>

definition command_fence :: "Command \<Rightarrow> ExecutorNomination option" where
  "command_fence c =
     (case c of
        BeginBatchCommand b \<Rightarrow>
          Some \<lparr>en_executor = bb_executor b, en_nomination_log_index = bb_nomination_log_index b\<rparr>
      | CommitPreparedBatchCommand q \<Rightarrow>
          Some \<lparr>en_executor = pr_executor q, en_nomination_log_index = pr_nomination_log_index q\<rparr>
      | AbortPreparedBatchCommand q \<Rightarrow>
          Some \<lparr>en_executor = pr_executor q, en_nomination_log_index = pr_nomination_log_index q\<rparr>
      | FinalizedThrough e n _ \<Rightarrow> Some \<lparr>en_executor = e, en_nomination_log_index = n\<rparr>
      | CompleteSystemBootstrap e n _ \<Rightarrow> Some \<lparr>en_executor = e, en_nomination_log_index = n\<rparr>
      | _ \<Rightarrow> None)"

lemma require_executor_stale:
  "sm_executor s \<noteq> Some \<lparr>en_executor = e, en_nomination_log_index = n\<rparr> \<Longrightarrow>
   \<exists>err. require_executor s e n = Inl err"
  using require_executor_Inr [of s e n] by (cases "require_executor s e n") auto

lemma apply_command_stale:
  assumes "command_fence c = Some f" "sm_executor s \<noteq> Some f"
  shows "\<exists>err. apply_command B s l c = (Inl err, s)"
  using assms
  by (cases c)
    (auto simp: command_fence_def apply_command_def Let_def begin_batch_def commit_prepared_batch_def
      abort_prepared_batch_def advance_finalization_def complete_system_bootstrap_def
      dest!: require_executor_stale split: tryS_split)

section \<open>Voters after a finished transition\<close>

lemma validate_voters_Inr:
  "validate_voters m s n = Inr u \<longleftrightarrow>
     length (bs_of_list (mb_voter_ids m)) = n \<and> (\<forall>v \<in> set (mb_voter_ids m). is_active s v)"
  by (auto simp: validate_voters_def Let_def)

definition voters_fixed :: "Membership \<Rightarrow> StateMachine \<Rightarrow> bool" where
  "voters_fixed m s \<longleftrightarrow>
     length (bs_of_list (mb_voter_ids m)) = voter_target (cluster_control s)
     \<and> list_all (is_active s) (mb_voter_ids m)"

lemma step_result_finished:
  "step_result i log t (f, g, s1) = (Inr (MembershipTransitionFinished i'), s') \<Longrightarrow>
     f \<and> cc_nodes (cluster_control s') = cc_nodes (cluster_control s1)"
  by (auto simp: step_result_def Let_def split: if_splits)

lemma validate_completion_Inr:
  assumes "validate_completion m s started = Inr ()" "cc_transition (cluster_control s) = Some t"
    and "bt_get (cc_nodes (cluster_control s)) (mt_node_id t) = Some d"
  shows "mt_kind t = TransitionAdd \<Longrightarrow> nd_state d = Active \<Longrightarrow> validate_fixed_voters m s = Inr ()"
    and "mt_kind t = TransitionReweight \<Longrightarrow> validate_fixed_voters m s = Inr ()"
    and "mt_kind t = TransitionRemove \<Longrightarrow> mb_get_node m (mt_node_id t) = None"
    and "mt_kind t = TransitionRemove \<Longrightarrow> validate_voters m s
           (min (active_node_count (cluster_control s) - 1) FIXED_VOTER_TARGET) = Inr ()"
  using assms by (simp_all add: validate_completion_def Let_def)

lemma voters_fixed_same:
  assumes "validate_fixed_voters m s = Inr ()" "is_active s' = is_active s"
    and "active_node_count (cluster_control s') = active_node_count (cluster_control s)"
  shows "voters_fixed m s'"
  using assms
  by (simp add: validate_fixed_voters_def validate_voters_Inr voters_fixed_def voter_target_def
      list_all_iff)

lemma voters_fixed_removed:
  assumes val: "validate_voters m s (min (active_node_count (cluster_control s) - 1) FIXED_VOTER_TARGET) = Inr ()"
    and wf: "membership_wf m" and gone: "mb_get_node m node = None"
    and nodes: "cc_nodes (cluster_control s') = bt_remove node (cc_nodes (cluster_control s))"
    and count: "active_node_count (cluster_control s') = active_node_count (cluster_control s) - 1"
  shows "voters_fixed m s'"
proof -
  have "map_of (mb_nodes m) node = None" using wf gone by (simp add: membership_wf_def)
  then have "node \<notin> fst ` set (mb_nodes m)" by (simp add: map_of_eq_None_iff)
  then have gone: "v \<noteq> node" if "v \<in> set (mb_voter_ids m)" for v
    using wf that unfolding membership_wf_def by blast
  have "is_active s' v" if "v \<in> set (mb_voter_ids m)" for v
    using val gone [OF that] that
    by (simp add: validate_voters_Inr is_active_def nodes bt_get_remove)
  with val count show ?thesis
    by (simp add: validate_voters_Inr voters_fixed_def voter_target_def list_all_iff)
qed

lemma completion_voters:
  assumes ok: "cluster_ok (cluster_control s)" and wf: "membership_wf m"
    and val: "validate_completion m s started = Inr ()"
    and fin: "complete_membership_transition s v started log =
          (Inr (MembershipTransitionFinished i), s')"
  shows "voters_fixed m s'"
proof -
  from val obtain t where t: "cc_transition (cluster_control s) = Some t"
    by (auto simp: validate_completion_def)
  with fin obtain r where r: "transition_step s t = Inr r"
    and res: "step_result started log t r = (Inr (MembershipTransitionFinished i), s')"
    by (auto simp: complete_membership_transition_def tryS_eq_Inr)
  have bt: "bt_wf (cc_nodes (cluster_control s))" using ok by (rule cluster_okE)
  from ok t show ?thesis
  proof (cases rule: transition_step_cases)
    case (activated d)
    have "cc_nodes (cluster_control s') = cc_nodes (cluster_control s)"
      using res r activated(4) by (auto dest: step_result_finished)
    then show ?thesis
      using validate_completion_Inr(1) [OF val t activated(3,1,2)]
      by (intro voters_fixed_same) (simp_all add: is_active_def fun_eq_iff active_node_count_def)
  next
    case (removed d)
    have nodes: "cc_nodes (cluster_control s') = bt_remove (mt_node_id t) (cc_nodes (cluster_control s))"
      using res r removed(5) by (auto dest: step_result_finished)
    moreover have "active_node_count (cluster_control s') = active_node_count (cluster_control s) - 1"
      using active_node_count_remove [OF bt removed(3)] removed(2)
      by (simp add: active_node_count_def nodes)
    ultimately show ?thesis
      by (rule voters_fixed_removed [OF validate_completion_Inr(4) [OF val t removed(3,1)] wf
            validate_completion_Inr(3) [OF val t removed(3,1)]])
  next
    case (reweighted d w)
    let ?d = "d\<lparr>storage_weight_millionths := w\<rparr>"
    have nodes: "cc_nodes (cluster_control s') = bt_insert (mt_node_id t) ?d (cc_nodes (cluster_control s))"
      using res r reweighted(6) by (auto dest: step_result_finished)
    have "active_node_count (cluster_control s') = active_node_count (cluster_control s)"
      using active_node_count_same [OF bt reweighted(5), of ?d] by (simp add: active_node_count_def nodes)
    moreover have "is_active s' = is_active s"
      using reweighted(2,5) by (simp add: is_active_def nodes bt_get_insert fun_eq_iff)
    ultimately show ?thesis
      using validate_completion_Inr(2) [OF val t reweighted(5,1)] by (intro voters_fixed_same)
  next
    case (activate d)
    with r res show ?thesis by (auto simp: step_result_def)
  next
    case (lacks d)
    with r show ?thesis by simp
  qed
qed

section \<open>What only grows\<close>

definition run_grows :: "StateMachine \<Rightarrow> StateMachine \<Rightarrow> bool" where
  "run_grows s s' \<longleftrightarrow>
     cluster_grows (cluster_control s) (cluster_control s') \<and>
     (\<forall>c. sm_cluster_id s = Some c \<longrightarrow> sm_cluster_id s' = Some c) \<and>
     (\<forall>c. last_commit_cursor s = Some c \<longrightarrow> (\<exists>c'. last_commit_cursor s' = Some c' \<and> c \<le> c')) \<and>
     finalized_or_zero s \<le> finalized_or_zero s'"

lemma run_grows_refl [simp]: "run_grows s s"
  by (simp add: run_grows_def)

lemma run_grows_trans: "run_grows a b \<Longrightarrow> run_grows b c \<Longrightarrow> run_grows a c"
  unfolding run_grows_def by (meson cluster_grows_trans order_trans)

lemma apply_command_cluster_id:
  "sm_cluster_id s = Some i \<Longrightarrow> sm_cluster_id (snd (apply_command B s l c)) = Some i"
  by (cases c) (auto simp: apply_command_def Let_def cluster_ops_frame initialize_cluster_def
      split: tryS_split)

lemma apply_command_finalized:
  "finalized_or_zero s \<le> finalized_or_zero (snd (apply_command B s l c))"
proof (cases c)
  case (FinalizedThrough e n t)
  obtain res s' where "advance_finalization s e n t = (res, s')" by fastforce
  moreover from this have "finalized_or_zero s \<le> finalized_or_zero s'"
    by (cases rule: advance_finalization_cases) (auto simp: finalized_or_zero_def)
  ultimately show ?thesis by (simp add: FinalizedThrough apply_command_def Let_def)
qed (simp_all add: apply_command_def Let_def finalized_or_zero_def cluster_ops_frame)

lemma run_grows_entry:
  assumes inv: "machine_inv B st" and e: "apply_entry B st e = Inr (r, st')"
  shows "run_grows (decisions st) (decisions st')"
  using e
proof (cases rule: apply_entry_decisions)
  case (2 c)
  have idx: "log_index (entry_log_id e) = next_index (last_applied_log_id st)"
    using e by (auto elim!: apply_entry_cases)
  have "c \<le> log_index (entry_log_id e)" if "last_commit_cursor (decisions st) = Some c" for c
    using inv that next_index_ge [of "last_applied_log_id st"]
    by (force simp: machine_inv_def idx)
  with apply_command_last_commit [of B "decisions st" "entry_log_id e" c]
    apply_command_cluster_id apply_command_finalized apply_command_grows inv
  show ?thesis by (auto simp: 2 run_grows_def machine_inv_def)
qed simp

lemma run_grows_run:
  assumes "run_entries B st es = Inr st'" "machine_inv B st"
  shows "run_grows (decisions st) (decisions st')"
proof -
  have "machine_inv B st' \<and> run_grows (decisions st) (decisions st')"
    using assms(1) by (rule run_entries_keep)
      (use assms(2) in \<open>auto intro: machine_inv_step run_grows_trans run_grows_entry\<close>)
  then show ?thesis by blast
qed

section \<open>A concrete cluster\<close>

text \<open>One node, a bincode that gives every entry 400 bytes, and a log builder: what the claims
  below are instantiated with.\<close>

definition ex_bincode :: Bincode where
  "ex_bincode = \<lparr>size_of_empty_map = Inr 8, size_of_entry = (\<lambda>_. Inr 400)\<rparr>"

definition ex_membership :: StoredMembership where
  "ex_membership = \<lparr>sm_log_id = None, sm_membership =
     \<lparr>mb_voter_ids = [1], mb_nodes = [(1, ''n1'')], mb_get_node = map_of [(1, ''n1'')]\<rparr>\<rparr>"

definition ex_config :: StorageConfig where
  "ex_config = \<lparr>config_max_commit_entries = 4, config_max_commit_bytes = 100000\<rparr>"

definition ex_entry :: "u64 \<Rightarrow> Command \<Rightarrow> RaftEntry" where
  "ex_entry i c = \<lparr>entry_log_id = \<lparr>log_term = 1, log_leader_node = 1, log_index = i\<rparr>,
     entry_payload = Normal c\<rparr>"

definition ex_begin :: "u64 \<Rightarrow> digest \<Rightarrow> u64 \<Rightarrow> BeginBatch" where
  "ex_begin nomination invocation at = \<lparr>bb_executor = 1, bb_nomination_log_index = nomination,
     bb_authority = StoredProgram 5 6, bb_invocation_id = invocation, bb_input_fingerprint = 7,
     bb_bundle_ref = \<lparr>bundle_hash = 8, bundle_length = 9\<rparr>, bb_durability_class = 10,
     bb_durability_evidence_hash = 11, bb_participant_manifest_hash = 12,
     bb_proposal_at_unix_millis = at,
     bb_replay_expires_at_unix_millis = at + ATOMIC_REPLAY_RETENTION_MILLIS\<rparr>"

definition ex_request :: "u64 \<Rightarrow> u64 \<Rightarrow> digest \<Rightarrow> PreparedBatchRequest" where
  "ex_request nomination cursor invocation =
     \<lparr>pr_executor = 1, pr_nomination_log_index = nomination, pr_begin_cursor = cursor,
      pr_invocation_id = invocation, pr_participant_manifest_hash = 12\<rparr>"

definition ex_descriptor :: NodeDescriptor where
  "ex_descriptor = \<lparr>nd_node_id = 1, peer_address = ''n1'', storage_weight_millionths = 5,
     nd_state = Joining, current_peer_spki_sha256 = 3, overlap_peer_spki_sha256 = None,
     join_capability_hash = Some 4, supported_protocol = \<lparr>range_min = 1, range_max = 2\<rparr>,
     supported_storage_format = \<lparr>range_min = 1, range_max = 1\<rparr>\<rparr>"

text \<open>The same invocation committed twice, with its expiry in between.\<close>

definition ex_log :: "RaftEntry list" where
  "ex_log =
    [ex_entry 0 (NominateExecutor 1),
     ex_entry 1 (BeginBatchCommand (ex_begin 0 99 1)),
     ex_entry 2 (CommitPreparedBatchCommand (ex_request 0 1 99)),
     ex_entry 3 (FinalizedThrough 1 0 2),
     ex_entry 4 (BeginBatchCommand (ex_begin 0 99 (1 + ATOMIC_REPLAY_RETENTION_MILLIS))),
     ex_entry 5 (CommitPreparedBatchCommand (ex_request 0 4 99))]"

text \<open>The first node admitted: activation, then the end of the transition.\<close>

definition ex_admission :: "RaftEntry list" where
  "ex_admission =
    [ex_entry 0 (InitializeCluster 7),
     ex_entry 1 (BeginAddNode 1 ex_descriptor),
     ex_entry 2 (CompleteMembershipTransition 1 1),
     ex_entry 3 (CompleteMembershipTransition 1 1)]"

definition ex_start :: MachineState where
  "ex_start = projr (new_machine ex_bincode ex_membership ex_config)"

definition ex_state :: "RaftEntry list \<Rightarrow> nat \<Rightarrow> MachineState" where
  "ex_state es n = projr (run_entries ex_bincode ex_start (take n es))"

definition ex_response :: "RaftEntry list \<Rightarrow> nat \<Rightarrow> DecisionApplyResult" where
  "ex_response es n = fst (projr (apply_entry ex_bincode (ex_state es n) (es ! n)))"

lemma ex_start: "new_machine ex_bincode ex_membership ex_config = Inr ex_start"
  by (simp add: ex_start_def new_machine_def new_state_machine_def ex_bincode_def encoded_len_def
    MAX_ENCODED_BYTES_def ex_config_def)

lemma ex_start_membership: "ms_membership ex_start = ex_membership"
  by (simp add: ex_start_def new_machine_def new_state_machine_def ex_bincode_def encoded_len_def
    MAX_ENCODED_BYTES_def ex_config_def)

lemma ex_start_reachable: "reachable ex_bincode ex_membership ex_config ex_start"
  using ex_start by (rule reachable.init)

lemma ex_log_runs: "\<not> isl (run_entries ex_bincode ex_start ex_log)"
  by code_simp

lemma ex_admission_runs: "\<not> isl (run_entries ex_bincode ex_start ex_admission)"
  by code_simp

lemma ex_run_prefix:
  assumes "\<not> isl (run_entries ex_bincode ex_start es)"
  shows "run_entries ex_bincode ex_start (take n es) = Inr (ex_state es n)"
proof -
  have "\<not> isl (run_entries ex_bincode ex_start (take n es @ drop n es))" using assms by simp
  then show ?thesis
    unfolding run_entries_append ex_state_def
    by (cases "run_entries ex_bincode ex_start (take n es)") simp_all
qed

lemma ex_step:
  assumes "\<not> isl (run_entries ex_bincode ex_start es)" "n < length es" "m = Suc n"
  shows "apply_entry ex_bincode (ex_state es n) (es ! n) = Inr (ex_response es n, ex_state es m)"
proof -
  from ex_run_prefix [OF assms(1), of "Suc n"] ex_run_prefix [OF assms(1), of n]
  show ?thesis
    by (auto simp: take_Suc_conv_app_nth [OF assms(2)] run_entries_append ex_response_def assms(3))
qed

lemma ex_run_between:
  assumes "\<not> isl (run_entries ex_bincode ex_start es)" "m \<le> n"
  shows "run_entries ex_bincode (ex_state es m) (drop m (take n es)) = Inr (ex_state es n)"
proof -
  have "take m es @ drop m (take n es) = take n es"
    using append_take_drop_id [of m "take n es"] assms(2) by (simp add: min_absorb1)
  with ex_run_prefix [OF assms(1), of n] ex_run_prefix [OF assms(1), of m]
  show ?thesis by (metis bindE_simps(2) run_entries_append)
qed

lemma ex_reachable:
  assumes "\<not> isl (run_entries ex_bincode ex_start es)"
  shows "reachable ex_bincode ex_membership ex_config (ex_state es n)"
  using run_entries_reachable [OF ex_run_prefix [OF assms] ex_start_reachable] .

lemma ex_log_facts:
  "length ex_log = 6"
  "entry_payload (ex_log ! 2) = Normal (CommitPreparedBatchCommand (ex_request 0 1 99))"
  "entry_payload (ex_log ! 5) = Normal (CommitPreparedBatchCommand (ex_request 0 4 99))"
  by (simp_all add: ex_log_def ex_entry_def)

lemma no_commit_error_membership: "no_commit_error (validate_membership_command stored s c)"
proof -
  have voters: "no_commit_error (validate_voters m s n)" for m n
    by (auto simp: validate_voters_def Let_def intro!: no_commit_error_bindE no_commit_error_forE)
  have completion: "no_commit_error (validate_completion m s i)" for m i
    by (auto simp: validate_completion_def Let_def validate_fixed_voters_def voters
        intro!: no_commit_error_bindE split: MembershipTransitionKind.split)
  have added: "no_commit_error (validate_added_node m s d)" for m d
    by (auto simp: validate_added_node_def intro!: no_commit_error_forE)
  have executor: "no_commit_error (validate_executor_member m s e)" for m e
    by (auto simp: validate_executor_member_def intro!: no_commit_error_bindE)
  show ?thesis
    unfolding validate_membership_command_def Let_def
    by (intro no_commit_error_bindE)
      (auto simp: completion added executor split: Command.split option.split)
qed

lemma next_index_gt: "applied = Some l \<Longrightarrow> log_index l \<noteq> - 1 \<Longrightarrow> log_index l < next_index applied"
proof -
  assume a: "applied = Some l" "log_index l \<noteq> - 1"
  then have "unat (log_index l) \<noteq> 2 ^ 64 - 1"
    using word_unat_eq_iff [of "log_index l" "- 1"]
    by (simp add: unsigned_minus_1_eq_mask mask_eq_exp_minus_1)
  moreover have "unat (log_index l) < 2 ^ 64" using unsigned_less [of "log_index l"] by simp
  ultimately show ?thesis
    using a by (simp add: next_index_def word_less_nat_alt unat_saturating_add)
qed

section \<open>Claims\<close>

text \<open>C1. In every state a run of the machine reaches, the decision state satisfies its invariant
  (the replay window is sorted, exactly accounted and within its bounds, the recovery tail is
  within the configured limits, cursors are ordered, invocation identities are unique and the
  batch in preparation is validated and carries the current fence) and so does the cluster
  control state (descriptors valid and pairwise apart, every admitted identity in the bitmap, the
  transition in progress consistent with its node).\<close>

theorem reachable_invariant:
  assumes "reachable B M0 config st"
  shows "decision_inv B (decisions st) \<and> cluster_ok (cluster_control (decisions st))"
  using reachable_machine_inv [OF assms] by (simp add: machine_inv_def)

theorem reachable_invariant_witness:
  "decision_inv ex_bincode (decisions (ex_state ex_log 6))
   \<and> cluster_ok (cluster_control (decisions (ex_state ex_log 6)))"
  by (rule reachable_invariant [OF ex_reachable [OF ex_log_runs]])

text \<open>C2. Exactly once: if two commits of one run carry the same invocation identity, then a
  begin whose proposal time had reached the first one's replay expiry was applied in between.\<close>

theorem exactly_once:
  assumes "reachable B M0 config st"
    and "apply_entry B st e1 = Inr (Applied (BatchCommitted r1), st1)"
    and "entry_payload e1 = Normal (CommitPreparedBatchCommand q1)"
    and "run_entries B st1 mid = Inr st2"
    and "apply_entry B st2 e2 = Inr (Applied (BatchCommitted r2), st3)"
    and "entry_payload e2 = Normal (CommitPreparedBatchCommand q2)"
    and "ci_invocation_id (cr_invocation r2) = ci_invocation_id (cr_invocation r1)"
  shows "\<exists>e \<in> set mid. \<exists>b. entry_payload e = Normal (BeginBatchCommand b)
           \<and> ci_replay_expires_at_unix_millis (cr_invocation r1) \<le> bb_proposal_at_unix_millis b"
proof (rule ccontr)
  assume none: "\<not> ?thesis"
  have inv: "machine_inv B st" using assms(1) by (rule reachable_machine_inv)
  have inv1: "machine_inv B st1" using inv assms(2) by (rule machine_inv_step)
  have inv2: "machine_inv B st2" using assms(4) inv1 by (rule run_entries_inv)
  obtain c where "(c, cr_invocation r1) \<in> set (committed_invocations (decisions st1))"
    using commit_entry [OF assms(2,3) inv] by blast
  from run_entries_window [OF assms(4) inv1 this] none
  have "(c, cr_invocation r1) \<in> set (committed_invocations (decisions st2))"
    by (auto simp: begins_after_def split: Command.splits)
  moreover have "ci_invocation_id (cr_invocation r2) \<notin> set (invocation_ids (decisions st2))"
    using commit_entry [OF assms(5,6) inv2] by blast
  ultimately show False using assms(7) by (force simp: invocation_ids_def)
qed

lemma ex_commits:
  "\<exists>r. ex_response ex_log 2 = Applied (BatchCommitted r) \<and> ci_invocation_id (cr_invocation r) = 99"
  "\<exists>r. ex_response ex_log 5 = Applied (BatchCommitted r) \<and> ci_invocation_id (cr_invocation r) = 99"
proof -
  have "case ex_response ex_log 2 of Applied (BatchCommitted r) \<Rightarrow> ci_invocation_id (cr_invocation r) = 99
      | _ \<Rightarrow> False"
    by code_simp
  then show "\<exists>r. ex_response ex_log 2 = Applied (BatchCommitted r) \<and> ci_invocation_id (cr_invocation r) = 99"
    by (auto split: DecisionApplyResult.splits ApplyResult.splits)
  have "case ex_response ex_log 5 of Applied (BatchCommitted r) \<Rightarrow> ci_invocation_id (cr_invocation r) = 99
      | _ \<Rightarrow> False"
    by code_simp
  then show "\<exists>r. ex_response ex_log 5 = Applied (BatchCommitted r) \<and> ci_invocation_id (cr_invocation r) = 99"
    by (auto split: DecisionApplyResult.splits ApplyResult.splits)
qed

theorem exactly_once_witness:
  "\<exists>r. ex_response ex_log 2 = Applied (BatchCommitted r) \<and>
     (\<exists>e \<in> set (drop 3 (take 5 ex_log)). \<exists>b. entry_payload e = Normal (BeginBatchCommand b)
        \<and> ci_replay_expires_at_unix_millis (cr_invocation r) \<le> bb_proposal_at_unix_millis b)"
proof -
  obtain r1 where r1: "ex_response ex_log 2 = Applied (BatchCommitted r1)"
    "ci_invocation_id (cr_invocation r1) = 99" using ex_commits(1) by (elim exE conjE)
  obtain r2 where r2: "ex_response ex_log 5 = Applied (BatchCommitted r2)"
    "ci_invocation_id (cr_invocation r2) = 99" using ex_commits(2) by (elim exE conjE)
  have e1: "apply_entry ex_bincode (ex_state ex_log 2) (ex_log ! 2) =
      Inr (Applied (BatchCommitted r1), ex_state ex_log 3)"
    unfolding r1(1) [symmetric] by (rule ex_step [OF ex_log_runs]) (simp_all add: ex_log_facts)
  have e2: "apply_entry ex_bincode (ex_state ex_log 5) (ex_log ! 5) =
      Inr (Applied (BatchCommitted r2), ex_state ex_log 6)"
    unfolding r2(1) [symmetric] by (rule ex_step [OF ex_log_runs]) (simp_all add: ex_log_facts)
  have run: "run_entries ex_bincode (ex_state ex_log 3) (drop 3 (take 5 ex_log)) =
      Inr (ex_state ex_log 5)"
    by (rule ex_run_between [OF ex_log_runs]) simp
  have "\<exists>e \<in> set (drop 3 (take 5 ex_log)). \<exists>b. entry_payload e = Normal (BeginBatchCommand b)
        \<and> ci_replay_expires_at_unix_millis (cr_invocation r1) \<le> bb_proposal_at_unix_millis b"
    using r1(2) r2(2)
    by (intro exactly_once [OF ex_reachable [OF ex_log_runs] e1 ex_log_facts(2)
          run e2 ex_log_facts(3)]) simp
  with r1(1) show ?thesis by blast
qed

text \<open>C3. The recovery tail is never lost: a committed invocation above the finalization watermark
  that a run ends with is still among the unfinalized entries.\<close>

theorem unfinalized_kept:
  assumes "reachable B M0 config st" and "(cur, i) \<in> set (committed_invocations (decisions st))"
    and "run_entries B st es = Inr st'" and "finalized_or_zero (decisions st') < cur"
  shows "(cur, i) \<in> set (unfinalized_entries (decisions st'))"
proof -
  have "(cur, i) \<in> set (committed_invocations (decisions st'))"
    using assms(2-) reachable_machine_inv [OF assms(1)]
  proof (induction es arbitrary: st)
    case (Cons e es)
    from Cons.prems(2) obtain r st1 where e: "apply_entry B st e = Inr (r, st1)"
      and run: "run_entries B st1 es = Inr st'" by auto
    have inv1: "machine_inv B st1" using Cons.prems(4) e by (rule machine_inv_step)
    have "finalized_or_zero (decisions st) \<le> finalized_or_zero (decisions st')"
      using run_grows_entry [OF Cons.prems(4) e] run_grows_run [OF run inv1]
      by (auto simp: run_grows_def)
    with Cons.prems(3) have below: "finalized_or_zero (decisions st) < cur" by simp
    from e have "(cur, i) \<in> set (committed_invocations (decisions st1))"
      by (cases rule: apply_entry_decisions)
        (use Cons.prems(1,4) below apply_command_window in \<open>auto simp: machine_inv_def\<close>)
    from Cons.IH [OF this run Cons.prems(3) inv1] show ?case .
  qed simp
  with assms(4) show ?thesis by (simp add: unfinalized_entries_def)
qed

text \<open>A committed invocation that is not finalized, and a begin that comes after its expiry.\<close>

definition ex_tail :: "RaftEntry list" where
  "ex_tail = take 3 ex_log @ [ex_entry 3 (BeginBatchCommand (ex_begin 0 98 (1 + ATOMIC_REPLAY_RETENTION_MILLIS)))]"

lemma ex_tail_runs: "\<not> isl (run_entries ex_bincode ex_start ex_tail)"
  by code_simp

lemma ex_unfinalized:
  "(2, snd (hd (committed_invocations (decisions (ex_state ex_tail 3)))))
     \<in> set (committed_invocations (decisions (ex_state ex_tail 3)))"
  "finalized_or_zero (decisions (ex_state ex_tail 4)) < 2"
  by code_simp+

lemma ex_tail_prepares:
  "preparing_batch (decisions (ex_state ex_tail 4)) \<noteq> None"
  by code_simp+

theorem unfinalized_kept_witness:
  "preparing_batch (decisions (ex_state ex_tail 4)) \<noteq> None \<and>
   (2, snd (hd (committed_invocations (decisions (ex_state ex_tail 3)))))
     \<in> set (unfinalized_entries (decisions (ex_state ex_tail 4)))"
  using unfinalized_kept [OF ex_reachable [OF ex_tail_runs] ex_unfinalized(1)
      ex_run_between [OF ex_tail_runs, of 3 4] ex_unfinalized(2)] ex_tail_prepares by simp

text \<open>C4. No run reports corrupt accounting, an exhausted byte counter, or a commit cursor that
  does not advance: these errors of the state machine are unreachable, as long as the log index
  has not reached its maximum.\<close>

theorem no_internal_errors:
  assumes "reachable B M0 config st" "apply_entry B st e = Inr (Rejected err, st')"
    and "\<forall>l. last_applied_log_id st = Some l \<longrightarrow> log_index l \<noteq> - 1"
  shows "\<not> internal_error err"
  using assms(2)
proof (cases rule: apply_entry_cases)
  case (refused c err')
  from no_commit_error_not_internal [OF no_commit_error_membership refused(3)] refused(2)
  show ?thesis by simp
next
  case (command c res d)
  have inv: "machine_inv B st" using assms(1) by (rule reachable_machine_inv)
  have "cur < log_index (entry_log_id e)" if cur: "last_commit_cursor (decisions st) = Some cur" for cur
  proof -
    from inv cur obtain l where l: "last_applied_log_id st = Some l" "cur \<le> log_index l"
      by (auto simp: machine_inv_def)
    with assms(3) have "log_index l < next_index (last_applied_log_id st)"
      by (intro next_index_gt) auto
    with l(2) command(6) show ?thesis by simp
  qed
  with inv command(3,4) show ?thesis
    by (intro apply_command_errors [of B "decisions st" "entry_log_id e" c])
      (auto simp: machine_inv_def split: sum.splits)
qed simp_all

definition ex_retry :: RaftEntry where
  "ex_retry = ex_entry 3 (CommitPreparedBatchCommand (ex_request 0 1 99))"

lemma ex_retry_rejected:
  "\<exists>st. apply_entry ex_bincode (ex_state ex_log 3) ex_retry = Inr (Rejected (BatchE NoPreparedBatch), st)"
proof -
  have "case apply_entry ex_bincode (ex_state ex_log 3) ex_retry of
      Inr (Rejected (BatchE NoPreparedBatch), st) \<Rightarrow> True | _ \<Rightarrow> False"
    by code_simp
  then show ?thesis
    by (auto split: sum.splits prod.splits DecisionApplyResult.splits ApplyError.splits BatchError.splits)
qed

theorem no_internal_errors_witness: "\<not> internal_error (BatchE NoPreparedBatch)"
proof -
  obtain st where st: "apply_entry ex_bincode (ex_state ex_log 3) ex_retry =
      Inr (Rejected (BatchE NoPreparedBatch), st)"
    using ex_retry_rejected by (elim exE)
  have "map_option log_index (last_applied_log_id (ex_state ex_log 3)) = Some 2" by code_simp
  then have "\<forall>l. last_applied_log_id (ex_state ex_log 3) = Some l \<longrightarrow> log_index l \<noteq> - 1" by auto
  from no_internal_errors [OF ex_reachable [OF ex_log_runs] st this] show ?thesis .
qed

text \<open>C5. When a membership transition finishes, the OpenRaft voters it was checked against are
  exactly as many as the fixed voter rule asks of the cluster it leaves, and each of them is an
  active node of that cluster.\<close>

theorem finished_transition_voters:
  assumes "reachable B M0 config st" "membership_wf (sm_membership (ms_membership st))"
    and "entry_payload e = Normal (CompleteMembershipTransition v started)"
    and "apply_entry B st e = Inr (Applied (MembershipTransitionFinished i), st')"
  shows "voters_fixed (sm_membership (ms_membership st)) (decisions st')"
  using assms(4)
proof (cases rule: apply_entry_cases)
  case (command c res d)
  have ok: "cluster_ok (cluster_control (decisions st))"
    using reachable_machine_inv [OF assms(1)] by (simp add: machine_inv_def)
  have c: "c = CompleteMembershipTransition v started" using command(1) assms(3) by simp
  have "validate_completion (sm_membership (ms_membership st)) (decisions st) started = Inr ()"
    using command(2) by (simp add: c validate_membership_command_def Let_def command_executor_def)
  moreover have "complete_membership_transition (decisions st) v started (entry_log_id e) =
      (Inr (MembershipTransitionFinished i), d)"
    using command(3,4) by (auto simp: c apply_command_def Let_def split: sum.splits)
  ultimately show ?thesis
    using completion_voters [OF ok assms(2)] command(5) by simp
qed simp_all

lemma ex_admission_facts:
  "length ex_admission = 4"
  "entry_payload (ex_admission ! 3) = Normal (CompleteMembershipTransition 1 1)"
  by (simp_all add: ex_admission_def ex_entry_def)

lemma ex_admitted:
  "ex_response ex_admission 3 = Applied (MembershipTransitionFinished 1)"
  "ms_membership (ex_state ex_admission 3) = ex_membership"
proof -
  have "case ex_response ex_admission 3 of Applied (MembershipTransitionFinished i) \<Rightarrow> i = 1 | _ \<Rightarrow> False"
    by code_simp
  then show "ex_response ex_admission 3 = Applied (MembershipTransitionFinished 1)"
    by (auto split: DecisionApplyResult.splits ApplyResult.splits)
  have keep: "ms_membership st' = ms_membership st"
    if "apply_entry B st e = Inr (r, st')" "\<forall>m. entry_payload e \<noteq> MembershipChange m" for B st e r st'
    using that by (auto simp: apply_entry_def split: EntryPayload.splits sum.splits prod.splits)
  have "ms_membership (ex_state ex_admission 3) = ms_membership ex_start"
    by (rule run_entries_keep [OF ex_run_prefix [OF ex_admission_runs],
          where P = "\<lambda>st. ms_membership st = ms_membership ex_start"])
      (auto simp: ex_admission_def ex_entry_def keep)
  then show "ms_membership (ex_state ex_admission 3) = ex_membership"
    by (simp add: ex_start_membership)
qed

theorem finished_transition_voters_witness:
  "voters_fixed (sm_membership ex_membership) (decisions (ex_state ex_admission 4))"
proof -
  have e: "apply_entry ex_bincode (ex_state ex_admission 3) (ex_admission ! 3) =
      Inr (Applied (MembershipTransitionFinished 1), ex_state ex_admission 4)"
    unfolding ex_admitted(1) [symmetric]
    by (rule ex_step [OF ex_admission_runs]) (simp_all add: ex_admission_facts)
  have "membership_wf (sm_membership (ms_membership (ex_state ex_admission 3)))"
    by (simp add: ex_admitted(2) membership_wf_def ex_membership_def)
  from finished_transition_voters [OF ex_reachable [OF ex_admission_runs] this
      ex_admission_facts(2) e]
  show ?thesis by (simp add: ex_admitted(2))
qed

text \<open>C6. The executor fence: a begin, commit, abort, finalization or bootstrap that does not carry
  the current nomination is rejected and changes nothing.\<close>

theorem stale_executor_rejected:
  assumes "command_fence c = Some f" "sm_executor s \<noteq> Some f"
  shows "\<exists>err. apply_command B s l c = (Inl err, s)"
  using assms by (rule apply_command_stale)

theorem stale_executor_rejected_witness:
  "\<exists>err. apply_command ex_bincode (decisions ex_start) (entry_log_id ex_retry)
     (CommitPreparedBatchCommand (ex_request 0 1 99)) = (Inl err, decisions ex_start)"
proof -
  have "command_fence (CommitPreparedBatchCommand (ex_request 0 1 99)) =
      Some \<lparr>en_executor = 1, en_nomination_log_index = 0\<rparr>"
    by (simp add: command_fence_def ex_request_def)
  moreover have "sm_executor (decisions ex_start) \<noteq> Some \<lparr>en_executor = 1, en_nomination_log_index = 0\<rparr>"
    by code_simp
  ultimately show ?thesis by (rule stale_executor_rejected)
qed

text \<open>C7. Handover: a nomination keeps the batch in preparation, with its cursor, identity and
  contents, and moves its fence to the new executor, whose commit request then passes both the
  executor and the identity check.\<close>

theorem nomination_hands_over:
  assumes "preparing_batch s = Some p" "validate_node e = Inr ()"
  shows "let s' = snd (nominate_executor s e i);
             q = \<lparr>pr_executor = e, pr_nomination_log_index = i, pr_begin_cursor = pb_begin_cursor p,
                  pr_invocation_id = bb_invocation_id (pb_request p),
                  pr_participant_manifest_hash = bb_participant_manifest_hash (pb_request p)\<rparr>;
             p' = p\<lparr>pb_request := (pb_request p)\<lparr>bb_executor := e, bb_nomination_log_index := i\<rparr>\<rparr>
         in preparing_batch s' = Some p' \<and> require_executor s' e i = Inr ()
            \<and> validate_prepared_identity p' q = Inr ()
            \<and> committed_invocations s' = committed_invocations s"
  using assms
  by (simp add: nominate_executor_def Let_def require_executor_Inr validate_prepared_identity_def)

theorem nomination_hands_over_witness:
  "preparing_batch (snd (nominate_executor (decisions (ex_state ex_log 2)) 2 9)) =
     Some \<lparr>pb_begin_cursor = 1, pb_request =
       (ex_begin 0 99 1)\<lparr>bb_executor := 2, bb_nomination_log_index := 9\<rparr>\<rparr>"
proof -
  have p: "preparing_batch (decisions (ex_state ex_log 2)) =
      Some \<lparr>pb_begin_cursor = 1, pb_request = ex_begin 0 99 1\<rparr>"
    by code_simp
  have "validate_node 2 = Inr ()" by code_simp
  from nomination_hands_over [OF p this, of 9] show ?thesis by (simp add: Let_def)
qed

text \<open>C8. Along every run the commit cursor and the finalization watermark only move forward, an
  admitted node identity is never forgotten, a retired one never returns, the cluster identity,
  the signing-key fingerprint and the erasure profile never change once set, and a cluster that
  has an active node keeps one.\<close>

theorem runs_only_grow:
  assumes "reachable B M0 config st" "run_entries B st es = Inr st'"
  shows "run_grows (decisions st) (decisions st')"
  using run_grows_run [OF assms(2) reachable_machine_inv [OF assms(1)]] .

theorem runs_only_grow_witness:
  "run_grows (decisions (ex_state ex_log 3)) (decisions (ex_state ex_log 5))"
proof -
  have "run_entries ex_bincode (ex_state ex_log 3) (drop 3 (take 5 ex_log)) = Inr (ex_state ex_log 5)"
    by (rule ex_run_between [OF ex_log_runs]) simp
  from runs_only_grow [OF ex_reachable [OF ex_log_runs] this] show ?thesis .
qed

text \<open>What a completion that names the transition in progress is refused for.\<close>

lemma validate_completion_refused:
  assumes "cluster_ok (cluster_control s)" "cc_transition (cluster_control s) = Some t"
    and "validate_completion m s (started_log_index t) = Inl err"
  shows "mt_kind t \<noteq> TransitionRemove \<and> mb_get_node m (mt_node_id t) = None \<and>
      err = MembershipE (TransitionNodeNotCurrentMember (mt_node_id t)) \<or>
    mt_kind t = TransitionRemove \<and> mb_get_node m (mt_node_id t) \<noteq> None \<and>
      err = MembershipE (RemovingNodeIsStillMember (mt_node_id t)) \<or>
    mt_kind t \<noteq> TransitionRemove \<and> validate_fixed_voters m s = Inl err \<or>
    mt_kind t = TransitionRemove \<and>
      validate_voters m s (min (active_node_count (cluster_control s) - 1) FIXED_VOTER_TARGET) = Inl err"
proof -
  from assms(1,2) obtain d where "bt_get (cc_nodes (cluster_control s)) (mt_node_id t) = Some d"
    by (auto simp: cluster_ok_def transition_ok_def)
  then show ?thesis using assms(2,3)
    by (cases "mt_kind t")
      (auto simp: validate_completion_def Let_def result_simps split: if_splits)
qed

lemma complete_transition_refused:
  assumes "cluster_ok (cluster_control s)" "cc_transition (cluster_control s) = Some t"
    and "complete_membership_transition s v (started_log_index t) log = (Inl err, s')"
  shows "s' = s \<and> (require_cluster_control s v = Inl err \<or>
    err = MembershipE ActiveNodeLacksCapability \<and> mt_kind t = TransitionAdd)"
proof (cases "require_cluster_control s v")
  case (Inl e)
  then show ?thesis using assms(3) by (simp add: complete_membership_transition_def)
next
  case (Inr u)
  from assms(1,2) show ?thesis
    by (cases rule: transition_step_cases)
      (use assms(2,3) Inr in \<open>auto simp: complete_membership_transition_def step_result_def Let_def\<close>)
qed

lemma validate_voters_errors:
  "validate_voters m s n = Inl err \<Longrightarrow> err \<noteq> MembershipE MembershipTransitionStateMismatch"
  by (auto simp: validate_voters_def Let_def result_simps dest!: forE_eq_Inl)

text \<open>C9. Completing the transition in progress never finds the cluster in a state that does not
  match the transition. When a machine in a reachable state refuses the completion that names it,
  its decisions stay as they were and the reason is one of these: the node of an ADD or REWEIGHT is
  not a Raft member, the node of a REMOVE still is one, the Raft voters are not the expected number
  of active nodes, the command has another format version, the cluster has no identity yet, or the
  node to activate lacks a capability.\<close>

theorem completion_never_mismatches:
  assumes "reachable B M0 config st"
    and "cc_transition (cluster_control (decisions st)) = Some t"
    and "entry_payload e = Normal (CompleteMembershipTransition v (started_log_index t))"
    and "apply_entry B st e = Inr (Rejected err, st')"
  defines "m \<equiv> sm_membership (ms_membership st)" and "s \<equiv> decisions st"
  shows "decisions st' = s \<and> err \<noteq> MembershipE MembershipTransitionStateMismatch \<and>
    (mt_kind t \<noteq> TransitionRemove \<and> mb_get_node m (mt_node_id t) = None \<and>
       err = MembershipE (TransitionNodeNotCurrentMember (mt_node_id t)) \<or>
     mt_kind t = TransitionRemove \<and> mb_get_node m (mt_node_id t) \<noteq> None \<and>
       err = MembershipE (RemovingNodeIsStillMember (mt_node_id t)) \<or>
     mt_kind t \<noteq> TransitionRemove \<and> validate_fixed_voters m s = Inl err \<or>
     mt_kind t = TransitionRemove \<and>
       validate_voters m s (min (active_node_count (cluster_control s) - 1) FIXED_VOTER_TARGET) = Inl err \<or>
     v \<noteq> CLUSTER_CONTROL_COMMAND_VERSION \<and> err = ClusterE (UnsupportedClusterControlVersion v) \<or>
     sm_cluster_id s = None \<and> err = ClusterE ClusterNotInitialized \<or>
     mt_kind t = TransitionAdd \<and> err = MembershipE ActiveNodeLacksCapability)"
proof -
  have ok: "cluster_ok (cluster_control s)"
    using reachable_machine_inv [OF assms(1)] by (simp add: machine_inv_def s_def)
  note t = assms(2) [folded s_def]
  have control: "require_cluster_control s v = Inl err \<Longrightarrow>
      v \<noteq> CLUSTER_CONTROL_COMMAND_VERSION \<and> err = ClusterE (UnsupportedClusterControlVersion v) \<or>
      sm_cluster_id s = None \<and> err = ClusterE ClusterNotInitialized"
    by (auto simp: require_cluster_control_def result_simps)
  have voters: "validate_fixed_voters m s = Inl err \<Longrightarrow> err \<noteq> MembershipE MembershipTransitionStateMismatch"
    by (simp add: validate_fixed_voters_def validate_voters_errors)
  from assms(4) show ?thesis
  proof (cases rule: apply_entry_cases)
    case (refused c err')
    with assms(3) have "validate_completion m s (started_log_index t) = Inl err" "decisions st' = s"
      by (auto simp: validate_membership_command_def command_executor_def m_def s_def bindE_eq_Inl)
    then show ?thesis
      using validate_completion_refused [OF ok t] voters validate_voters_errors by blast
  next
    case (command c res d)
    with assms(3) have "complete_membership_transition s v (started_log_index t) (entry_log_id e) = (res, d)"
      "res = Inl err" "decisions st' = d"
      by (auto simp: apply_command_def s_def split: sum.splits)
    with complete_transition_refused [OF ok t] have "decisions st' = s \<and> (require_cluster_control s v = Inl err \<or>
        err = MembershipE ActiveNodeLacksCapability \<and> mt_kind t = TransitionAdd)" by blast
    then show ?thesis using control by auto
  qed simp_all
qed

definition ex_old_descriptor :: NodeDescriptor where
  "ex_old_descriptor = ex_descriptor\<lparr>supported_protocol := \<lparr>range_min = 2, range_max = 2\<rparr>\<rparr>"

definition ex_refused :: "RaftEntry list" where
  "ex_refused = [ex_entry 0 (InitializeCluster 7), ex_entry 1 (BeginAddNode 1 ex_old_descriptor)]"

lemma ex_refused_runs: "\<not> isl (run_entries ex_bincode ex_start ex_refused)"
  by code_simp

definition ex_transition :: MembershipTransition where
  "ex_transition = \<lparr>mt_kind = TransitionAdd, mt_node_id = 1, started_log_index = 1,
     target_weight_millionths = Some 5\<rparr>"

definition ex_complete :: RaftEntry where
  "ex_complete = ex_entry 2 (CompleteMembershipTransition 1 1)"

lemma ex_complete_refused:
  "\<exists>st. apply_entry ex_bincode (ex_state ex_refused 2) ex_complete =
     Inr (Rejected (MembershipE ActiveNodeLacksCapability), st)"
proof -
  have "case apply_entry ex_bincode (ex_state ex_refused 2) ex_complete of
      Inr (Rejected err, st) \<Rightarrow> err = MembershipE ActiveNodeLacksCapability | _ \<Rightarrow> False"
    by code_simp
  then show ?thesis by (auto split: sum.splits DecisionApplyResult.splits prod.splits)
qed

theorem completion_never_mismatches_witness:
  "\<exists>st. apply_entry ex_bincode (ex_state ex_refused 2) ex_complete =
     Inr (Rejected (MembershipE ActiveNodeLacksCapability), st) \<and>
     decisions st = decisions (ex_state ex_refused 2)"
proof -
  have t: "cc_transition (cluster_control (decisions (ex_state ex_refused 2))) = Some ex_transition"
    by code_simp
  have e: "entry_payload ex_complete = Normal (CompleteMembershipTransition 1 (started_log_index ex_transition))"
    by (simp add: ex_complete_def ex_entry_def ex_transition_def)
  obtain st where "apply_entry ex_bincode (ex_state ex_refused 2) ex_complete =
      Inr (Rejected (MembershipE ActiveNodeLacksCapability), st)"
    using ex_complete_refused by blast
  with completion_never_mismatches [OF ex_reachable [OF ex_refused_runs] t e this] show ?thesis by blast
qed

end
