(* ===== verification/Raft_Storage.thy ===== *)
theory Raft_Storage
  imports Decision_Runs
begin

text \<open>
  The durable side of a consensus node: the RocksDB column families of
  \<^verbatim>\<open>keldra-consensus/src/raft_storage.rs\<close> (Raft log, metadata, journal of applied entries) and
  the operations of \<^verbatim>\<open>raft.rs\<close> that OpenRaft calls on them: applying entries, building and
  installing a snapshot, and loading the machine at start-up.

  RocksDB is outside the sources. A column family is the ordered map of what it holds, a write
  batch is a list of operations that takes effect as a whole, and \<open>io\<close> is the error RocksDB
  returned for a write, if any. Keys of the two entry families are the big-endian log indexes, so
  the maps are keyed by the index. Failing reads and a poisoned lock are not modelled: they
  return an error and touch nothing. How a value is serialized is a \<open>Serde\<close> argument.
\<close>

section \<open>Data\<close>

record SnapshotMeta =
  snap_last_log_id :: "LogId option"
  snap_last_membership :: StoredMembership
  snapshot_id :: string

record DurableSnapshot =
  snap_meta :: SnapshotMeta
  snap_data :: "u8 list"

datatype DurableStorageError =
    Rocks string
  | Codec CodecError
  | ConfigurationMismatch StorageConfig StorageConfig
  | NodeIdentityMismatch u64 u64
  | LogHole u64 u64
  | NonConsecutive u64 u64
  | TruncatePurged u64 u64
  | PurgeRegression u64 u64
  | IncompleteSnapshot

record RaftSerde =
  entry_serde :: "RaftEntry Serde"
  log_id_serde :: "LogId Serde"
  config_serde :: "StorageConfig Serde"
  node_id_serde :: "u64 Serde"
  meta_serde :: "SnapshotMeta Serde"
  machine_serde :: "MachineState Serde"

record Db =
  db_log :: "(u64, u8 list) btree"
  db_meta :: "(string, u8 list) btree"
  db_applied :: "(u64, u8 list) btree"

definition KEY_STORAGE_CONFIG :: string where "KEY_STORAGE_CONFIG = ''storage-config-v1''"
definition KEY_LOCAL_NODE_ID :: string where "KEY_LOCAL_NODE_ID = ''local-node-id''"
definition KEY_VOTE :: string where "KEY_VOTE = ''vote''"
definition KEY_LAST_LOG_ID :: string where "KEY_LAST_LOG_ID = ''last-log-id''"
definition KEY_LAST_PURGED_LOG_ID :: string where "KEY_LAST_PURGED_LOG_ID = ''last-purged-log-id''"
definition KEY_SNAPSHOT_META :: string where "KEY_SNAPSHOT_META = ''snapshot-meta''"
definition KEY_SNAPSHOT_DATA :: string where "KEY_SNAPSHOT_DATA = ''snapshot-data''"

section \<open>Write batches\<close>

text \<open>The two range deletions are from a key to one past an inclusive end
  (\<^verbatim>\<open>log_range_end_inclusive\<close>).\<close>

datatype WriteOp =
    PutLog u64 "u8 list"
  | PutApplied u64 "u8 list"
  | PutMeta string "u8 list"
  | DeleteMeta string
  | DeleteLogRange u64 u64
  | DeleteAppliedRange u64 u64

definition delete_range :: "u64 \<Rightarrow> u64 \<Rightarrow> (u64, 'v) btree \<Rightarrow> (u64, 'v) btree" where
  "delete_range from through m = filter (\<lambda>e. \<not> (from \<le> fst e \<and> fst e \<le> through)) m"

fun write_op :: "Db \<Rightarrow> WriteOp \<Rightarrow> Db" where
  "write_op db (PutLog k v) = db\<lparr>db_log := bt_insert k v (db_log db)\<rparr>"
| "write_op db (PutApplied k v) = db\<lparr>db_applied := bt_insert k v (db_applied db)\<rparr>"
| "write_op db (PutMeta k v) = db\<lparr>db_meta := bt_insert k v (db_meta db)\<rparr>"
| "write_op db (DeleteMeta k) = db\<lparr>db_meta := bt_remove k (db_meta db)\<rparr>"
| "write_op db (DeleteLogRange a b) = db\<lparr>db_log := delete_range a b (db_log db)\<rparr>"
| "write_op db (DeleteAppliedRange a b) = db\<lparr>db_applied := delete_range a b (db_applied db)\<rparr>"

definition sync_write ::
    "string option \<Rightarrow> Db \<Rightarrow> WriteOp list \<Rightarrow> (DurableStorageError + unit) \<times> Db" where
  "sync_write io db batch =
     (case io of
        Some e \<Rightarrow> (Inl (Rocks e), db)
      | None \<Rightarrow> (Inr (), foldl write_op db batch))"

section \<open>Metadata\<close>

definition read_meta ::
    "'a Serde \<Rightarrow> Db \<Rightarrow> string \<Rightarrow> DurableStorageError + 'a option" where
  "read_meta S db key =
     (case bt_get (db_meta db) key of
        None \<Rightarrow> Inr None
      | Some bytes \<Rightarrow> bindE (map_err Codec (decode_record S bytes)) (\<lambda>v. Inr (Some v)))"

definition write_meta_sync ::
    "'a Serde \<Rightarrow> string option \<Rightarrow> Db \<Rightarrow> string \<Rightarrow> 'a \<Rightarrow> (DurableStorageError + unit) \<times> Db" where
  "write_meta_sync S io db key v =
     tryS (map_err Codec (encode_record S v)) db (\<lambda>bytes. sync_write io db [PutMeta key bytes])"

definition save_vote ::
    "'v Serde \<Rightarrow> string option \<Rightarrow> Db \<Rightarrow> 'v \<Rightarrow> (DurableStorageError + unit) \<times> Db" where
  "save_vote S io db vote = write_meta_sync S io db KEY_VOTE vote"

definition read_vote :: "'v Serde \<Rightarrow> Db \<Rightarrow> DurableStorageError + 'v option" where
  "read_vote S db = read_meta S db KEY_VOTE"

definition last_purged_log_id :: "RaftSerde \<Rightarrow> Db \<Rightarrow> DurableStorageError + LogId option" where
  "last_purged_log_id S db = read_meta (log_id_serde S) db KEY_LAST_PURGED_LOG_ID"

definition last_log_id :: "RaftSerde \<Rightarrow> Db \<Rightarrow> DurableStorageError + LogId option" where
  "last_log_id S db = read_meta (log_id_serde S) db KEY_LAST_LOG_ID"

definition open_store ::
    "RaftSerde \<Rightarrow> string option \<Rightarrow> Db \<Rightarrow> StorageConfig \<Rightarrow> u64 \<Rightarrow>
       (DurableStorageError + unit) \<times> Db" where
  "open_store S io db requested node =
     tryS (read_meta (config_serde S) db KEY_STORAGE_CONFIG) db (\<lambda>stored_config.
     tryS (case stored_config of
             Some stored \<Rightarrow> ensure (stored = requested) (ConfigurationMismatch stored requested)
           | None \<Rightarrow> Inr ()) db (\<lambda>_.
     tryS (read_meta (node_id_serde S) db KEY_LOCAL_NODE_ID) db (\<lambda>stored_node.
     tryS (case stored_node of
             Some stored \<Rightarrow> ensure (stored = node) (NodeIdentityMismatch stored node)
           | None \<Rightarrow> Inr ()) db (\<lambda>_.
     let (r1, db1) = (if stored_config = None
                      then write_meta_sync (config_serde S) io db KEY_STORAGE_CONFIG requested
                      else (Inr (), db)) in
     tryS r1 db1 (\<lambda>_.
     if stored_node = None then write_meta_sync (node_id_serde S) io db1 KEY_LOCAL_NODE_ID node
     else (Inr (), db1))))))"

section \<open>The Raft log\<close>

fun check_consecutive :: "RaftEntry list \<Rightarrow> DurableStorageError + unit" where
  "check_consecutive (a # b # es) =
     bindE (ensure (log_index (entry_log_id b) = log_index (entry_log_id a) + 1)
              (NonConsecutive (log_index (entry_log_id a)) (log_index (entry_log_id b)))) (\<lambda>_.
     check_consecutive (b # es))"
| "check_consecutive _ = Inr ()"

definition encode_entries ::
    "RaftSerde \<Rightarrow> (u64 \<Rightarrow> u8 list \<Rightarrow> WriteOp) \<Rightarrow> RaftEntry list \<Rightarrow>
       DurableStorageError + WriteOp list" where
  "encode_entries S put es =
     mapE (\<lambda>e. bindE (map_err Codec (encode_record (entry_serde S) e)) (\<lambda>bytes.
              Inr (put (log_index (entry_log_id e)) bytes))) es"

definition append_logs ::
    "RaftSerde \<Rightarrow> string option \<Rightarrow> Db \<Rightarrow> RaftEntry list \<Rightarrow> (DurableStorageError + unit) \<times> Db" where
  "append_logs S io db entries =
     (if entries = [] then (Inr (), db)
      else
      tryS (check_consecutive entries) db (\<lambda>_.
      tryS (last_log_id S db) db (\<lambda>last_id.
      tryS (last_purged_log_id S db) db (\<lambda>purged.
      let expected = next_index (if last_id = None then purged else last_id);
          received = log_index (entry_log_id (hd entries)) in
      tryS (ensure (received = expected) (LogHole expected received)) db (\<lambda>_.
      tryS (encode_entries S PutLog entries) db (\<lambda>puts.
      tryS (map_err Codec (encode_record (log_id_serde S) (entry_log_id (last entries)))) db
        (\<lambda>bytes.
      sync_write io db (puts @ [PutMeta KEY_LAST_LOG_ID bytes]))))))))"

datatype IndexBound = Included u64 | Excluded u64 | Unbounded

definition range_start :: "IndexBound \<Rightarrow> u64" where
  "range_start b = (case b of Included v \<Rightarrow> v | Excluded v \<Rightarrow> saturating_add v 1 | Unbounded \<Rightarrow> 0)"

definition range_end :: "IndexBound \<Rightarrow> u64" where
  "range_end b = (case b of Included v \<Rightarrow> saturating_add v 1 | Excluded v \<Rightarrow> v | Unbounded \<Rightarrow> - 1)"

definition scan_logs ::
    "RaftSerde \<Rightarrow> Db \<Rightarrow> IndexBound \<Rightarrow> IndexBound \<Rightarrow> DurableStorageError + RaftEntry list" where
  "scan_logs S db lower upper =
     mapE (\<lambda>(_, bytes). map_err Codec (decode_record (entry_serde S) bytes))
       (takeWhile (\<lambda>(k, _). k < range_end upper)
          (dropWhile (\<lambda>(k, _). k < range_start lower) (db_log db)))"

definition truncate_logs ::
    "RaftSerde \<Rightarrow> string option \<Rightarrow> Db \<Rightarrow> u64 \<Rightarrow> (DurableStorageError + unit) \<times> Db" where
  "truncate_logs S io db from =
     tryS (last_purged_log_id S db) db (\<lambda>purged.
     tryS (case purged of
             Some p \<Rightarrow> ensure (log_index p < from) (TruncatePurged from (log_index p))
           | None \<Rightarrow> Inr ()) db (\<lambda>_.
     tryS (last_log_id S db) db (\<lambda>last_id.
     let deletes = (case last_id of
                      Some l \<Rightarrow> if from \<le> log_index l then [DeleteLogRange from (log_index l)] else []
                    | None \<Rightarrow> []) in
     tryS (if from = 0 then Inr None
           else (case bt_get (db_log db) (from - 1) of
                   None \<Rightarrow> Inr None
                 | Some bytes \<Rightarrow>
                     bindE (map_err Codec (decode_record (entry_serde S) bytes))
                       (\<lambda>e. Inr (Some e)))) db (\<lambda>previous.
     tryS (case previous of
             Some e \<Rightarrow> bindE (map_err Codec (encode_record (log_id_serde S) (entry_log_id e)))
                         (\<lambda>bytes. Inr (PutMeta KEY_LAST_LOG_ID bytes))
           | None \<Rightarrow> Inr (DeleteMeta KEY_LAST_LOG_ID)) db (\<lambda>op.
     sync_write io db (deletes @ [op]))))))"

definition purge_logs ::
    "RaftSerde \<Rightarrow> string option \<Rightarrow> Db \<Rightarrow> LogId \<Rightarrow> (DurableStorageError + unit) \<times> Db" where
  "purge_logs S io db through =
     tryS (last_purged_log_id S db) db (\<lambda>purged.
     tryS (case purged of
             Some p \<Rightarrow> ensure (log_index p \<le> log_index through)
                         (PurgeRegression (log_index p) (log_index through))
           | None \<Rightarrow> Inr ()) db (\<lambda>_.
     tryS (map_err Codec (encode_record (log_id_serde S) through)) db (\<lambda>bytes.
     tryS (last_log_id S db) db (\<lambda>last_id.
     sync_write io db
       ([DeleteLogRange 0 (log_index through), PutMeta KEY_LAST_PURGED_LOG_ID bytes] @
        (case last_id of
           Some l \<Rightarrow> if log_index l \<le> log_index through then [DeleteMeta KEY_LAST_LOG_ID] else []
         | None \<Rightarrow> []))))))"

definition get_log_state ::
    "RaftSerde \<Rightarrow> Db \<Rightarrow> DurableStorageError + (LogId option \<times> LogId option)" where
  "get_log_state S db =
     bindE (last_purged_log_id S db) (\<lambda>purged.
     bindE (last_log_id S db) (\<lambda>last_id.
     Inr (purged, if last_id = None then purged else last_id)))"

section \<open>Applied journal and snapshots\<close>

definition append_applied ::
    "RaftSerde \<Rightarrow> string option \<Rightarrow> Db \<Rightarrow> RaftEntry list \<Rightarrow> (DurableStorageError + unit) \<times> Db" where
  "append_applied S io db entries =
     (if entries = [] then (Inr (), db)
      else tryS (encode_entries S PutApplied entries) db (sync_write io db))"

definition scan_applied :: "RaftSerde \<Rightarrow> Db \<Rightarrow> DurableStorageError + RaftEntry list" where
  "scan_applied S db =
     mapE (\<lambda>(_, bytes). map_err Codec (decode_record (entry_serde S) bytes)) (db_applied db)"

definition save_snapshot ::
    "RaftSerde \<Rightarrow> string option \<Rightarrow> Db \<Rightarrow> DurableSnapshot \<Rightarrow> bool \<Rightarrow>
       (DurableStorageError + unit) \<times> Db" where
  "save_snapshot S io db snapshot clear_all_applied =
     tryS (map_err Codec (encode_record (meta_serde S) (snap_meta snapshot))) db (\<lambda>meta.
     tryS (map_err Codec (wrap_record (snap_data snapshot))) db (\<lambda>data.
     let through = (if clear_all_applied then Some (- 1)
                    else map_option log_index (snap_last_log_id (snap_meta snapshot))) in
     sync_write io db
       ([PutMeta KEY_SNAPSHOT_META meta, PutMeta KEY_SNAPSHOT_DATA data] @
        (case through of Some t \<Rightarrow> [DeleteAppliedRange 0 t] | None \<Rightarrow> []))))"

definition load_snapshot :: "RaftSerde \<Rightarrow> Db \<Rightarrow> DurableStorageError + DurableSnapshot option" where
  "load_snapshot S db =
     bindE (read_meta (meta_serde S) db KEY_SNAPSHOT_META) (\<lambda>meta.
     (case (meta, bt_get (db_meta db) KEY_SNAPSHOT_DATA) of
        (None, None) \<Rightarrow> Inr None
      | (Some m, Some data) \<Rightarrow>
          bindE (map_err Codec (record_payload data)) (\<lambda>payload.
          Inr (Some \<lparr>snap_meta = m, snap_data = payload\<rparr>))
      | _ \<Rightarrow> Inl IncompleteSnapshot))"

section \<open>A node: its database and its machine\<close>

datatype NodeError =
    StoreFailure DurableStorageError
  | CodecFailure CodecError
  | JournalText string
  | MembershipFailure MembershipText
  | MachineRejected ApplyError

definition replay_journal ::
    "Bincode \<Rightarrow> MachineState \<Rightarrow> RaftEntry list \<Rightarrow> string + MachineState" where
  "replay_journal B st es =
     foldE (\<lambda>st e.
        if (case last_applied_log_id st of
              Some l \<Rightarrow> log_index (entry_log_id e) \<le> log_index l | None \<Rightarrow> False)
        then Inr st
        else bindE (apply_entry B st e) (\<lambda>(_, st'). Inr st')) st es"

definition load_base ::
    "Bincode \<Rightarrow> StoredMembership \<Rightarrow> RaftSerde \<Rightarrow> StorageConfig \<Rightarrow> Db \<Rightarrow> NodeError + MachineState" where
  "load_base B M0 S config db =
     bindE (map_err StoreFailure (load_snapshot S db)) (\<lambda>snapshot.
     (case snapshot of
        Some sn \<Rightarrow>
          bindE (map_err CodecFailure (decode_record (machine_serde S) (snap_data sn))) (\<lambda>st.
          bindE (ensure (last_applied_log_id st = snap_last_log_id (snap_meta sn)
                         \<and> ms_membership st = snap_last_membership (snap_meta sn))
                   (JournalText ''durable snapshot body does not match metadata'')) (\<lambda>_.
          bindE (map_err JournalText (validate_config st config)) (\<lambda>_.
          Inr st)))
      | None \<Rightarrow> map_err MachineRejected (new_machine B M0 config)))"

definition load_machine ::
    "Bincode \<Rightarrow> StoredMembership \<Rightarrow> RaftSerde \<Rightarrow> StorageConfig \<Rightarrow> Db \<Rightarrow> NodeError + MachineState" where
  "load_machine B M0 S config db =
     bindE (load_base B M0 S config db) (\<lambda>base.
     bindE (map_err StoreFailure (scan_applied S db)) (\<lambda>es.
     bindE (map_err JournalText (replay_journal B base es)) (\<lambda>st.
     bindE (map_err MembershipFailure (validate_cluster_membership st)) (\<lambda>_.
     Inr st))))"

type_synonym node = "Db \<times> MachineState"

fun apply_loop ::
    "Bincode \<Rightarrow> MachineState \<Rightarrow> RaftEntry list \<Rightarrow>
       (NodeError + DecisionApplyResult list) \<times> MachineState" where
  "apply_loop B st [] = (Inr [], st)"
| "apply_loop B st (e # es) =
     (case apply_entry B st e of
        Inl text \<Rightarrow> (Inl (JournalText text), st)
      | Inr (r, st1) \<Rightarrow>
          (case apply_loop B st1 es of
             (Inr rs, st2) \<Rightarrow> (Inr (r # rs), st2)
           | (Inl err, st2) \<Rightarrow> (Inl err, st2)))"

text \<open>\<^verbatim>\<open>apply\<close> checks the sequence and writes the journal before it locks the machine again
  and applies the entries: \<open>journal_batch\<close> and \<open>apply_loop\<close> are its two halves.\<close>

definition journal_batch ::
    "RaftSerde \<Rightarrow> string option \<Rightarrow> Db \<Rightarrow> MachineState \<Rightarrow> RaftEntry list \<Rightarrow> (NodeError + unit) \<times> Db" where
  "journal_batch S io db st entries =
     tryS (map_err JournalText (validate_applied_entry_sequence (last_applied_log_id st) entries))
       db (\<lambda>_.
     let (appended, db1) = append_applied S io db entries in
     tryS (map_err StoreFailure appended) db1 (\<lambda>_. (Inr (), db1)))"

definition apply_batch ::
    "Bincode \<Rightarrow> RaftSerde \<Rightarrow> string option \<Rightarrow> node \<Rightarrow> RaftEntry list \<Rightarrow>
       (NodeError + DecisionApplyResult list) \<times> node" where
  "apply_batch B S io n entries =
     (let (db, st) = n; (journaled, db1) = journal_batch S io db st entries in
      tryS journaled (db1, st) (\<lambda>_.
      let (result, st1) = apply_loop B st entries in
      (result, (db1, st1))))"

text \<open>\<^verbatim>\<open>build_snapshot\<close> clones the machine under its lock and writes the clone later:
  \<open>snapshot_clone\<close> and \<open>snapshot_save\<close> are its two halves. The identifier of a snapshot
  does not enter any check; \<open>name\<close> stands for its text.\<close>

definition snapshot_clone :: "MachineState \<Rightarrow> MachineState" where
  "snapshot_clone st = st\<lparr>snapshot_generation := saturating_add (snapshot_generation st) 1\<rparr>"

definition snapshot_save ::
    "RaftSerde \<Rightarrow> string option \<Rightarrow> string \<Rightarrow> Db \<Rightarrow> MachineState \<Rightarrow>
       (NodeError + DurableSnapshot) \<times> Db" where
  "snapshot_save S io name db state =
     tryS (map_err MembershipFailure (validate_cluster_membership state)) db (\<lambda>_.
     tryS (map_err CodecFailure (encode_record (machine_serde S) state)) db (\<lambda>data.
     let durable = \<lparr>snap_meta = \<lparr>snap_last_log_id = last_applied_log_id state,
                                 snap_last_membership = ms_membership state,
                                 snapshot_id = name\<rparr>,
                    snap_data = data\<rparr>;
         (saved, db1) = save_snapshot S io db durable False in
     tryS (map_err StoreFailure saved) db1 (\<lambda>_. (Inr durable, db1))))"

definition build_snapshot ::
    "RaftSerde \<Rightarrow> string option \<Rightarrow> string \<Rightarrow> node \<Rightarrow> (NodeError + DurableSnapshot) \<times> node" where
  "build_snapshot S io name n =
     (let (db, st) = n; state = snapshot_clone st;
          (result, db1) = snapshot_save S io name db state in
      (result, (db1, state)))"

text \<open>\<^verbatim>\<open>install_snapshot\<close> writes the snapshot and then locks the machine and replaces it:
  \<open>install_write\<close> is its first half, with the decoded machine as its value.\<close>

definition install_write ::
    "RaftSerde \<Rightarrow> string option \<Rightarrow> StorageConfig \<Rightarrow> Db \<Rightarrow> SnapshotMeta \<Rightarrow> u8 list \<Rightarrow>
       (NodeError + MachineState) \<times> Db" where
  "install_write S io config db meta data =
     tryS (map_err CodecFailure (decode_record (machine_serde S) data)) db (\<lambda>state.
     tryS (ensure (last_applied_log_id state = snap_last_log_id meta
                   \<and> ms_membership state = snap_last_membership meta
                   \<and> max_commit_entries (decisions state) = config_max_commit_entries config
                   \<and> max_commit_bytes (decisions state) = config_max_commit_bytes config)
             (JournalText
               ''snapshot body does not match metadata or fixed cluster configuration'')) db (\<lambda>_.
     tryS (map_err MembershipFailure (validate_cluster_membership state)) db (\<lambda>_.
     let (saved, db1) = save_snapshot S io db \<lparr>snap_meta = meta, snap_data = data\<rparr> True in
     tryS (map_err StoreFailure saved) db1 (\<lambda>_. (Inr state, db1)))))"

definition install_snapshot ::
    "RaftSerde \<Rightarrow> string option \<Rightarrow> StorageConfig \<Rightarrow> node \<Rightarrow> SnapshotMeta \<Rightarrow> u8 list \<Rightarrow>
       (NodeError + unit) \<times> node" where
  "install_snapshot S io config n meta data =
     (let (db, st) = n; (written, db1) = install_write S io config db meta data in
      tryS written (db1, st) (\<lambda>state. (Inr (), (db1, state))))"

section \<open>Reading and writing the journal\<close>

abbreviation entry_index :: "RaftEntry \<Rightarrow> u64" where
  "entry_index e \<equiv> log_index (entry_log_id e)"

definition journal_of :: "RaftSerde \<Rightarrow> (u64, u8 list) btree \<Rightarrow> RaftEntry list \<Rightarrow> bool" where
  "journal_of S m es \<longleftrightarrow>
     list_all2 (\<lambda>(k, bytes) e. decode_record (entry_serde S) bytes = Inr e \<and> k = entry_index e) m es"

lemma journal_of_append:
  "journal_of S m es \<Longrightarrow> journal_of S m' es' \<Longrightarrow> journal_of S (m @ m') (es @ es')"
  by (simp add: journal_of_def list_all2_appendI)

lemma journal_of_keys: "journal_of S m es \<Longrightarrow> map fst m = map entry_index es"
  unfolding journal_of_def by (induction rule: list_all2_induct) auto

lemma scan_applied_journal: "journal_of S (db_applied db) es \<Longrightarrow> scan_applied S db = Inr es"
  unfolding scan_applied_def mapE_eq_Inr journal_of_def
  by (erule list_all2_mono) auto

text \<open>Writing entries above everything a family holds appends them to it.\<close>

lemma encode_entries_Inr:
  assumes "serde_ok (entry_serde S)" "encode_entries S put es = Inr ops"
  obtains m where "ops = map (\<lambda>(k, bytes). put k bytes) m" "journal_of S m es"
proof -
  from assms(2) have "\<exists>m. ops = map (\<lambda>(k, bytes). put k bytes) m \<and> journal_of S m es"
  proof (induction es arbitrary: ops)
    case (Cons e es)
    then obtain bytes m rest where b: "encode_record (entry_serde S) e = Inr bytes"
      and m: "rest = map (\<lambda>(k, bytes). put k bytes) m" "journal_of S m es"
      and ops: "ops = put (entry_index e) bytes # rest"
      by (auto simp: encode_entries_def)
    have "journal_of S ((entry_index e, bytes) # m) (e # es)"
      using m(2) decode_encode_record [OF assms(1) b] by (simp add: journal_of_def)
    with ops m(1) show ?case by (intro exI [of _ "(entry_index e, bytes) # m"]) simp
  qed (simp add: encode_entries_def journal_of_def)
  with that show ?thesis by blast
qed

lemma inserts_above:
  assumes "sorted_wrt (<) (map fst m')" "\<forall>k \<in> fst ` set m. \<forall>k' \<in> fst ` set m'. k < k'"
  shows "foldl (\<lambda>m (k, v). bt_insert k v m) m m' = m @ m'"
  using assms
proof (induction m' arbitrary: m)
  case (Cons e m')
  obtain k v where e: "e = (k, v)" by (cases e)
  have "bt_insert k v m = m @ [(k, v)]"
    using Cons.prems(2) by (intro bt_insert_above) (simp add: e)
  moreover have "\<forall>x \<in> fst ` set (m @ [(k, v)]). \<forall>k' \<in> fst ` set m'. x < k'"
    using Cons.prems by (auto simp: e)
  ultimately show ?case using Cons.IH [of "m @ [(k, v)]"] Cons.prems(1) by (simp add: e)
qed simp

lemma foldl_puts:
  "foldl write_op db (map (\<lambda>(k, b). PutApplied k b) m) =
     db\<lparr>db_applied := foldl (\<lambda>m (k, v). bt_insert k v m) (db_applied db) m\<rparr>"
  "foldl write_op db (map (\<lambda>(k, b). PutLog k b) m) =
     db\<lparr>db_log := foldl (\<lambda>m (k, v). bt_insert k v m) (db_log db) m\<rparr>"
  by (induction m arbitrary: db) auto

lemma journal_sorted:
  "journal_of S m es \<Longrightarrow> sorted_wrt (<) (map entry_index es) \<Longrightarrow> sorted_wrt (<) (map fst m)"
  by (simp add: journal_of_keys)

lemma journal_keys_set: "journal_of S m es \<Longrightarrow> fst ` set m = entry_index ` set es"
  using journal_of_keys [of S m es] by (metis list.set_map)

lemma journal_write:
  assumes "serde_ok (entry_serde S)" "encode_entries S PutApplied es = Inr ops"
    and "sorted_wrt (<) (map entry_index es)"
    and "\<forall>k \<in> fst ` set (db_applied db). \<forall>e \<in> set es. k < entry_index e"
  shows "\<exists>m. foldl write_op db ops = db\<lparr>db_applied := db_applied db @ m\<rparr> \<and> journal_of S m es"
proof -
  obtain m where "ops = map (\<lambda>(k, bytes). PutApplied k bytes) m" and m: "journal_of S m es"
    using encode_entries_Inr [OF assms(1,2)] .
  moreover from journal_keys_set [OF m] assms(4)
  have "\<forall>k \<in> fst ` set (db_applied db). \<forall>k' \<in> fst ` set m. k < k'" by simp
  ultimately show ?thesis
    using inserts_above [OF journal_sorted [OF m assms(3)]] by (auto simp: foldl_puts)
qed

lemma append_applied_Inr:
  assumes "serde_ok (entry_serde S)" "append_applied S io db es = (Inr u, db')"
    and "sorted_wrt (<) (map entry_index es)"
    and "\<forall>k \<in> fst ` set (db_applied db). \<forall>e \<in> set es. k < entry_index e"
  obtains m where "db' = db\<lparr>db_applied := db_applied db @ m\<rparr>" "journal_of S m es"
proof (cases "es = []")
  case True
  with assms(2) have "db' = db\<lparr>db_applied := db_applied db @ []\<rparr>"
    by (simp add: append_applied_def)
  with True show ?thesis using that [of "[]"] by (simp add: journal_of_def)
next
  case False
  with assms(2) obtain ops where "encode_entries S PutApplied es = Inr ops"
    and "db' = foldl write_op db ops"
    by (auto simp: append_applied_def sync_write_def tryS_eq_Inr split: option.splits)
  with journal_write [OF assms(1) _ assms(3,4)] that show ?thesis by blast
qed

lemma append_applied_Inl: "append_applied S io db es = (Inl e, db') \<Longrightarrow> db' = db"
  by (auto simp: append_applied_def sync_write_def split: if_splits option.splits tryS_split_asm)

section \<open>Applying a validated sequence\<close>

lemma validate_sequence_indexes:
  assumes "validate_sequence_from x es = Inr ()" "\<forall>e \<in> set es. entry_index e \<noteq> - 1"
  shows "sorted_wrt (<) (map entry_index es)" "\<forall>e \<in> set es. x \<le> entry_index e"
  using assms
proof (induction es arbitrary: x)
  case (Cons e es)
  {
    case 1
    have "x < saturating_add x 1"
      using 1 next_index_gt [of "Some \<lparr>log_term = 0, log_leader_node = 0, log_index = x\<rparr>"]
      by (simp add: next_index_def)
    with 1 Cons.IH [of "saturating_add x 1"] show ?case by fastforce
  next
    case 2
    with Cons.IH(2) [of "saturating_add x 1"] saturating_add_ge [of x 1] show ?case by fastforce
  }
qed simp_all

lemma apply_entry_eq:
  assumes "entry_index e = next_index (last_applied_log_id st)"
  shows "apply_entry B st e =
     (case entry_payload e of
        Blank \<Rightarrow> Inr (Noop, st\<lparr>last_applied_log_id := Some (entry_log_id e)\<rparr>)
      | MembershipChange m \<Rightarrow>
          Inr (Noop, st\<lparr>ms_membership := \<lparr>sm_log_id = Some (entry_log_id e), sm_membership = m\<rparr>,
                        last_applied_log_id := Some (entry_log_id e)\<rparr>)
      | Normal command \<Rightarrow>
          (case tryS (validate_membership_command (ms_membership st) (decisions st) command)
                  (decisions st) (\<lambda>_. apply_command B (decisions st) (entry_log_id e) command) of
             (res, d) \<Rightarrow>
               Inr (case res of Inr r \<Rightarrow> Applied r | Inl err \<Rightarrow> Rejected err,
                    st\<lparr>decisions := d, last_applied_log_id := Some (entry_log_id e)\<rparr>)))"
  using assms
  by (auto simp: apply_entry_def split: EntryPayload.split prod.split sum.split)

lemma apply_entry_ok:
  assumes "entry_index e = next_index (last_applied_log_id st)"
  obtains r st' where "apply_entry B st e = Inr (r, st')"
    "last_applied_log_id st' = Some (entry_log_id e)"
proof (cases "entry_payload e")
  case (Normal c)
  obtain res d where
    "tryS (validate_membership_command (ms_membership st) (decisions st) c) (decisions st)
       (\<lambda>_. apply_command B (decisions st) (entry_log_id e) c) = (res, d)" by fastforce
  with Normal show ?thesis using that by (simp add: apply_entry_eq [OF assms])
qed (use that in \<open>simp_all add: apply_entry_eq [OF assms]\<close>)

lemma apply_loop_run:
  assumes "validate_sequence_from (next_index (last_applied_log_id st)) es = Inr ()"
  shows "\<exists>rs st'. apply_loop B st es = (Inr rs, st') \<and> run_entries B st es = Inr st'
           \<and> length rs = length es"
  using assms
proof (induction es arbitrary: st)
  case (Cons e es)
  then have "entry_index e = next_index (last_applied_log_id st)" by simp
  from apply_entry_ok [OF this, of B] obtain r st1 where
    e: "apply_entry B st e = Inr (r, st1)" "last_applied_log_id st1 = Some (entry_log_id e)" .
  with Cons.prems have "validate_sequence_from (next_index (last_applied_log_id st1)) es = Inr ()"
    by (simp add: next_index_def)
  from Cons.IH [OF this] e show ?case by auto
qed simp

text \<open>The reload skips what the snapshot already holds and applies the rest as the first run did.\<close>

lemma replay_journal_append:
  "replay_journal B st (xs @ ys) = bindE (replay_journal B st xs) (\<lambda>st'. replay_journal B st' ys)"
  by (simp add: replay_journal_def foldE_append)

lemma replay_journal_run:
  assumes "sorted_wrt (<) (map entry_index es)"
    and "\<forall>l. last_applied_log_id st = Some l \<longrightarrow> (\<forall>e \<in> set es. log_index l < entry_index e)"
  shows "replay_journal B st es = run_entries B st es"
  using assms
proof (induction es arbitrary: st)
  case (Cons e es)
  have "\<not> (case last_applied_log_id st of Some l \<Rightarrow> entry_index e \<le> log_index l | None \<Rightarrow> False)"
    using Cons.prems(2) by (auto split: option.splits simp: not_le)
  then have step: "replay_journal B st (e # es) =
      bindE (apply_entry B st e) (\<lambda>(_, st'). replay_journal B st' es)"
    by (cases "apply_entry B st e") (auto simp: replay_journal_def)
  show ?case
  proof (cases "apply_entry B st e")
    case (Inr p)
    obtain r st1 where p: "p = (r, st1)" by (cases p)
    with Inr have "last_applied_log_id st1 = Some (entry_log_id e)"
      by (auto elim!: apply_entry_cases)
    with Cons.prems(1) have "\<forall>l. last_applied_log_id st1 = Some l \<longrightarrow>
        (\<forall>e \<in> set es. log_index l < entry_index e)" by auto
    from Cons.IH [OF _ this] Cons.prems(1) show ?thesis by (simp add: step Inr p)
  qed (simp add: step)
qed (simp add: replay_journal_def)

lemma run_entries_applied:
  "run_entries B st es = Inr st' \<Longrightarrow>
   last_applied_log_id st' = (if es = [] then last_applied_log_id st else Some (entry_log_id (last es)))"
proof (induction es arbitrary: st)
  case (Cons e es)
  then obtain r st1 where e: "apply_entry B st e = Inr (r, st1)" and "run_entries B st1 es = Inr st'"
    by auto
  moreover from e have "last_applied_log_id st1 = Some (entry_log_id e)" by (auto elim!: apply_entry_cases)
  ultimately show ?case using Cons.IH by auto
qed simp

lemma sorted_le_last:
  assumes "sorted_wrt (<) (map entry_index es)" "e \<in> set es"
  shows "entry_index e \<le> entry_index (last es)"
  using assms
proof (induction es)
  case (Cons a es)
  then show ?case by (cases "es = []") (fastforce simp: less_imp_le)+
qed simp

text \<open>The snapshot generation does not influence anything else.\<close>

lemma apply_entry_generation:
  "apply_entry B (st\<lparr>snapshot_generation := g\<rparr>) e =
     (case apply_entry B st e of
        Inl t \<Rightarrow> Inl t | Inr (r, st') \<Rightarrow> Inr (r, st'\<lparr>snapshot_generation := g\<rparr>))"
proof (cases "entry_index e = next_index (last_applied_log_id st)")
  case True
  then have g: "entry_index e = next_index (last_applied_log_id (st\<lparr>snapshot_generation := g\<rparr>))"
    by simp
  show ?thesis
    unfolding apply_entry_eq [OF True] apply_entry_eq [OF g]
    by (simp split: EntryPayload.split prod.split)
qed (simp add: apply_entry_def)

lemma run_entries_generation:
  "run_entries B st es = Inr st' \<Longrightarrow>
   run_entries B (st\<lparr>snapshot_generation := g\<rparr>) es = Inr (st'\<lparr>snapshot_generation := g\<rparr>)"
proof (induction es arbitrary: st)
  case (Cons e es)
  then show ?case by (auto simp: apply_entry_generation)
qed simp

section \<open>The configured limits never change\<close>

definition same_limits :: "StateMachine \<Rightarrow> StateMachine \<Rightarrow> bool" where
  "same_limits s s' \<longleftrightarrow>
     max_commit_entries s' = max_commit_entries s \<and> max_commit_bytes s' = max_commit_bytes s"

lemma same_limits_prune: "same_limits s (snd (prune_committed_invocations B s cs))"
  by (induction cs arbitrary: s)
    (auto simp: same_limits_def Let_def split: option.split tryS_split)

lemma same_limits_begin: "same_limits s (snd (begin_batch B s i b))"
  using same_limits_prune [of s B "expired_finalized_cursors s (bb_proposal_at_unix_millis b)"]
  by (cases "prune_committed_invocations B s
        (expired_finalized_cursors s (bb_proposal_at_unix_millis b))")
    (simp add: begin_batch_def same_limits_def Let_def split: tryS_split option.split)

lemma same_limits_cluster_only: "cluster_only s s' \<Longrightarrow> same_limits s s'"
  unfolding cluster_only_def same_limits_def
  by (metis StateMachine.surjective StateMachine.select_convs(1,2) StateMachine.update_convs(5))

lemma same_limits_ops:
  "same_limits s (snd (nominate_executor s e i))"
  "same_limits s (snd (commit_prepared_batch B s i q))"
  "same_limits s (snd (abort_prepared_batch s q))"
  "same_limits s (snd (advance_finalization s e n t))"
  "same_limits s (snd (initialize_cluster s cl))"
  "same_limits s (snd (complete_system_bootstrap s e n w i))"
  by (simp_all add: same_limits_def commit_prepared_batch_def abort_prepared_batch_def
      nominate_executor_def advance_finalization_eq initialize_cluster_def
      complete_system_bootstrap_def Let_def
      split: tryS_split option.split sum.split SystemBootstrapState.split)

lemma apply_command_limits: "same_limits s (snd (apply_command B s l c))"
  by (cases c)
    (simp_all add: apply_command_def Let_def same_limits_begin same_limits_ops
      cluster_ops_only [THEN same_limits_cluster_only])

lemma apply_entry_config:
  assumes "apply_entry B st e = Inr (r, st')"
  shows "validate_config st' config = validate_config st config"
  using assms
proof (cases rule: apply_entry_decisions)
  case (2 c)
  with apply_command_limits [of "decisions st" B "entry_log_id e" c]
  show ?thesis by (simp add: validate_config_def same_limits_def)
qed (simp add: validate_config_def)

lemma run_entries_config:
  assumes "run_entries B st es = Inr st'"
  shows "validate_config st' config = validate_config st config"
  by (rule run_entries_keep [OF assms, where P = "\<lambda>t. validate_config t config = validate_config st config"])
    (auto simp: apply_entry_config)

section \<open>What a restart recovers\<close>

definition same_machine :: "MachineState \<Rightarrow> MachineState \<Rightarrow> bool" where
  "same_machine st st' \<longleftrightarrow> st' = st\<lparr>snapshot_generation := snapshot_generation st'\<rparr>"

definition recovers ::
    "Bincode \<Rightarrow> StoredMembership \<Rightarrow> RaftSerde \<Rightarrow> StorageConfig \<Rightarrow> Db \<Rightarrow> MachineState \<Rightarrow> bool" where
  "recovers B M0 S config db st \<longleftrightarrow>
     (\<exists>base es g. load_base B M0 S config db = Inr base
        \<and> journal_of S (db_applied db) es
        \<and> replay_journal B base es = Inr (st\<lparr>snapshot_generation := g\<rparr>)) \<and>
     (\<forall>k \<in> fst ` set (db_applied db). \<exists>l. last_applied_log_id st = Some l \<and> k \<le> log_index l) \<and>
     validate_config st config = Inr ()"

lemma validate_cluster_membership_generation [simp]:
  "validate_cluster_membership (st\<lparr>snapshot_generation := g\<rparr>) = validate_cluster_membership st"
proof -
  have "decisions (st\<lparr>snapshot_generation := g\<rparr>) = decisions st"
    "ms_membership (st\<lparr>snapshot_generation := g\<rparr>) = ms_membership st" by simp_all
  then show ?thesis unfolding validate_cluster_membership_def by (simp only:)
qed

lemma recovers_load:
  assumes "recovers B M0 S config db st"
  shows "\<exists>g. load_machine B M0 S config db =
     bindE (map_err MembershipFailure (validate_cluster_membership st))
       (\<lambda>_. Inr (st\<lparr>snapshot_generation := g\<rparr>))"
  using assms by (auto simp: recovers_def load_machine_def scan_applied_journal)

lemma load_base_cong:
  assumes "bt_get (db_meta db') KEY_SNAPSHOT_META = bt_get (db_meta db) KEY_SNAPSHOT_META"
    and "bt_get (db_meta db') KEY_SNAPSHOT_DATA = bt_get (db_meta db) KEY_SNAPSHOT_DATA"
  shows "load_base B M0 S config db' = load_base B M0 S config db"
  using assms by (simp add: load_base_def load_snapshot_def read_meta_def)

lemma recovers_cong:
  assumes "recovers B M0 S config db st"
    and "db_applied db' = db_applied db"
    and "bt_get (db_meta db') KEY_SNAPSHOT_META = bt_get (db_meta db) KEY_SNAPSHOT_META"
    and "bt_get (db_meta db') KEY_SNAPSHOT_DATA = bt_get (db_meta db) KEY_SNAPSHOT_DATA"
  shows "recovers B M0 S config db' st"
  using assms(1) unfolding recovers_def load_base_cong [OF assms(3,4)] assms(2) .

lemma recovers_generation:
  "recovers B M0 S config db st \<Longrightarrow> recovers B M0 S config db (st\<lparr>snapshot_generation := g\<rparr>)"
  by (simp add: recovers_def validate_config_def)

text \<open>Once a validated batch is in the journal, a restart recovers the machine after it, whether
  or not the batch was applied in memory.\<close>

lemma recovers_appended:
  assumes rec: "recovers B M0 S config db st" and serde: "serde_ok (entry_serde S)"
    and seq: "validate_applied_entry_sequence (last_applied_log_id st) es = Inr ()"
    and below: "\<forall>e \<in> set es. entry_index e \<noteq> - 1"
    and not_max: "\<forall>l. last_applied_log_id st = Some l \<longrightarrow> log_index l \<noteq> - 1"
    and app: "append_applied S io db es = (Inr u, db')"
    and run: "run_entries B st es = Inr st'"
  shows "recovers B M0 S config db' st'"
proof -
  from rec obtain base old g where base: "load_base B M0 S config db = Inr base"
    and old: "journal_of S (db_applied db) old"
    and replay: "replay_journal B base old = Inr (st\<lparr>snapshot_generation := g\<rparr>)"
    and keys: "\<forall>k \<in> fst ` set (db_applied db). \<exists>l. last_applied_log_id st = Some l \<and> k \<le> log_index l"
    and config: "validate_config st config = Inr ()"
    by (auto simp: recovers_def)
  note idx = validate_sequence_indexes [OF seq [unfolded validate_applied_entry_sequence_def] below]
  have above: "log_index l < entry_index e" if "last_applied_log_id st = Some l" "e \<in> set es" for l e
    using idx(2) that next_index_gt [OF that(1)] not_max by fastforce
  with keys have "\<forall>k \<in> fst ` set (db_applied db). \<forall>e \<in> set es. k < entry_index e" by fastforce
  from append_applied_Inr [OF serde app idx(1) this]
  obtain m where db': "db' = db\<lparr>db_applied := db_applied db @ m\<rparr>" and m: "journal_of S m es" .
  have "load_base B M0 S config db' = Inr base"
    using base load_base_cong [of db' db] by (simp add: db')
  moreover have "journal_of S (db_applied db') (old @ es)"
    using old m by (simp add: db' journal_of_append)
  moreover have "replay_journal B base (old @ es) = Inr (st'\<lparr>snapshot_generation := g\<rparr>)"
    using replay_journal_run [OF idx(1), of "st\<lparr>snapshot_generation := g\<rparr>" B] above
      run_entries_generation [OF run, of g]
    by (simp add: replay_journal_append replay)
  moreover have "\<exists>l. last_applied_log_id st' = Some l \<and> k \<le> log_index l"
    if "k \<in> fst ` set (db_applied db')" for k
  proof (cases "es = []")
    case True
    with run m that keys show ?thesis by (auto simp: db' journal_of_def)
  next
    case False
    then have applied: "last_applied_log_id st' = Some (entry_log_id (last es))"
      using run_entries_applied [OF run] by simp
    have "fst ` set m = entry_index ` set es" using m by (rule journal_keys_set)
    moreover have "k \<in> fst ` set (db_applied db) \<union> fst ` set m" using that by (auto simp: db')
    ultimately consider "k \<in> fst ` set (db_applied db)" | e where "e \<in> set es" "k = entry_index e"
      by blast
    then have "k \<le> entry_index (last es)"
    proof cases
      case 1
      with keys above [OF _ last_in_set [OF False]] show ?thesis by fastforce
    next
      case 2
      with sorted_le_last [OF idx(1)] show ?thesis by simp
    qed
    with applied show ?thesis by simp
  qed
  moreover have "validate_config st' config = Inr ()"
    using run_entries_config [OF run] config by simp
  ultimately show ?thesis unfolding recovers_def by blast
qed

section \<open>Snapshots\<close>

lemma key_distinct [simp]:
  "KEY_SNAPSHOT_META \<noteq> KEY_SNAPSHOT_DATA" "KEY_SNAPSHOT_DATA \<noteq> KEY_SNAPSHOT_META"
  "KEY_LAST_LOG_ID \<noteq> KEY_SNAPSHOT_META" "KEY_LAST_LOG_ID \<noteq> KEY_SNAPSHOT_DATA"
  "KEY_SNAPSHOT_META \<noteq> KEY_LAST_LOG_ID" "KEY_SNAPSHOT_DATA \<noteq> KEY_LAST_LOG_ID"
  "KEY_LAST_PURGED_LOG_ID \<noteq> KEY_SNAPSHOT_META" "KEY_LAST_PURGED_LOG_ID \<noteq> KEY_SNAPSHOT_DATA"
  "KEY_SNAPSHOT_META \<noteq> KEY_LAST_PURGED_LOG_ID" "KEY_SNAPSHOT_DATA \<noteq> KEY_LAST_PURGED_LOG_ID"
  "KEY_LAST_LOG_ID \<noteq> KEY_LAST_PURGED_LOG_ID" "KEY_LAST_PURGED_LOG_ID \<noteq> KEY_LAST_LOG_ID"
  by (simp_all add: KEY_SNAPSHOT_META_def KEY_SNAPSHOT_DATA_def KEY_LAST_LOG_ID_def
      KEY_LAST_PURGED_LOG_ID_def)

lemma sync_write_Inr: "sync_write io db ops = (Inr u, db') \<longleftrightarrow> io = None \<and> db' = foldl write_op db ops"
  by (auto simp: sync_write_def split: option.splits)

lemma sync_write_Inl: "sync_write io db ops = (Inl e, db') \<Longrightarrow> db' = db"
  by (auto simp: sync_write_def split: option.splits)

lemma save_snapshot_Inl: "save_snapshot S io db sn b = (Inl e, db') \<Longrightarrow> db' = db"
  by (auto simp: save_snapshot_def Let_def split: tryS_split_asm dest: sync_write_Inl)

lemma save_snapshot_Inr:
  assumes "serde_ok (meta_serde S)" "save_snapshot S io db sn clear = (Inr u, db')"
  shows "load_snapshot S db' = Inr (Some sn)"
    and "db_applied db' =
      (case (if clear then Some (- 1) else map_option log_index (snap_last_log_id (snap_meta sn))) of
         Some t \<Rightarrow> delete_range 0 t (db_applied db) | None \<Rightarrow> db_applied db)"
    and "db_log db' = db_log db"
proof -
  from assms(2) obtain meta data where meta: "encode_record (meta_serde S) (snap_meta sn) = Inr meta"
    and data: "wrap_record (snap_data sn) = Inr data"
    and db': "db' = foldl write_op db
       ([PutMeta KEY_SNAPSHOT_META meta, PutMeta KEY_SNAPSHOT_DATA data] @
        (case (if clear then Some (- 1) else map_option log_index (snap_last_log_id (snap_meta sn))) of
           Some t \<Rightarrow> [DeleteAppliedRange 0 t] | None \<Rightarrow> []))"
    by (auto simp: save_snapshot_def tryS_eq_Inr sync_write_Inr Let_def)
  have "bt_get (db_meta db') KEY_SNAPSHOT_META = Some meta"
    "bt_get (db_meta db') KEY_SNAPSHOT_DATA = Some data"
    by (auto simp: db' bt_get_insert split: option.split)
  then show "load_snapshot S db' = Inr (Some sn)"
    using decode_encode_record [OF assms(1) meta] record_payload_wrap [OF data]
    by (simp add: load_snapshot_def read_meta_def)
  show "db_applied db' =
      (case (if clear then Some (- 1) else map_option log_index (snap_last_log_id (snap_meta sn))) of
         Some t \<Rightarrow> delete_range 0 t (db_applied db) | None \<Rightarrow> db_applied db)"
    by (auto simp: db' split: option.split)
  show "db_log db' = db_log db" by (auto simp: db' split: option.split)
qed

text \<open>After a snapshot whose body matches its metadata, with nothing left in the journal, a restart
  recovers the snapshot's machine.\<close>

lemma recovers_snapshot:
  assumes "load_snapshot S db = Inr (Some sn)" "db_applied db = []"
    and "decode_record (machine_serde S) (snap_data sn) = Inr st"
    and "last_applied_log_id st = snap_last_log_id (snap_meta sn)"
    and "ms_membership st = snap_last_membership (snap_meta sn)"
    and "validate_config st config = Inr ()"
  shows "recovers B M0 S config db st"
proof -
  have "load_base B M0 S config db = Inr st" using assms by (simp add: load_base_def)
  moreover have "replay_journal B st [] = Inr (st\<lparr>snapshot_generation := snapshot_generation st\<rparr>)"
    by (simp add: replay_journal_def)
  ultimately show ?thesis
    using assms(2,6) unfolding recovers_def
    by (intro conjI exI [of _ st] exI [of _ "[]"] exI [of _ "snapshot_generation st"])
      (simp_all add: journal_of_def)
qed

lemma snapshot_save_written:
  assumes "snapshot_save S io name db st = (Inr sn, db')"
  shows "snap_last_log_id (snap_meta sn) = last_applied_log_id st \<and>
      snap_last_membership (snap_meta sn) = ms_membership st"
    and "encode_record (machine_serde S) st = Inr (snap_data sn)"
    and "save_snapshot S io db sn False = (Inr (), db')"
proof -
  from assms obtain data where data: "encode_record (machine_serde S) st = Inr data"
    by (auto simp: snapshot_save_def tryS_eq_Inr)
  define d where "d = \<lparr>snap_meta = \<lparr>snap_last_log_id = last_applied_log_id st,
      snap_last_membership = ms_membership st, snapshot_id = name\<rparr>, snap_data = data\<rparr>"
  obtain r db1 where r: "save_snapshot S io db d False = (r, db1)" by fastforce
  with assms data have "tryS (map_err StoreFailure r) db1 (\<lambda>_. (Inr d, db1)) = (Inr sn, db')"
    by (auto simp: snapshot_save_def tryS_eq_Inr Let_def d_def)
  then have "sn = d" "r = Inr ()" "db1 = db'" by (auto simp: tryS_eq_Inr)
  then show "snap_last_log_id (snap_meta sn) = last_applied_log_id st \<and>
      snap_last_membership (snap_meta sn) = ms_membership st"
    "encode_record (machine_serde S) st = Inr (snap_data sn)"
    "save_snapshot S io db sn False = (Inr (), db')" using r data by (simp_all add: d_def)
qed

lemma snapshot_save_Inr:
  assumes "serde_ok (meta_serde S)" "serde_ok (machine_serde S)"
    and "snapshot_save S io name db st = (Inr sn, db')"
    and "validate_config st config = Inr ()"
  shows "load_base B M0 S config db' = Inr st"
    and "db_applied db' =
      (case last_applied_log_id st of
         Some l \<Rightarrow> delete_range 0 (log_index l) (db_applied db) | None \<Rightarrow> db_applied db)"
proof -
  note written = snapshot_save_written [OF assms(3)]
  note saved = save_snapshot_Inr [OF assms(1) written(3)]
  show "load_base B M0 S config db' = Inr st"
    using saved(1) decode_encode_record [OF assms(2) written(2)] written(1) assms(4)
    by (simp add: load_base_def)
  show "db_applied db' =
      (case last_applied_log_id st of
         Some l \<Rightarrow> delete_range 0 (log_index l) (db_applied db) | None \<Rightarrow> db_applied db)"
    using saved(2) written(1) by (cases "last_applied_log_id st") simp_all
qed

lemma snapshot_save_loads:
  assumes "serde_ok (meta_serde S)" "snapshot_save S io name db st = (Inr sn, db')"
  shows "load_snapshot S db' = Inr (Some sn)"
  by (rule save_snapshot_Inr(1) [OF assms(1) snapshot_save_written(3) [OF assms(2)]])

lemma snapshot_save_recovers:
  assumes "serde_ok (meta_serde S)" "serde_ok (machine_serde S)"
    and "snapshot_save S io name db st = (Inr sn, db')"
    and "validate_config st config = Inr ()" "db_applied db = []"
  shows "recovers B M0 S config db' st"
proof -
  note saved = snapshot_save_Inr [OF assms(1-4)]
  have "db_applied db' = []"
    using saved(2) assms(5) by (auto simp: delete_range_def split: option.splits)
  then show ?thesis
    using saved(1) assms(4) unfolding recovers_def
    by (intro conjI exI [of _ st] exI [of _ "[]"] exI [of _ "snapshot_generation st"])
      (simp_all add: journal_of_def replay_journal_def)
qed

lemma snapshot_save_Inl: "snapshot_save S io name db st = (Inl e, db') \<Longrightarrow> db' = db"
  by (auto simp: snapshot_save_def Let_def split: tryS_split_asm prod.splits
      dest: save_snapshot_Inl)

section \<open>The operations on the log leave the recovery state alone\<close>

fun log_op :: "WriteOp \<Rightarrow> bool" where
  "log_op (PutLog _ _) = True"
| "log_op (DeleteLogRange _ _) = True"
| "log_op (PutMeta k _) = (k \<noteq> KEY_SNAPSHOT_META \<and> k \<noteq> KEY_SNAPSHOT_DATA)"
| "log_op (DeleteMeta k) = (k \<noteq> KEY_SNAPSHOT_META \<and> k \<noteq> KEY_SNAPSHOT_DATA)"
| "log_op _ = False"

definition recovery_frame :: "Db \<Rightarrow> Db \<Rightarrow> bool" where
  "recovery_frame db db' \<longleftrightarrow>
     db_applied db' = db_applied db \<and>
     bt_get (db_meta db') KEY_SNAPSHOT_META = bt_get (db_meta db) KEY_SNAPSHOT_META \<and>
     bt_get (db_meta db') KEY_SNAPSHOT_DATA = bt_get (db_meta db) KEY_SNAPSHOT_DATA"

lemma log_op_frame: "log_op op \<Longrightarrow> recovery_frame db (write_op db op)"
  by (cases op) (auto simp: recovery_frame_def bt_get_insert bt_get_remove)

lemma log_ops_frame: "list_all log_op ops \<Longrightarrow> recovery_frame db (foldl write_op db ops)"
proof (induction ops arbitrary: db)
  case (Cons op ops)
  then have "recovery_frame (write_op db op) (foldl write_op (write_op db op) ops)" by simp
  moreover have "recovery_frame db (write_op db op)" using Cons.prems by (simp add: log_op_frame)
  ultimately show ?case by (simp add: recovery_frame_def)
qed (simp add: recovery_frame_def)

lemma sync_write_frame:
  assumes "list_all log_op ops"
  shows "recovery_frame db (snd (sync_write io db ops))"
  using log_ops_frame [OF assms, of db] by (auto simp: sync_write_def recovery_frame_def split: option.split)

lemma encode_entries_log_ops: "encode_entries S PutLog es = Inr ops \<Longrightarrow> list_all log_op ops"
proof (induction es arbitrary: ops)
  case (Cons e es)
  then show ?case by (auto simp: encode_entries_def)
qed (simp add: encode_entries_def)

lemma keep_recovery:
  "recovery_frame db0 db \<Longrightarrow> (\<And>x. m = Inr x \<Longrightarrow> recovery_frame db0 (snd (k x))) \<Longrightarrow>
   recovery_frame db0 (snd (tryS m db k))"
  by (cases m) simp_all

lemma recovery_frame_refl [simp]: "recovery_frame db db"
  by (simp add: recovery_frame_def)

lemma append_logs_frame: "recovery_frame db (snd (append_logs S io db es))"
  by (auto simp: append_logs_def Let_def intro!: keep_recovery sync_write_frame
      dest: encode_entries_log_ops)

lemma truncate_logs_frame: "recovery_frame db (snd (truncate_logs S io db i))"
  by (auto simp: truncate_logs_def Let_def intro!: keep_recovery sync_write_frame
      split: option.splits)

lemma purge_logs_frame: "recovery_frame db (snd (purge_logs S io db l))"
  by (auto simp: purge_logs_def Let_def intro!: keep_recovery sync_write_frame
      split: option.splits)

lemma save_vote_frame: "recovery_frame db (snd (save_vote V io db v))"
  by (auto simp: save_vote_def write_meta_sync_def KEY_VOTE_def KEY_SNAPSHOT_META_def
      KEY_SNAPSHOT_DATA_def intro!: keep_recovery sync_write_frame)

lemma recovers_frame:
  "recovery_frame db db' \<Longrightarrow> recovers B M0 S config db st \<Longrightarrow> recovers B M0 S config db' st"
  by (simp add: recovery_frame_def recovers_cong)

section \<open>Life of a node\<close>

definition below_max :: "MachineState \<Rightarrow> RaftEntry list \<Rightarrow> bool" where
  "below_max st es \<longleftrightarrow>
     (\<forall>l. last_applied_log_id st = Some l \<longrightarrow> log_index l \<noteq> - 1) \<and>
     list_all (\<lambda>e. entry_index e \<noteq> - 1) es"

definition serdes_ok :: "RaftSerde \<Rightarrow> bool" where
  "serdes_ok S \<longleftrightarrow> serde_ok (entry_serde S) \<and> serde_ok (meta_serde S) \<and> serde_ok (machine_serde S)"

text \<open>
  A running node. OpenRaft calls \<^verbatim>\<open>apply\<close> and \<^verbatim>\<open>install_snapshot\<close> one after the other, since both
  take \<^verbatim>\<open>&mut self\<close>, and each may stand between its two halves: \<open>journaled\<close> holds a batch that
  is in the journal and not applied yet, \<open>installing\<close> a machine whose snapshot is written and
  that is not in memory yet. Snapshot builders run beside them, any number at a time: each holds the
  clone it made under the lock. The rest is history: a builder is marked once another snapshot
  was written after its clone was made, and \<open>late_write\<close> says that a marked builder wrote its own.
\<close>

record RunningNode =
  run_db :: Db
  run_machine :: MachineState
  journaled :: "RaftEntry list option"
  installing :: "MachineState option"
  builders :: "(MachineState \<times> bool) list"
  late_write :: bool

definition started_node :: "Db \<Rightarrow> MachineState \<Rightarrow> bool \<Rightarrow> RunningNode" where
  "started_node db st late =
     \<lparr>run_db = db, run_machine = st, journaled = None, installing = None, builders = [],
      late_write = late\<rparr>"

definition mark_overtaken :: "(MachineState \<times> bool) list \<Rightarrow> (MachineState \<times> bool) list" where
  "mark_overtaken = map (\<lambda>(clone, _). (clone, True))"

text \<open>The machine that what is in flight leads to.\<close>

definition durable_machine :: "Bincode \<Rightarrow> RunningNode \<Rightarrow> MachineState" where
  "durable_machine B n =
     (case installing n of
        Some state \<Rightarrow> state
      | None \<Rightarrow>
          (case journaled n of
             Some es \<Rightarrow> snd (apply_loop B (run_machine n) es)
           | None \<Rightarrow> run_machine n))"

text \<open>
  The steps of a node. Every write may fail (\<open>io\<close>), and the process may stop and be started
  again at any moment, with whatever is in flight lost.
\<close>

inductive node_run ::
    "Bincode \<Rightarrow> StoredMembership \<Rightarrow> RaftSerde \<Rightarrow> StorageConfig \<Rightarrow> RunningNode \<Rightarrow> bool"
  for B M0 S config where
  fresh: "db_applied db = [] \<Longrightarrow> load_snapshot S db = Inr None \<Longrightarrow>
    new_machine B M0 config = Inr st \<Longrightarrow> node_run B M0 S config (started_node db st False)"
| restart: "node_run B M0 S config n \<Longrightarrow> load_machine B M0 S config (run_db n) = Inr st \<Longrightarrow>
    node_run B M0 S config (started_node (run_db n) st (late_write n))"
| journal: "node_run B M0 S config n \<Longrightarrow> journaled n = None \<Longrightarrow> installing n = None \<Longrightarrow>
    below_max (run_machine n) es \<Longrightarrow>
    journal_batch S io (run_db n) (run_machine n) es = (res, db) \<Longrightarrow>
    node_run B M0 S config (n\<lparr>run_db := db, journaled := (if isl res then None else Some es)\<rparr>)"
| apply_journaled: "node_run B M0 S config n \<Longrightarrow> journaled n = Some es \<Longrightarrow>
    apply_loop B (run_machine n) es = (res, st) \<Longrightarrow>
    node_run B M0 S config (n\<lparr>run_machine := st, journaled := None\<rparr>)"
| install: "node_run B M0 S config n \<Longrightarrow> journaled n = None \<Longrightarrow> installing n = None \<Longrightarrow>
    install_write S io config (run_db n) meta data = (Inr state, db) \<Longrightarrow>
    node_run B M0 S config (n\<lparr>run_db := db, installing := Some state,
      builders := mark_overtaken (builders n)\<rparr>)"
| install_failed: "node_run B M0 S config n \<Longrightarrow> journaled n = None \<Longrightarrow> installing n = None \<Longrightarrow>
    install_write S io config (run_db n) meta data = (Inl err, db) \<Longrightarrow>
    node_run B M0 S config (n\<lparr>run_db := db\<rparr>)"
| replace_machine: "node_run B M0 S config n \<Longrightarrow> installing n = Some state \<Longrightarrow>
    node_run B M0 S config (n\<lparr>run_machine := state, installing := None\<rparr>)"
| clone: "node_run B M0 S config n \<Longrightarrow>
    node_run B M0 S config (n\<lparr>run_machine := snapshot_clone (run_machine n),
      builders := (snapshot_clone (run_machine n), installing n \<noteq> None) # builders n\<rparr>)"
| save: "node_run B M0 S config n \<Longrightarrow> builders n = before @ (state, overtaken) # after \<Longrightarrow>
    snapshot_save S io name (run_db n) state = (Inr sn, db) \<Longrightarrow>
    node_run B M0 S config (n\<lparr>run_db := db, builders := mark_overtaken (before @ after),
      late_write := late_write n \<or> overtaken\<rparr>)"
| save_failed: "node_run B M0 S config n \<Longrightarrow> builders n = before @ (state, overtaken) # after \<Longrightarrow>
    snapshot_save S io name (run_db n) state = (Inl err, db) \<Longrightarrow>
    node_run B M0 S config (n\<lparr>run_db := db, builders := before @ after\<rparr>)"
| append_log: "node_run B M0 S config n \<Longrightarrow>
    node_run B M0 S config (n\<lparr>run_db := snd (append_logs S io (run_db n) es)\<rparr>)"
| truncate_log: "node_run B M0 S config n \<Longrightarrow>
    node_run B M0 S config (n\<lparr>run_db := snd (truncate_logs S io (run_db n) i)\<rparr>)"
| purge_log: "node_run B M0 S config n \<Longrightarrow>
    node_run B M0 S config (n\<lparr>run_db := snd (purge_logs S io (run_db n) l)\<rparr>)"

text \<open>With nothing else in between, the steps are the whole operations.\<close>

lemma apply_batch_steps:
  assumes "journal_batch S io db st es = (Inr (), db1)" "apply_loop B st es = (res, st1)"
  shows "apply_batch B S io (db, st) es = (res, (db1, st1))"
  using assms by (simp add: apply_batch_def)

lemma build_snapshot_steps:
  "build_snapshot S io name (db, st) =
     (case snapshot_save S io name db (snapshot_clone st) of (res, db1) \<Rightarrow> (res, (db1, snapshot_clone st)))"
  by (simp add: build_snapshot_def split: prod.split)

section \<open>A machine that the journal carries to another\<close>

text \<open>The journal on disk brings \<open>st\<close>, a clone or the machine in memory, to \<open>target\<close>.\<close>

definition catches_up ::
    "Bincode \<Rightarrow> RaftSerde \<Rightarrow> StorageConfig \<Rightarrow> Db \<Rightarrow> MachineState \<Rightarrow> MachineState \<Rightarrow> bool" where
  "catches_up B S config db target st \<longleftrightarrow>
     validate_config st config = Inr () \<and>
     (\<exists>es g. journal_of S (db_applied db) es \<and>
        replay_journal B st es = Inr (target\<lparr>snapshot_generation := g\<rparr>))"

lemma journal_of_unique: "journal_of S m es \<Longrightarrow> journal_of S m es' \<Longrightarrow> es' = es"
  unfolding journal_of_def
proof (induction m arbitrary: es es')
  case (Cons e m)
  then show ?case by (auto simp: list_all2_Cons1)
qed simp

lemma replay_generation:
  "replay_journal B st es = Inr st' \<Longrightarrow>
   replay_journal B (st\<lparr>snapshot_generation := g\<rparr>) es = Inr (st'\<lparr>snapshot_generation := g\<rparr>)"
proof (induction es arbitrary: st)
  case (Cons e es)
  show ?case
  proof (cases "case last_applied_log_id st of Some l \<Rightarrow> entry_index e \<le> log_index l | None \<Rightarrow> False")
    case True
    then show ?thesis using Cons by (simp add: replay_journal_def)
  next
    case False
    with Cons.prems obtain r st1 where "apply_entry B st e = Inr (r, st1)" "replay_journal B st1 es = Inr st'"
      by (auto simp: replay_journal_def)
    with Cons.IH False show ?thesis by (simp add: replay_journal_def apply_entry_generation)
  qed
qed (simp add: replay_journal_def)

lemma catches_up_generation:
  assumes "catches_up B S config db target st"
  shows "catches_up B S config db target (st\<lparr>snapshot_generation := g\<rparr>)"
proof -
  from assms obtain es h where "journal_of S (db_applied db) es"
    "replay_journal B st es = Inr (target\<lparr>snapshot_generation := h\<rparr>)" "validate_config st config = Inr ()"
    by (auto simp: catches_up_def)
  with replay_generation [of B st es "target\<lparr>snapshot_generation := h\<rparr>" g] show ?thesis
    unfolding catches_up_def
    by (intro conjI exI [of _ es] exI [of _ g]) (simp_all add: validate_config_def)
qed

lemma catches_up_clone:
  "catches_up B S config db target st \<Longrightarrow> catches_up B S config db target (snapshot_clone st)"
  by (simp add: snapshot_clone_def catches_up_generation)

lemma replay_skips:
  assumes "last_applied_log_id st = Some l" "\<forall>e \<in> set es. entry_index e \<le> log_index l"
  shows "replay_journal B st es = Inr st"
  using assms by (induction es) (simp_all add: replay_journal_def)

lemma recovers_catches_up:
  assumes "recovers B M0 S config db st"
  shows "catches_up B S config db st st"
proof -
  from assms obtain es where es: "journal_of S (db_applied db) es"
    and keys: "\<forall>k \<in> fst ` set (db_applied db). \<exists>l. last_applied_log_id st = Some l \<and> k \<le> log_index l"
    and config: "validate_config st config = Inr ()"
    by (auto simp: recovers_def)
  have "replay_journal B st es = Inr st"
  proof (cases "last_applied_log_id st")
    case None
    with keys have "db_applied db = []" by (cases "db_applied db") auto
    with es show ?thesis by (simp add: journal_of_def replay_journal_def)
  next
    case (Some l)
    with keys journal_keys_set [OF es] show ?thesis by (intro replay_skips) auto
  qed
  then show ?thesis
    using es config unfolding catches_up_def
    by (intro conjI exI [of _ es] exI [of _ "snapshot_generation st"]) simp_all
qed

text \<open>What a machine holds is skipped whether or not it is still in the journal.\<close>

lemma apply_entry_index:
  assumes "apply_entry B st e = Inr (r, st')" "last_applied_log_id st = Some l"
  obtains l' where "last_applied_log_id st' = Some l'" "log_index l \<le> log_index l'"
proof -
  from assms(1) have "last_applied_log_id st' = Some (entry_log_id e)"
    "entry_index e = next_index (last_applied_log_id st)"
    by (auto elim!: apply_entry_cases)
  with assms(2) show thesis
    using saturating_add_ge [of "log_index l" 1] by (intro that [of "entry_log_id e"]) (simp_all add: next_index_def)
qed

lemma replay_filter:
  assumes "last_applied_log_id st = Some l" "t \<le> log_index l"
  shows "replay_journal B st (filter (\<lambda>e. t < entry_index e) es) = replay_journal B st es"
  using assms
proof (induction es arbitrary: st l)
  case (Cons e es)
  show ?case
  proof (cases "entry_index e \<le> log_index l")
    case True
    then show ?thesis using Cons by (simp add: replay_journal_def)
  next
    case False
    then have "t < entry_index e" using Cons.prems(2) by simp
    moreover have "replay_journal B st1 (filter (\<lambda>e. t < entry_index e) es) = replay_journal B st1 es"
      if "apply_entry B st e = Inr (r, st1)" for r st1
      using apply_entry_index [OF that Cons.prems(1)] Cons.IH Cons.prems(2) order_trans by metis
    ultimately show ?thesis
      using False Cons.prems(1) by (cases "apply_entry B st e") (auto simp: replay_journal_def)
  qed
qed simp

lemma journal_delete_range:
  "journal_of S m es \<Longrightarrow> journal_of S (delete_range 0 t m) (filter (\<lambda>e. t < entry_index e) es)"
  unfolding journal_of_def delete_range_def
  by (induction rule: list_all2_induct) (auto simp: not_le)

lemma save_clone_recovers:
  assumes rec: "recovers B M0 S config db target" and up: "catches_up B S config db target st"
    and serde: "serdes_ok S" and save: "snapshot_save S io name db st = (Inr sn, db')"
  shows "recovers B M0 S config db' target"
proof -
  from up obtain es g where es: "journal_of S (db_applied db) es"
    and replay: "replay_journal B st es = Inr (target\<lparr>snapshot_generation := g\<rparr>)"
    and config: "validate_config st config = Inr ()" by (auto simp: catches_up_def)
  note saved = snapshot_save_Inr [OF _ _ save config]
  have base: "load_base B M0 S config db' = Inr st" using saved(1) serde by (simp add: serdes_ok_def)
  have applied: "db_applied db' =
      (case last_applied_log_id st of
         Some l \<Rightarrow> delete_range 0 (log_index l) (db_applied db) | None \<Rightarrow> db_applied db)"
    using saved(2) serde by (simp add: serdes_ok_def)
  obtain es' where es': "journal_of S (db_applied db') es'" "replay_journal B st es' = replay_journal B st es"
  proof (cases "last_applied_log_id st")
    case None
    then show thesis using es applied by (intro that [of es]) simp_all
  next
    case (Some l)
    then show thesis
      using journal_delete_range [OF es, of "log_index l"] replay_filter [OF Some order_refl] applied
      by (intro that [of "filter (\<lambda>e. log_index l < entry_index e) es"]) simp_all
  qed
  have "fst ` set (db_applied db') \<subseteq> fst ` set (db_applied db)"
    using applied by (auto simp: delete_range_def split: option.splits)
  with rec have "\<forall>k \<in> fst ` set (db_applied db'). \<exists>l. last_applied_log_id target = Some l \<and> k \<le> log_index l"
    "validate_config target config = Inr ()" unfolding recovers_def by blast+
  with base es' replay show ?thesis
    unfolding recovers_def by (intro conjI exI [of _ st] exI [of _ es'] exI [of _ g]) simp_all
qed

lemma recovers_fresh:
  assumes "db_applied db = []" "load_snapshot S db = Inr None" "new_machine B M0 config = Inr st"
  shows "recovers B M0 S config db st"
proof -
  have "validate_config st config = Inr ()"
    using assms(3) by (auto simp: new_machine_def new_state_machine_def validate_config_def)
  moreover have "load_base B M0 S config db = Inr st" using assms by (simp add: load_base_def)
  moreover have "replay_journal B st [] = Inr (st\<lparr>snapshot_generation := snapshot_generation st\<rparr>)"
    by (simp add: replay_journal_def)
  ultimately show ?thesis
    using assms(1) unfolding recovers_def
    by (intro conjI exI [of _ st] exI [of _ "[]"] exI [of _ "snapshot_generation st"])
      (simp_all add: journal_of_def)
qed

lemma recovers_restart:
  assumes "recovers B M0 S config db st" "load_machine B M0 S config db = Inr st'"
  shows "recovers B M0 S config db st'"
proof -
  from recovers_load [OF assms(1)] obtain g where
    "load_machine B M0 S config db = bindE (map_err MembershipFailure (validate_cluster_membership st))
       (\<lambda>_. Inr (st\<lparr>snapshot_generation := g\<rparr>))" by blast
  from this [symmetric] assms(2) have "st' = st\<lparr>snapshot_generation := g\<rparr>" by auto
  with recovers_generation [OF assms(1)] show ?thesis by simp
qed

section \<open>The running node\<close>

lemma recovers_install:
  assumes serde: "serdes_ok S" and i: "install_write S io config db meta data = (Inr state, db')"
  shows "recovers B M0 S config db' state"
proof -
  let ?sn = "\<lparr>snap_meta = meta, snap_data = data\<rparr>"
  obtain r db1 where save: "save_snapshot S io db ?sn True = (r, db1)" by fastforce
  with i have dec: "decode_record (machine_serde S) data = Inr state"
    and check: "last_applied_log_id state = snap_last_log_id meta"
      "ms_membership state = snap_last_membership meta" "validate_config state config = Inr ()"
    and saved: "save_snapshot S io db ?sn True = (Inr (), db')"
    by (auto simp: install_write_def Let_def validate_config_def tryS_eq_Inr)
  have "db_applied db' = []"
    using save_snapshot_Inr(2) [OF _ saved] serde
    by (auto simp: serdes_ok_def delete_range_def filter_empty_conv)
  with save_snapshot_Inr(1) [OF _ saved] serde show ?thesis
    by (intro recovers_snapshot) (auto simp: serdes_ok_def dec check)
qed

lemma install_write_Inl: "install_write S io config db meta data = (Inl e, db') \<Longrightarrow> db' = db"
  by (auto simp: install_write_def Let_def split: tryS_split_asm prod.splits dest: save_snapshot_Inl)

lemma journal_batch_Inl: "journal_batch S io db st es = (Inl e, db') \<Longrightarrow> db' = db"
  by (auto simp: journal_batch_def Let_def split: tryS_split_asm prod.splits dest: append_applied_Inl)

lemma journal_batch_Inr:
  assumes "journal_batch S io db st es = (Inr u, db')"
  shows "validate_applied_entry_sequence (last_applied_log_id st) es = Inr ()"
    "append_applied S io db es = (Inr (), db')"
  using assms by (auto simp: journal_batch_def Let_def tryS_eq_Inr split: prod.splits)

text \<open>A batch in the journal carries on what the journal carried before.\<close>

lemma catches_up_appended:
  assumes up: "catches_up B S config db target st" and rec: "recovers B M0 S config db target"
    and rec': "recovers B M0 S config db' target'" and serde: "serde_ok (entry_serde S)"
    and seq: "validate_applied_entry_sequence (last_applied_log_id target) es = Inr ()"
    and below: "below_max target es" and app: "append_applied S io db es = (Inr u, db')"
    and run: "run_entries B target es = Inr target'"
  shows "catches_up B S config db' target' st"
proof -
  from up obtain old g where old: "journal_of S (db_applied db) old"
    and replay: "replay_journal B st old = Inr (target\<lparr>snapshot_generation := g\<rparr>)"
    and config: "validate_config st config = Inr ()" by (auto simp: catches_up_def)
  have idx: "sorted_wrt (<) (map entry_index es)"
    "\<forall>e \<in> set es. next_index (last_applied_log_id target) \<le> entry_index e"
    using validate_sequence_indexes [of "next_index (last_applied_log_id target)" es] seq below
    by (auto simp: validate_applied_entry_sequence_def below_max_def list_all_iff)
  have above: "log_index l < entry_index e" if "last_applied_log_id target = Some l" "e \<in> set es" for l e
    using idx(2) that next_index_gt [OF that(1)] below by (fastforce simp: below_max_def)
  have "\<forall>k \<in> fst ` set (db_applied db). \<exists>l. last_applied_log_id target = Some l \<and> k \<le> log_index l"
    using rec by (simp add: recovers_def)
  with above have "\<forall>k \<in> fst ` set (db_applied db). \<forall>e \<in> set es. k < entry_index e" by fastforce
  from append_applied_Inr [OF serde app idx(1) this]
  obtain m where db': "db' = db\<lparr>db_applied := db_applied db @ m\<rparr>" and m: "journal_of S m es" .
  have "replay_journal B st (old @ es) = Inr (target'\<lparr>snapshot_generation := g\<rparr>)"
    using replay_journal_run [OF idx(1), of "target\<lparr>snapshot_generation := g\<rparr>" B] above
      run_entries_generation [OF run, of g]
    by (simp add: replay_journal_append replay)
  moreover have "journal_of S (db_applied db') (old @ es)"
    using old m by (simp add: db' journal_of_append)
  ultimately show ?thesis using config unfolding catches_up_def by blast
qed

lemma catches_up_frame:
  "recovery_frame db db' \<Longrightarrow> catches_up B S config db target st \<Longrightarrow> catches_up B S config db' target st"
  by (simp add: recovery_frame_def catches_up_def)

lemma catches_up_target:
  "catches_up B S config db (target\<lparr>snapshot_generation := g\<rparr>) st = catches_up B S config db target st"
  by (simp add: catches_up_def)

definition applied_le :: "MachineState \<Rightarrow> MachineState \<Rightarrow> bool" where
  "applied_le st st' \<longleftrightarrow>
     (\<forall>l. last_applied_log_id st = Some l \<longrightarrow>
        (\<exists>l'. last_applied_log_id st' = Some l' \<and> log_index l \<le> log_index l'))"

lemma applied_le_refl [simp]: "applied_le st st"
  by (simp add: applied_le_def)

lemma applied_le_trans: "applied_le a b \<Longrightarrow> applied_le b c \<Longrightarrow> applied_le a c"
  unfolding applied_le_def by (meson order_trans)

lemma apply_loop_applied_le: "apply_loop B st es = (res, st') \<Longrightarrow> applied_le st st'"
proof (induction es arbitrary: st st' res)
  case (Cons e es)
  show ?case
  proof (cases "apply_entry B st e")
    case (Inr p)
    obtain r st1 where p: "p = (r, st1)" by (cases p)
    obtain q st2 where q: "apply_loop B st1 es = (q, st2)" by fastforce
    have "st' = st2" using Cons.prems Inr p q by (auto split: sum.splits)
    moreover have "applied_le st st1"
      using apply_entry_index [OF Inr [unfolded p]] unfolding applied_le_def by metis
    ultimately show ?thesis using Cons.IH [OF q] applied_le_trans by blast
  qed (use Cons.prems in simp)
qed simp

lemma catches_up_trimmed:
  assumes "catches_up B S config db target st" "applied_le c st"
    and "db_applied db' = (case last_applied_log_id c of
      Some l \<Rightarrow> delete_range 0 (log_index l) (db_applied db) | None \<Rightarrow> db_applied db)"
  shows "catches_up B S config db' target st"
proof (cases "last_applied_log_id c")
  case None
  then show ?thesis using assms(1,3) by (simp add: catches_up_def)
next
  case (Some l)
  with assms(2) obtain l' where l': "last_applied_log_id st = Some l'" "log_index l \<le> log_index l'"
    by (auto simp: applied_le_def)
  from assms(1) obtain es g where "journal_of S (db_applied db) es"
    "replay_journal B st es = Inr (target\<lparr>snapshot_generation := g\<rparr>)" "validate_config st config = Inr ()"
    by (auto simp: catches_up_def)
  with journal_delete_range [of S "db_applied db" es "log_index l"] replay_filter [OF l', of B es]
  show ?thesis using assms(3) Some unfolding catches_up_def by auto
qed

lemma apply_loop_generation:
  "snd (apply_loop B (st\<lparr>snapshot_generation := g\<rparr>) es) = (snd (apply_loop B st es))\<lparr>snapshot_generation := g\<rparr>"
proof (induction es arbitrary: st)
  case (Cons e es)
  show ?case
  proof (cases "apply_entry B st e")
    case (Inr p)
    obtain r st1 where p: "p = (r, st1)" by (cases p)
    have step: "snd (apply_loop B st0 (e # es)) = snd (apply_loop B st2 es)"
      if "apply_entry B st0 e = Inr (r, st2)" for st0 st2
      using that by (cases "apply_loop B st2 es") (auto split: sum.split)
    have "apply_entry B (st\<lparr>snapshot_generation := g\<rparr>) e = Inr (r, st1\<lparr>snapshot_generation := g\<rparr>)"
      using Inr p by (simp add: apply_entry_generation)
    from step [OF this] step [OF Inr [unfolded p]] Cons.IH [of st1] show ?thesis by (simp only:)
  qed (simp add: apply_entry_generation)
qed simp

text \<open>The invariant: a restart recovers what is in flight leads to, and the machine in memory and
  every builder that was not overtaken catch up with it.\<close>

definition node_ok ::
    "Bincode \<Rightarrow> StoredMembership \<Rightarrow> RaftSerde \<Rightarrow> StorageConfig \<Rightarrow> RunningNode \<Rightarrow> bool" where
  "node_ok B M0 S config n \<longleftrightarrow>
     recovers B M0 S config (run_db n) (durable_machine B n) \<and>
     (installing n = None \<longrightarrow> catches_up B S config (run_db n) (durable_machine B n) (run_machine n)) \<and>
     (installing n = None \<or> journaled n = None) \<and>
     (\<forall>c. (c, False) \<in> set (builders n) \<longrightarrow>
        installing n = None \<and> applied_le c (run_machine n) \<and>
        catches_up B S config (run_db n) (durable_machine B n) c)"

lemma node_ok_started:
  assumes "recovers B M0 S config db st"
  shows "node_ok B M0 S config (started_node db st late)"
  using assms by (simp add: node_ok_def started_node_def durable_machine_def recovers_catches_up)

lemma not_overtaken [simp]: "(c, False) \<notin> set (mark_overtaken bs)"
  by (auto simp: mark_overtaken_def)

lemma node_ok_restart:
  assumes "node_ok B M0 S config n" "load_machine B M0 S config (run_db n) = Inr st"
  shows "node_ok B M0 S config (started_node (run_db n) st late)"
proof -
  from assms(1) have "recovers B M0 S config (run_db n) (durable_machine B n)" by (simp add: node_ok_def)
  from node_ok_started [OF recovers_restart [OF this assms(2)]] show ?thesis .
qed

lemma node_ok_journal:
  assumes ok: "node_ok B M0 S config n" and serde: "serdes_ok S"
    and idle: "journaled n = None" "installing n = None" and below: "below_max (run_machine n) es"
    and j: "journal_batch S io (run_db n) (run_machine n) es = (Inr u, db)"
  shows "node_ok B M0 S config (n\<lparr>run_db := db, journaled := Some es\<rparr>)"
proof -
  let ?st = "run_machine n"
  have d: "durable_machine B n = ?st" using idle by (simp add: durable_machine_def)
  have rec: "recovers B M0 S config (run_db n) ?st" using ok by (simp add: node_ok_def d)
  have entries: "serde_ok (entry_serde S)" using serde by (simp add: serdes_ok_def)
  note b = journal_batch_Inr [OF j]
  from apply_loop_run [OF b(1) [unfolded validate_applied_entry_sequence_def], of B] obtain rs st' where
    loop: "apply_loop B ?st es = (Inr rs, st')" and run: "run_entries B ?st es = Inr st'" by blast
  have d': "durable_machine B (n\<lparr>run_db := db, journaled := Some es\<rparr>) = st'"
    using idle loop by (simp add: durable_machine_def)
  have rec': "recovers B M0 S config db st'"
    using recovers_appended [OF rec entries b(1) _ _ b(2) run] below
    by (simp add: below_max_def list_all_iff)
  have "catches_up B S config db st' c" if "catches_up B S config (run_db n) ?st c" for c
    by (rule catches_up_appended [OF that rec rec' entries b(1) below b(2) run])
  then show ?thesis using ok idle rec' by (auto simp: node_ok_def d d')
qed

lemma node_ok_apply:
  assumes ok: "node_ok B M0 S config n" and j: "journaled n = Some es"
    and loop: "apply_loop B (run_machine n) es = (res, st)"
  shows "node_ok B M0 S config (n\<lparr>run_machine := st, journaled := None\<rparr>)"
proof -
  have i: "installing n = None" using ok j by (auto simp: node_ok_def)
  then have d: "durable_machine B n = st" using j loop by (simp add: durable_machine_def)
  have d': "durable_machine B (n\<lparr>run_machine := st, journaled := None\<rparr>) = st"
    using i by (simp add: durable_machine_def)
  have rec: "recovers B M0 S config (run_db n) st" using ok by (simp add: node_ok_def d)
  have "applied_le c st" if "(c, False) \<in> set (builders n)" for c
    using ok that apply_loop_applied_le [OF loop] applied_le_trans by (auto simp: node_ok_def)
  then show ?thesis using ok i rec recovers_catches_up [OF rec] by (auto simp: node_ok_def d d')
qed

lemma node_ok_install:
  assumes "serdes_ok S" "journaled n = None"
    and "install_write S io config (run_db n) meta data = (Inr state, db)"
  shows "node_ok B M0 S config
    (n\<lparr>run_db := db, installing := Some state, builders := mark_overtaken (builders n)\<rparr>)"
  using assms recovers_install [OF assms(1,3)] by (simp add: node_ok_def durable_machine_def)

lemma node_ok_replace:
  assumes ok: "node_ok B M0 S config n" and i: "installing n = Some state"
  shows "node_ok B M0 S config (n\<lparr>run_machine := state, installing := None\<rparr>)"
proof -
  have j: "journaled n = None" using ok i by (auto simp: node_ok_def)
  have rec: "recovers B M0 S config (run_db n) state"
    using ok i by (simp add: node_ok_def durable_machine_def)
  have "(c, False) \<notin> set (builders n)" for c using ok i by (auto simp: node_ok_def)
  then show ?thesis
    using j rec recovers_catches_up [OF rec] by (simp add: node_ok_def durable_machine_def)
qed

lemma node_ok_clone:
  assumes ok: "node_ok B M0 S config n"
  shows "node_ok B M0 S config (n\<lparr>run_machine := snapshot_clone (run_machine n),
      builders := (snapshot_clone (run_machine n), installing n \<noteq> None) # builders n\<rparr>)"
proof -
  let ?c = "snapshot_clone (run_machine n)"
  let ?n = "n\<lparr>run_machine := ?c, builders := (?c, installing n \<noteq> None) # builders n\<rparr>"
  obtain g where d: "durable_machine B ?n = (durable_machine B n)\<lparr>snapshot_generation := g\<rparr>"
  proof (cases "installing n")
    case None
    show thesis
      by (rule that [of "saturating_add (snapshot_generation (run_machine n)) 1"])
        (cases "journaled n"; simp add: None durable_machine_def snapshot_clone_def apply_loop_generation)
  next
    case (Some state)
    then show thesis by (intro that [of "snapshot_generation state"]) (simp add: durable_machine_def)
  qed
  have le: "applied_le st ?c = applied_le st (run_machine n)" for st
    by (simp add: applied_le_def snapshot_clone_def)
  have "applied_le ?c (run_machine n)" using le [of ?c] by simp
  then show ?thesis
    using ok catches_up_clone [of B S config "run_db n" "durable_machine B n" "run_machine n"]
    unfolding node_ok_def d catches_up_target by (auto simp: le recovers_generation)
qed

lemma durable_machine_frame [simp]:
  "durable_machine B (n\<lparr>run_db := db\<rparr>) = durable_machine B n"
  "durable_machine B (n\<lparr>builders := bs\<rparr>) = durable_machine B n"
  "durable_machine B (n\<lparr>late_write := late\<rparr>) = durable_machine B n"
  by (cases "installing n"; cases "journaled n"; simp add: durable_machine_def)+

lemma node_ok_save:
  assumes ok: "node_ok B M0 S config n" and serde: "serdes_ok S"
    and b: "(state, False) \<in> set (builders n)"
    and save: "snapshot_save S io name (run_db n) state = (Inr sn, db)"
  shows "node_ok B M0 S config (n\<lparr>run_db := db, builders := mark_overtaken bs, late_write := late\<rparr>)"
proof -
  let ?d = "durable_machine B n"
  have up: "catches_up B S config (run_db n) ?d state" "applied_le state (run_machine n)"
    "installing n = None" and rec: "recovers B M0 S config (run_db n) ?d"
    and machine: "catches_up B S config (run_db n) ?d (run_machine n)"
    using ok b by (auto simp: node_ok_def)
  have "validate_config state config = Inr ()" using up(1) by (simp add: catches_up_def)
  with snapshot_save_Inr(2) [OF _ _ save] serde have "db_applied db =
      (case last_applied_log_id state of
         Some l \<Rightarrow> delete_range 0 (log_index l) (db_applied (run_db n)) | None \<Rightarrow> db_applied (run_db n))"
    by (simp add: serdes_ok_def)
  from catches_up_trimmed [OF machine up(2) this] have "catches_up B S config db ?d (run_machine n)" .
  moreover have "recovers B M0 S config db ?d" by (rule save_clone_recovers [OF rec up(1) serde save])
  ultimately show ?thesis using up(3) by (simp add: node_ok_def)
qed

lemma node_ok_frame:
  assumes "node_ok B M0 S config n" "recovery_frame (run_db n) db"
  shows "node_ok B M0 S config (n\<lparr>run_db := db\<rparr>)"
  using assms by (auto simp: node_ok_def intro: recovers_frame catches_up_frame)

lemma node_ok_fewer:
  assumes "node_ok B M0 S config n" "set bs \<subseteq> set (builders n)"
  shows "node_ok B M0 S config (n\<lparr>builders := bs\<rparr>)"
  using assms by (auto simp: node_ok_def)

lemma node_run_ok:
  assumes "node_run B M0 S config n" "serdes_ok S" "\<not> late_write n"
  shows "node_ok B M0 S config n"
  using assms(1,3)
proof (induction rule: node_run.induct)
  case (fresh db st)
  then show ?case by (simp add: node_ok_started recovers_fresh)
next
  case (restart n st)
  then have "node_ok B M0 S config n" by (simp add: started_node_def)
  then show ?case using restart.hyps(2) by (rule node_ok_restart)
next
  case (journal n es io res db)
  then have ok: "node_ok B M0 S config n" by simp
  show ?case
  proof (cases res)
    case (Inl e)
    then have "n\<lparr>run_db := db, journaled := (if isl res then None else Some es)\<rparr> = n"
      using journal_batch_Inl [of S io "run_db n" "run_machine n" es e db] journal.hyps by simp
    then show ?thesis using ok by simp
  next
    case (Inr u)
    then show ?thesis
      using node_ok_journal [OF ok assms(2) journal.hyps(2-4), of io u db] journal.hyps(5) by simp
  qed
next
  case (apply_journaled n es res st)
  then show ?case by (intro node_ok_apply) simp_all
next
  case (install n io meta data state db)
  show ?case by (rule node_ok_install [OF assms(2) install.hyps(2,4)])
next
  case (install_failed n io meta data err db)
  then show ?case using install_write_Inl [of S io config "run_db n" meta data err db] by simp
next
  case (replace_machine n state)
  then show ?case by (intro node_ok_replace) simp_all
next
  case (clone n)
  then show ?case by (intro node_ok_clone) simp
next
  case (save n before state overtaken after io name sn db)
  then have "node_ok B M0 S config n" "(state, False) \<in> set (builders n)" by auto
  then show ?case by (rule node_ok_save [OF _ assms(2) _ save.hyps(3)])
next
  case (save_failed n before state overtaken after io name err db)
  then have "db = run_db n" using snapshot_save_Inl by blast
  then have "n\<lparr>run_db := db, builders := before @ after\<rparr> = n\<lparr>builders := before @ after\<rparr>" by simp
  moreover have "node_ok B M0 S config n" "set (before @ after) \<subseteq> set (builders n)"
    using save_failed by auto
  ultimately show ?case using node_ok_fewer by simp
qed (simp_all add: node_ok_frame append_logs_frame truncate_logs_frame purge_logs_frame)

section \<open>The log is a contiguous run of entries\<close>

text \<open>
  The abstract log: the id of the last purged entry and the entries after it, numbered without a
  gap. \<open>log_holds\<close> says that a database stores it: the entry family, and the two metadata
  values that record where it starts and ends.
\<close>

fun contiguous :: "nat \<Rightarrow> RaftEntry list \<Rightarrow> bool" where
  "contiguous x [] \<longleftrightarrow> x < 2 ^ 64"
| "contiguous x (e # es) \<longleftrightarrow> unat (entry_index e) = x \<and> contiguous (Suc x) es"

definition end_id :: "LogId option \<Rightarrow> RaftEntry list \<Rightarrow> LogId option" where
  "end_id p es = (if es = [] then p else Some (entry_log_id (last es)))"

definition log_holds :: "RaftSerde \<Rightarrow> Db \<Rightarrow> LogId option \<Rightarrow> RaftEntry list \<Rightarrow> bool" where
  "log_holds S db p es \<longleftrightarrow>
     last_purged_log_id S db = Inr p \<and> last_log_id S db = Inr (end_id None es) \<and>
     journal_of S (db_log db) es \<and>
     (\<forall>l. p = Some l \<longrightarrow> log_index l \<noteq> - 1) \<and> contiguous (unat (next_index p)) es"

datatype LogCall = AppendLogs "RaftEntry list" | TruncateLogs u64 | PurgeLogs LogId

fun log_call :: "RaftSerde \<Rightarrow> string option \<Rightarrow> Db \<Rightarrow> LogCall \<Rightarrow> (DurableStorageError + unit) \<times> Db" where
  "log_call S io db (AppendLogs es) = append_logs S io db es"
| "log_call S io db (TruncateLogs from) = truncate_logs S io db from"
| "log_call S io db (PurgeLogs through) = purge_logs S io db through"

fun spec_call :: "LogCall \<Rightarrow> LogId option \<times> RaftEntry list \<Rightarrow> LogId option \<times> RaftEntry list" where
  "spec_call (AppendLogs new) (p, es) = (p, es @ new)"
| "spec_call (TruncateLogs from) (p, es) = (p, filter (\<lambda>e. entry_index e < from) es)"
| "spec_call (PurgeLogs through) (p, es) =
     (Some through, filter (\<lambda>e. log_index through < entry_index e) es)"

text \<open>What OpenRaft keeps to: it never uses the last 64-bit index, and it truncates from an index
  that is at most one past the end.\<close>

fun call_ok :: "LogCall \<Rightarrow> LogId option \<times> RaftEntry list \<Rightarrow> bool" where
  "call_ok (AppendLogs new) _ \<longleftrightarrow> list_all (\<lambda>e. entry_index e \<noteq> - 1) new"
| "call_ok (TruncateLogs from) (p, es) \<longleftrightarrow> from \<le> next_index (end_id p es)"
| "call_ok (PurgeLogs through) _ \<longleftrightarrow> log_index through \<noteq> - 1"

lemma unat_below_max: "x \<noteq> - 1 \<longleftrightarrow> unat (x :: u64) + 1 < 2 ^ 64"
proof -
  have "unat x < 2 ^ 64" by (rule order_less_le_trans [OF unsigned_less]) simp
  moreover have "x = - 1 \<longleftrightarrow> unat x = unat (- 1 :: u64)" by (rule word_unat_eq_iff)
  ultimately show ?thesis by (auto simp: unsigned_minus_1_eq_mask mask_eq_exp_minus_1)
qed

lemma contiguous_bound: "contiguous x es \<Longrightarrow> x + length es < 2 ^ 64"
  by (induction x es rule: contiguous.induct) auto

lemma contiguous_nth: "contiguous x es \<Longrightarrow> i < length es \<Longrightarrow> unat (entry_index (es ! i)) = x + i"
  by (induction x es arbitrary: i rule: contiguous.induct) (auto simp: nth_Cons split: nat.splits)

lemma contiguous_ge: "contiguous x es \<Longrightarrow> e \<in> set es \<Longrightarrow> x \<le> unat (entry_index e)"
  by (metis contiguous_nth in_set_conv_nth le_add1)

lemma contiguous_append:
  "contiguous x es \<Longrightarrow> contiguous (x + length es) es' \<Longrightarrow> contiguous x (es @ es')"
  by (induction x es rule: contiguous.induct) auto

lemma contiguous_less:
  "contiguous x es \<Longrightarrow> contiguous x (filter (\<lambda>e. entry_index e < from) es)"
proof (induction x es rule: contiguous.induct)
  case (2 x e es)
  show ?case
  proof (cases "entry_index e < from")
    case False
    then have "filter (\<lambda>e. entry_index e < from) (e # es) = []"
      using contiguous_ge [of "Suc x" es] 2(2) by (force simp: filter_empty_conv word_less_nat_alt)
    moreover have "x < 2 ^ 64" using contiguous_bound [OF 2(2)] by simp
    ultimately show ?thesis by (simp del: filter.simps)
  qed (use 2 in simp)
qed simp

lemma contiguous_greater:
  assumes "contiguous x es" "x \<le> unat t + 1" "t \<noteq> - 1"
  shows "contiguous (unat t + 1) (filter (\<lambda>e. t < entry_index e) es)"
  using assms(1,2)
proof (induction x es rule: contiguous.induct)
  case (1 x)
  then show ?case using assms(3) by (simp add: unat_below_max)
next
  case (2 x e es)
  show ?case
  proof (cases "t < entry_index e")
    case True
    then have x: "x = unat t + 1" using 2(2,3) by (simp add: word_less_nat_alt)
    then have "filter (\<lambda>e. t < entry_index e) es = es"
      using contiguous_ge [of "Suc x" es] 2(2) by (force simp: filter_id_conv word_less_nat_alt)
    with True x 2(2) show ?thesis by simp
  next
    case False
    with 2 show ?thesis by (simp add: word_less_nat_alt)
  qed
qed

lemma contiguous_sorted: "contiguous x es \<Longrightarrow> sorted_wrt (<) (map entry_index es)"
proof (induction x es rule: contiguous.induct)
  case (2 x e es)
  then show ?case using contiguous_ge [of "Suc x" es] by (force simp: word_less_nat_alt)
qed simp

lemma unat_next_index:
  assumes "\<forall>l. p = Some l \<longrightarrow> log_index l \<noteq> - 1"
  shows "unat (next_index p) = (case p of None \<Rightarrow> 0 | Some l \<Rightarrow> unat (log_index l) + 1)"
proof (cases p)
  case (Some l)
  with assms have "unat (log_index l) + 1 < 2 ^ 64" by (simp add: unat_below_max)
  then show ?thesis using Some by (simp add: next_index_def unat_saturating_add)
qed (simp add: next_index_def)

lemma next_index_end:
  assumes "contiguous (unat (next_index p)) es"
  shows "unat (next_index (end_id p es)) = unat (next_index p) + length es"
proof (cases "es = []")
  case False
  have l: "unat (entry_index (last es)) = unat (next_index p) + (length es - 1)"
    using contiguous_nth [OF assms, of "length es - 1"] False by (simp add: last_conv_nth)
  moreover from False have "length es - 1 < length es" by simp
  ultimately have "unat (entry_index (last es)) < 2 ^ 64 - 1" using contiguous_bound [OF assms] by linarith
  then have "entry_index (last es) \<noteq> - 1" by (simp add: unat_below_max)
  then show ?thesis
    using unat_next_index [of "Some (entry_log_id (last es))"] l False by (simp add: end_id_def)
qed (simp add: end_id_def)

lemma check_consecutive_contiguous:
  assumes "check_consecutive es = Inr ()" "list_all (\<lambda>e. entry_index e \<noteq> - 1) es" "es \<noteq> []"
  shows "contiguous (unat (entry_index (hd es))) es"
  using assms
proof (induction es rule: induct_list012)
  case (2 e)
  then show ?case by (simp add: unat_below_max)
next
  case (3 a b es)
  have "unat (entry_index b) = Suc (unat (entry_index a))"
    using 3(3,4) by (simp add: unatSuc add.commute [of _ 1] eq_neg_iff_add_eq_0)
  with 3 show ?case by simp
qed simp

lemma journal_filter:
  "journal_of S m es \<Longrightarrow>
     journal_of S (filter (\<lambda>x. P (fst x)) m) (filter (\<lambda>e. P (entry_index e)) es)"
  unfolding journal_of_def by (induction rule: list_all2_induct) auto

lemma journal_get:
  assumes "journal_of S m es" "sorted_wrt (<) (map entry_index es)" "i < length es"
  shows "\<exists>bytes. bt_get m (entry_index (es ! i)) = Some bytes \<and>
    decode_record (entry_serde S) bytes = Inr (es ! i)"
proof -
  have wf: "bt_wf m" using assms(1,2) by (simp add: bt_wf_def journal_of_keys)
  have "length m = length es" using assms(1) by (simp add: journal_of_def list_all2_lengthD)
  then have m: "(fst (m ! i), snd (m ! i)) \<in> set m" using assms(3) by simp
  have "fst (m ! i) = entry_index (es ! i) \<and> decode_record (entry_serde S) (snd (m ! i)) = Inr (es ! i)"
    using assms(1,3) by (auto simp: journal_of_def list_all2_conv_all_nth split_beta)
  then show ?thesis using bt_get_iff [OF wf] m by auto
qed

text \<open>One lemma per call: a call that returns an error leaves the database alone, and one that
  succeeds stores the log the abstract call gives.\<close>

lemma read_meta_put:
  assumes "serde_ok V" "encode_record V v = Inr bytes"
    and "bt_get (db_meta db) key = Some bytes"
  shows "read_meta V db key = Inr (Some v)"
  using assms(3) decode_encode_record [OF assms(1,2)] by (simp add: read_meta_def)

lemma read_meta_cong:
  "bt_get (db_meta db') key = bt_get (db_meta db) key \<Longrightarrow> read_meta V db' key = read_meta V db key"
  by (simp add: read_meta_def)

lemma log_holds_append:
  assumes log: "log_holds S db p es" and serde: "serde_ok (entry_serde S)" "serde_ok (log_id_serde S)"
    and ok: "list_all (\<lambda>e. entry_index e \<noteq> - 1) new" and app: "append_logs S io db new = (Inr (), db')"
  shows "log_holds S db' p (es @ new)"
proof (cases "new = []")
  case False
  have c: "contiguous (unat (next_index p)) es" using log by (simp add: log_holds_def)
  from app False log obtain puts bytes where
    check: "check_consecutive new = Inr ()" and hd: "entry_index (hd new) = next_index (end_id p es)"
    and puts: "encode_entries S PutLog new = Inr puts"
    and bytes: "encode_record (log_id_serde S) (entry_log_id (last new)) = Inr bytes"
    and db': "db' = foldl write_op db (puts @ [PutMeta KEY_LAST_LOG_ID bytes])"
    by (auto simp: append_logs_def log_holds_def tryS_eq_Inr Let_def sync_write_Inr end_id_def
        split: if_splits)
  have new: "contiguous (unat (next_index p) + length es) new"
    using check_consecutive_contiguous [OF check ok False] next_index_end [OF c] by (simp add: hd)
  obtain m where m: "puts = map (\<lambda>(k, bytes). PutLog k bytes) m" "journal_of S m new"
    using encode_entries_Inr [OF serde(1) puts] .
  have "\<forall>k \<in> fst ` set (db_log db). \<forall>k' \<in> fst ` set m. k < k'"
  proof (intro ballI)
    fix k k' assume "k \<in> fst ` set (db_log db)" "k' \<in> fst ` set m"
    moreover have "journal_of S (db_log db) es" using log by (simp add: log_holds_def)
    ultimately obtain i e where "i < length es" "k = entry_index (es ! i)" "e \<in> set new" "k' = entry_index e"
      using journal_keys_set [OF m(2)] journal_keys_set by (metis (no_types, lifting) imageE in_set_conv_nth)
    then show "k < k'"
      using contiguous_nth [OF c] contiguous_ge [OF new] by (fastforce simp: word_less_nat_alt)
  qed
  then have "foldl (\<lambda>m (k, v). bt_insert k v m) (db_log db) m = db_log db @ m"
    by (intro inserts_above journal_sorted [OF m(2)] contiguous_sorted [OF new])
  then have log': "db_log db' = db_log db @ m"
    and meta': "db_meta db' = bt_insert KEY_LAST_LOG_ID bytes (db_meta db)"
    by (simp_all add: db' m(1) foldl_puts)
  have "last_purged_log_id S db' = last_purged_log_id S db"
    unfolding last_purged_log_id_def by (rule read_meta_cong) (simp add: meta' btree_simps)
  moreover have "last_log_id S db' = Inr (Some (entry_log_id (last new)))"
    unfolding last_log_id_def
    by (rule read_meta_put [OF serde(2) bytes]) (simp add: meta' btree_simps)
  ultimately show ?thesis
    using log False m(2) contiguous_append [OF c new] False
    by (simp add: log_holds_def log' journal_of_append end_id_def)
qed (use assms in \<open>simp add: append_logs_def\<close>)

lemma contiguous_take:
  assumes "contiguous x es" "x \<le> unat from"
  shows "filter (\<lambda>e. entry_index e < from) es = take (unat from - x) es"
  using assms
proof (induction x es rule: contiguous.induct)
  case (2 x e es)
  show ?case
  proof (cases "entry_index e < from")
    case True
    then have "x < unat from" using 2(2) by (simp add: word_less_nat_alt)
    with 2 True show ?thesis by (simp add: take_Cons' Suc_diff_Suc [symmetric])
  next
    case False
    with 2(2,3) have x: "x = unat from" by (simp add: word_less_nat_alt)
    then have "filter (\<lambda>e. entry_index e < from) es = []"
      using contiguous_ge [of "Suc x" es] 2(2) by (force simp: filter_empty_conv word_less_nat_alt)
    with False x show ?thesis by simp
  qed
qed simp

text \<open>The entry just before a truncation point is the last one that stays.\<close>

lemma truncate_previous:
  assumes "journal_of S m es" "contiguous (unat x) es" "x \<le> from" "unat from \<le> unat x + length es"
  shows "(if from = 0 then Inr None
          else (case bt_get m (from - 1) of
                  None \<Rightarrow> Inr None
                | Some bytes \<Rightarrow>
                    bindE (map_err Codec (decode_record (entry_serde S) bytes)) (\<lambda>e. Inr (Some e))))
    = Inr (let kept = filter (\<lambda>e. entry_index e < from) es in if kept = [] then None else Some (last kept))"
proof -
  have le: "unat x \<le> unat from" using assms(3) by (simp add: word_le_nat_alt)
  have kept: "filter (\<lambda>e. entry_index e < from) es = take (unat from - unat x) es"
    using contiguous_take [OF assms(2) le] .
  show ?thesis
  proof (cases "from = x")
    case True
    have "bt_get m (from - 1) = None" if "from \<noteq> 0"
    proof -
      have "unat (from - 1) < unat x" using that True by (simp add: unat_minus_one word_gt_0 unat_gt_0)
      then show ?thesis
        using contiguous_ge [OF assms(2)] journal_keys_set [OF assms(1)] by (force simp: bt_get_None_iff)
    qed
    moreover have "filter (\<lambda>e. entry_index e < from) es = []" using kept True by simp
    ultimately show ?thesis by (simp add: Let_def)
  next
    case False
    then have lt: "unat x < unat from" using le by (metis le_neq_implies_less word_unat_eq_iff)
    let ?i = "unat from - unat x - 1"
    have nz: "from \<noteq> 0" using lt by auto
    have i: "?i < length es" using lt assms(4) by simp
    have "unat (entry_index (es ! ?i)) = unat (from - 1)"
      using contiguous_nth [OF assms(2) i] lt nz by (simp add: unat_minus_one)
    then have k: "entry_index (es ! ?i) = from - 1" by (metis word_unat_eq_iff)
    obtain bytes where "bt_get m (from - 1) = Some bytes" "decode_record (entry_serde S) bytes = Inr (es ! ?i)"
      using journal_get [OF assms(1) contiguous_sorted [OF assms(2)] i] k by auto
    moreover have "take (unat from - unat x) es = take ?i es @ [es ! ?i]"
      using take_Suc_conv_app_nth [OF i] lt by (simp add: Suc_diff_Suc)
    ultimately show ?thesis using nz by (simp add: kept Let_def)
  qed
qed

lemma contiguous_le_last: "contiguous x es \<Longrightarrow> e \<in> set es \<Longrightarrow> entry_index e \<le> entry_index (last es)"
proof -
  assume c: "contiguous x es" and "e \<in> set es"
  then obtain i where i: "i < length es" "e = es ! i" by (auto simp: in_set_conv_nth)
  moreover from i have "last es = es ! (length es - 1)" by (intro last_conv_nth) auto
  ultimately show ?thesis
    using contiguous_nth [OF c, of i] contiguous_nth [OF c, of "length es - 1"]
    by (simp add: word_le_nat_alt)
qed

lemma truncate_deletes:
  assumes "journal_of S (db_log db) es" "contiguous x es"
  shows "db_log (foldl write_op db (case end_id None es of
      Some l \<Rightarrow> if from \<le> log_index l then [DeleteLogRange from (log_index l)] else [] | None \<Rightarrow> []))
    = filter (\<lambda>x. fst x < from) (db_log db)"
proof (cases "es = []")
  case True
  then show ?thesis using assms(1) by (simp add: end_id_def journal_of_def)
next
  case False
  have le: "fst x \<le> entry_index (last es)" if "x \<in> set (db_log db)" for x
    using that journal_keys_set [OF assms(1)] contiguous_le_last [OF assms(2)]
    by (metis (no_types, lifting) image_iff)
  show ?thesis
  proof (cases "from \<le> entry_index (last es)")
    case True
    then show ?thesis using False le
      by (simp add: end_id_def delete_range_def not_le) (intro filter_cong, force+)
  next
    case b: False
    then have "filter (\<lambda>x. fst x < from) (db_log db) = db_log db"
      using le by (force simp: filter_id_conv)
    with b False show ?thesis by (simp add: end_id_def)
  qed
qed

text \<open>A purge point leaves nothing exactly when it reaches the end, and otherwise keeps the end.\<close>

lemma purge_end:
  assumes "contiguous x es"
  shows "filter (\<lambda>e. t < entry_index e) es = [] \<longleftrightarrow> es = [] \<or> entry_index (last es) \<le> t"
    and "filter (\<lambda>e. t < entry_index e) es \<noteq> [] \<Longrightarrow> last (filter (\<lambda>e. t < entry_index e) es) = last es"
proof -
  show 1: "filter (\<lambda>e. t < entry_index e) es = [] \<longleftrightarrow> es = [] \<or> entry_index (last es) \<le> t"
    using contiguous_le_last [OF assms] last_in_set [of es]
    by (auto simp: filter_empty_conv not_less intro: order_trans)
  assume "filter (\<lambda>e. t < entry_index e) es \<noteq> []"
  with 1 have "es \<noteq> []" "t < entry_index (last es)" by auto
  then show "last (filter (\<lambda>e. t < entry_index e) es) = last es"
    by (cases es rule: rev_cases) auto
qed

lemma log_holds_truncate:
  assumes log: "log_holds S db p es" and serde: "serde_ok (log_id_serde S)"
    and ok: "from \<le> next_index (end_id p es)" and tr: "truncate_logs S io db from = (Inr (), db')"
  shows "log_holds S db' p (filter (\<lambda>e. entry_index e < from) es)"
proof -
  let ?kept = "filter (\<lambda>e. entry_index e < from) es"
  have c: "contiguous (unat (next_index p)) es" and j: "journal_of S (db_log db) es"
    and purged: "last_purged_log_id S db = Inr p" and last_id: "last_log_id S db = Inr (end_id None es)"
    and max: "\<forall>l. p = Some l \<longrightarrow> log_index l \<noteq> - 1"
    using log by (simp_all add: log_holds_def)
  have "unat (next_index p) \<le> unat from"
    using tr unat_next_index [OF max]
    by (cases p) (auto simp: truncate_logs_def purged tryS_eq_Inr word_less_nat_alt)
  moreover have "unat from \<le> unat (next_index p) + length es"
    using ok next_index_end [OF c] by (simp add: word_le_nat_alt)
  ultimately have prev: "(if from = 0 then Inr None
          else (case bt_get (db_log db) (from - 1) of
                  None \<Rightarrow> Inr None
                | Some bytes \<Rightarrow>
                    bindE (map_err Codec (decode_record (entry_serde S) bytes)) (\<lambda>e. Inr (Some e))))
    = Inr (let kept = ?kept in if kept = [] then None else Some (last kept))"
    using truncate_previous [OF j c] by (simp add: word_le_nat_alt)
  define deletes where "deletes = (case end_id None es of
      Some l \<Rightarrow> if from \<le> log_index l then [DeleteLogRange from (log_index l)] else [] | None \<Rightarrow> [])"
  obtain op where db': "db' = foldl write_op db (deletes @ [op])"
    and op: "if ?kept = [] then op = DeleteMeta KEY_LAST_LOG_ID
      else \<exists>bytes. encode_record (log_id_serde S) (entry_log_id (last ?kept)) = Inr bytes
             \<and> op = PutMeta KEY_LAST_LOG_ID bytes"
    using tr by (auto simp: truncate_logs_def purged last_id prev tryS_eq_Inr sync_write_Inr
        deletes_def Let_def split: if_splits)
  have "db_log (foldl write_op db deletes) = filter (\<lambda>x. fst x < from) (db_log db)"
    using truncate_deletes [OF j c] by (simp add: deletes_def)
  moreover have "db_meta (foldl write_op db deletes) = db_meta db"
    by (simp add: deletes_def split: option.split)
  ultimately have "db_log db' = filter (\<lambda>x. fst x < from) (db_log db)"
    and meta: "db_meta db' = db_meta (write_op db op)"
    using op by (auto simp: db' split: if_splits)
  moreover have "last_purged_log_id S db' = Inr p"
    using op purged unfolding last_purged_log_id_def
    by (subst read_meta_cong [of _ _ db]) (auto simp: meta btree_simps split: if_splits)
  moreover have "last_log_id S db' = Inr (end_id None ?kept)"
  proof (cases "?kept = []")
    case True
    with op show ?thesis by (simp add: last_log_id_def read_meta_def meta btree_simps end_id_def)
  next
    case False
    with op show ?thesis unfolding last_log_id_def
      by (auto simp: end_id_def meta btree_simps intro!: read_meta_put [OF serde])
  qed
  ultimately show ?thesis
    using journal_filter [OF j, of "\<lambda>k. k < from"] contiguous_less [OF c] max by (simp add: log_holds_def)
qed

lemma log_holds_purge:
  assumes log: "log_holds S db p es" and serde: "serde_ok (log_id_serde S)"
    and ok: "log_index through \<noteq> - 1" and pu: "purge_logs S io db through = (Inr (), db')"
  shows "log_holds S db' (Some through) (filter (\<lambda>e. log_index through < entry_index e) es)"
proof -
  let ?kept = "filter (\<lambda>e. log_index through < entry_index e) es"
  have c: "contiguous (unat (next_index p)) es" and j: "journal_of S (db_log db) es"
    and purged: "last_purged_log_id S db = Inr p" and last_id: "last_log_id S db = Inr (end_id None es)"
    and max: "\<forall>l. p = Some l \<longrightarrow> log_index l \<noteq> - 1"
    using log by (simp_all add: log_holds_def)
  have "unat (next_index p) \<le> unat (log_index through) + 1"
    using pu unat_next_index [OF max]
    by (cases p) (auto simp: purge_logs_def purged tryS_eq_Inr word_le_nat_alt)
  then have c': "contiguous (unat (next_index (Some through))) ?kept"
    using contiguous_greater [OF c _ ok] unat_next_index [of "Some through"] ok by simp
  obtain bytes where bytes: "encode_record (log_id_serde S) through = Inr bytes"
    and db': "db' = foldl write_op db
      ([DeleteLogRange 0 (log_index through), PutMeta KEY_LAST_PURGED_LOG_ID bytes] @
        (case end_id None es of
           Some l \<Rightarrow> if log_index l \<le> log_index through then [DeleteMeta KEY_LAST_LOG_ID] else []
         | None \<Rightarrow> []))"
    using pu by (auto simp: purge_logs_def purged last_id tryS_eq_Inr sync_write_Inr)
  have "db_log db' = filter (\<lambda>x. log_index through < fst x) (db_log db)"
    by (auto simp: db' delete_range_def not_le intro!: filter_cong split: option.split)
  moreover have "last_purged_log_id S db' = Inr (Some through)"
    unfolding last_purged_log_id_def
    by (rule read_meta_put [OF serde bytes]) (simp add: db' btree_simps split: option.split)
  moreover have "last_log_id S db' = Inr (end_id None ?kept)"
    using purge_end [OF c, of "log_index through"] last_id
    by (auto simp: last_log_id_def read_meta_def db' btree_simps end_id_def)
  ultimately show ?thesis
    using journal_filter [OF j, of "\<lambda>k. log_index through < k"] c' ok by (simp add: log_holds_def)
qed

lemma log_call_error:
  assumes "log_call S io db c = (Inl e, db')"
  shows "db' = db"
  using assms
  by (cases c)
    (auto simp: append_logs_def truncate_logs_def purge_logs_def Let_def split: tryS_split_asm if_splits
      dest: sync_write_Inl)

lemma journal_scan:
  assumes "journal_of S (db_log db) es" "contiguous x es"
  shows "scan_logs S db Unbounded Unbounded = Inr es"
proof -
  have "fst y < - 1" if "y \<in> set (db_log db)" for y
  proof -
    from that journal_keys_set [OF assms(1)] obtain i where i: "i < length es" "fst y = entry_index (es ! i)"
      by (metis (no_types, lifting) imageE image_eqI in_set_conv_nth)
    then have "unat (fst y) + 1 < 2 ^ 64"
      using contiguous_nth [OF assms(2)] contiguous_bound [OF assms(2)] by simp
    then show ?thesis by (metis unat_below_max word_order.not_eq_extremum)
  qed
  then have "takeWhile (\<lambda>(k, _). k < range_end Unbounded)
      (dropWhile (\<lambda>(k, _). k < range_start Unbounded) (db_log db)) = db_log db"
    by (auto simp: takeWhile_eq_all_conv range_end_def range_start_def dropWhile_eq_self_iff)
  then show ?thesis using assms(1)
    by (simp add: scan_logs_def mapE_eq_Inr journal_of_def list_all2_conv_all_nth split_beta)
qed

lemma install_clears_journal:
  assumes "install_snapshot S io config n meta data = (Inr (), (db', st'))" "serde_ok (meta_serde S)"
  shows "db_applied db' = []"
proof -
  obtain db st where n: "n = (db, st)" by fastforce
  obtain r db1 where save: "save_snapshot S io db \<lparr>snap_meta = meta, snap_data = data\<rparr> True = (r, db1)"
    by fastforce
  with assms(1) n have "save_snapshot S io db \<lparr>snap_meta = meta, snap_data = data\<rparr> True = (Inr (), db')"
    by (auto simp: install_snapshot_def install_write_def tryS_eq_Inr split: prod.splits)
  from save_snapshot_Inr(2) [OF assms(2) this] show ?thesis
    by (simp add: delete_range_def filter_empty_conv)
qed

lemma snapshot_save_valid:
  "snapshot_save S io name db st = (Inr sn, db') \<Longrightarrow> validate_cluster_membership st = Inr ()"
  by (auto simp: snapshot_save_def tryS_eq_Inr)

section \<open>A concrete node\<close>

text \<open>A serialization that knows a fixed table of values.\<close>

definition table_serde :: "'a list \<Rightarrow> 'a Serde" where
  "table_serde xs =
     \<lparr>ser = (\<lambda>v. case List.find (\<lambda>i. xs ! i = v) [0..<length xs] of
              None \<Rightarrow> Inl ''unknown value'' | Some i \<Rightarrow> Inr [of_nat i]),
      de = (\<lambda>bytes. case bytes of
              [b] \<Rightarrow> if unat b < length xs then Inr (xs ! unat b) else Inl ''unknown tag''
            | _ \<Rightarrow> Inl ''unknown tag'')\<rparr>"

lemma table_serde_ok: "length xs \<le> 256 \<Longrightarrow> serde_ok (table_serde xs)"
  by (auto simp: serde_ok_def table_serde_def find_Some_iff unat_of_nat split: option.splits)

lemma table_encodes:
  assumes "v \<in> set xs" shows "\<exists>r. encode_record (table_serde xs) v = Inr r \<and> length r = 14"
proof -
  from assms obtain i where "i < length xs" "xs ! i = v" by (auto simp: in_set_conv_nth)
  then have "List.find (\<lambda>i. xs ! i = v) [0..<length xs] \<noteq> None" by (auto simp: find_None_iff)
  then obtain b where "ser (table_serde xs) v = Inr [b]" by (auto simp: table_serde_def)
  then show ?thesis
    by (simp add: encode_record_def encode_def wrap_record_def wrap_record_at_version_def
        MAX_ENCODED_BYTES_def)
qed

definition ex_clone :: MachineState where "ex_clone = snapshot_clone (ex_state ex_log 3)"

definition ex_meta :: "MachineState \<Rightarrow> SnapshotMeta" where
  "ex_meta st = \<lparr>snap_last_log_id = last_applied_log_id st, snap_last_membership = ms_membership st,
     snapshot_id = ''s''\<rparr>"

definition ex_serde :: RaftSerde where
  "ex_serde = \<lparr>entry_serde = table_serde ex_log, log_id_serde = table_serde (map entry_log_id ex_log),
     config_serde = table_serde [ex_config], node_id_serde = table_serde [1],
     meta_serde = table_serde [ex_meta ex_clone, ex_meta (ex_state ex_log 6)],
     machine_serde = table_serde [ex_clone, ex_state ex_log 6]\<rparr>"

definition ex_db :: Db where "ex_db = \<lparr>db_log = [], db_meta = [], db_applied = []\<rparr>"

lemma ex_serdes_ok: "serdes_ok ex_serde" "serde_ok (log_id_serde ex_serde)" "serde_ok (entry_serde ex_serde)"
  by (simp_all add: serdes_ok_def ex_serde_def table_serde_ok ex_log_def)

lemma ex_fresh: "node_run ex_bincode ex_membership ex_serde ex_config (started_node ex_db ex_start False)"
  by (rule node_run.fresh [OF _ _ ex_start]) (simp_all add: ex_db_def load_snapshot_def read_meta_def)

lemma ex_encode_entries:
  "set es \<subseteq> set ex_log \<Longrightarrow> \<exists>ops. encode_entries ex_serde put es = Inr ops"
proof (induction es)
  case (Cons e es)
  then obtain ops where "encode_entries ex_serde put es = Inr ops" by auto
  moreover obtain r where "encode_record (entry_serde ex_serde) e = Inr r"
    using Cons.prems table_encodes [of e ex_log] by (auto simp: ex_serde_def)
  ultimately show ?case by (simp add: encode_entries_def)
qed (simp add: encode_entries_def)

lemma ex_sequence: "validate_applied_entry_sequence (last_applied_log_id ex_start) ex_log = Inr ()"
  unfolding not_isl_unit [symmetric] by code_simp

lemma ex_journal:
  assumes "set es \<subseteq> set ex_log" "validate_applied_entry_sequence (last_applied_log_id st) es = Inr ()"
  shows "\<exists>db'. journal_batch ex_serde None db st es = (Inr (), db')"
proof -
  obtain ops where "encode_entries ex_serde PutApplied es = Inr ops"
    using ex_encode_entries [OF assms(1)] by auto
  then show ?thesis using assms(2) by (simp add: journal_batch_def append_applied_def sync_write_def)
qed

lemma ex_halves:
  "validate_applied_entry_sequence (last_applied_log_id ex_start) (take 3 ex_log) = Inr ()"
  "validate_applied_entry_sequence (last_applied_log_id ex_clone) (drop 3 ex_log) = Inr ()"
  unfolding not_isl_unit [symmetric] by code_simp+

lemma ex_below_max: "below_max ex_start (take 3 ex_log)" "below_max ex_clone (drop 3 ex_log)"
proof -
  have "last_applied_log_id ex_start = None" "map_option log_index (last_applied_log_id ex_clone) = Some 2"
    "list_all (\<lambda>e. entry_index e \<noteq> - 1) (take 3 ex_log)" "list_all (\<lambda>e. entry_index e \<noteq> - 1) (drop 3 ex_log)"
    by code_simp+
  then show "below_max ex_start (take 3 ex_log)" "below_max ex_clone (drop 3 ex_log)"
    by (auto simp: below_max_def)
qed

lemma ex_first_half:
  "\<exists>rs. apply_loop ex_bincode ex_start (take 3 ex_log) = (Inr rs, ex_state ex_log 3)"
  using apply_loop_run [of ex_start "take 3 ex_log" ex_bincode] ex_halves(1)
    ex_run_prefix [OF ex_log_runs, of 3]
  by (auto simp: validate_applied_entry_sequence_def)

lemma ex_second_half:
  "snd (apply_loop ex_bincode ex_clone (drop 3 ex_log)) =
     (ex_state ex_log 6)\<lparr>snapshot_generation := snapshot_generation ex_clone\<rparr>"
proof -
  have r3: "run_entries ex_bincode ex_start (take 3 ex_log) = Inr (ex_state ex_log 3)"
    and "run_entries ex_bincode ex_start (take 6 ex_log) = Inr (ex_state ex_log 6)"
    using ex_run_prefix [OF ex_log_runs] by blast+
  then have "run_entries ex_bincode ex_start (take 3 ex_log @ drop 3 ex_log) = Inr (ex_state ex_log 6)"
    by (simp add: ex_log_facts(1))
  then have "run_entries ex_bincode (ex_state ex_log 3) (drop 3 ex_log) = Inr (ex_state ex_log 6)"
    by (simp only: run_entries_append r3 bindE_simps)
  from run_entries_generation [OF this, of "snapshot_generation ex_clone"]
  have "run_entries ex_bincode ex_clone (drop 3 ex_log) =
      Inr ((ex_state ex_log 6)\<lparr>snapshot_generation := snapshot_generation ex_clone\<rparr>)"
    by (simp add: ex_clone_def snapshot_clone_def)
  with apply_loop_run [of ex_clone "drop 3 ex_log" ex_bincode] ex_halves(2) show ?thesis
    by (auto simp: validate_applied_entry_sequence_def)
qed

lemma ex_valid_states:
  "validate_cluster_membership (ex_state ex_log 6) = Inr ()"
  "validate_cluster_membership (ex_state ex_log 3) = Inr ()"
  "validate_config (ex_state ex_log 6) ex_config = Inr ()"
  "validate_config (ex_state ex_log 3) ex_config = Inr ()"
  unfolding not_isl_unit [symmetric] by code_simp+

lemma ex_save_snapshot:
  assumes "m \<in> {ex_meta ex_clone, ex_meta (ex_state ex_log 6)}" "length data = 14"
  shows "\<exists>db'. save_snapshot ex_serde None db \<lparr>snap_meta = m, snap_data = data\<rparr> b = (Inr (), db')"
proof -
  obtain r where "encode_record (meta_serde ex_serde) m = Inr r"
    using table_encodes [of m "[ex_meta ex_clone, ex_meta (ex_state ex_log 6)]"] assms(1)
    by (auto simp: ex_serde_def)
  then show ?thesis using assms(2)
    by (simp add: save_snapshot_def wrap_record_def wrap_record_at_version_def MAX_ENCODED_BYTES_def
        Let_def sync_write_def)
qed

lemma ex_machine_data:
  assumes "st \<in> {ex_clone, ex_state ex_log 6}"
  shows "\<exists>data. encode_record (machine_serde ex_serde) st = Inr data \<and> length data = 14 \<and>
    decode_record (machine_serde ex_serde) data = Inr st"
proof -
  obtain data where "encode_record (machine_serde ex_serde) st = Inr data" "length data = 14"
    using table_encodes [of st "[ex_clone, ex_state ex_log 6]"] assms by (auto simp: ex_serde_def)
  moreover from this have "decode_record (machine_serde ex_serde) data = Inr st"
    using decode_encode_record ex_serdes_ok(1) by (auto simp: serdes_ok_def)
  ultimately show ?thesis by blast
qed

lemma ex_install:
  "\<exists>data db. install_snapshot ex_serde None ex_config (ex_db, ex_clone) (ex_meta (ex_state ex_log 6)) data
     = (Inr (), (db, ex_state ex_log 6))"
proof -
  obtain data where d: "length data = 14" "decode_record (machine_serde ex_serde) data = Inr (ex_state ex_log 6)"
    using ex_machine_data [of "ex_state ex_log 6"] by auto
  obtain db where "save_snapshot ex_serde None ex_db
      \<lparr>snap_meta = ex_meta (ex_state ex_log 6), snap_data = data\<rparr> True = (Inr (), db)"
    using ex_save_snapshot d(1) by blast
  with d(2) ex_valid_states(3) ex_valid_states(1) show ?thesis
    by (intro exI [of _ data] exI [of _ db])
      (simp add: install_snapshot_def install_write_def ex_meta_def validate_config_def)
qed

lemma ex_late_save:
  "\<exists>sn db'. snapshot_save ex_serde None ''s'' db ex_clone = (Inr sn, db')"
proof -
  obtain data where d: "encode_record (machine_serde ex_serde) ex_clone = Inr data" "length data = 14"
    using ex_machine_data [of ex_clone] by auto
  obtain db' where "save_snapshot ex_serde None db \<lparr>snap_meta = ex_meta ex_clone, snap_data = data\<rparr> False
      = (Inr (), db')"
    using ex_save_snapshot d(2) by blast
  moreover have "validate_cluster_membership ex_clone = Inr ()"
    using ex_valid_states(2) by (simp add: ex_clone_def snapshot_clone_def)
  ultimately show ?thesis using d(1) by (simp add: snapshot_save_def ex_meta_def)
qed

text \<open>A node whose clone of three entries is written while the next three are in the journal and
  not applied yet.\<close>

lemma ex_running:
  "\<exists>n. node_run ex_bincode ex_membership ex_serde ex_config n \<and> \<not> late_write n \<and> installing n = None \<and>
     run_machine n = ex_clone \<and> journaled n = Some (drop 3 ex_log) \<and>
     load_snapshot ex_serde (run_db n) \<noteq> Inr None"
proof -
  let ?run = "node_run ex_bincode ex_membership ex_serde ex_config"
  obtain db1 where j1: "journal_batch ex_serde None ex_db ex_start (take 3 ex_log) = (Inr (), db1)"
    using ex_journal [OF set_take_subset ex_halves(1)] by blast
  obtain rs where loop: "apply_loop ex_bincode ex_start (take 3 ex_log) = (Inr rs, ex_state ex_log 3)"
    using ex_first_half by blast
  let ?n1 = "(started_node ex_db ex_start False)\<lparr>run_db := db1, journaled := Some (take 3 ex_log)\<rparr>"
  have "?run ?n1"
    using node_run.journal [OF ex_fresh, of "take 3 ex_log" None "Inr ()" db1] j1 ex_below_max(1)
    by (simp add: started_node_def)
  from node_run.apply_journaled [OF this, of "take 3 ex_log" "Inr rs" "ex_state ex_log 3"] loop
  have "?run (started_node db1 (ex_state ex_log 3) False)" by (simp add: started_node_def)
  from node_run.clone [OF this]
  have run2: "?run ((started_node db1 ex_clone False)\<lparr>builders := [(ex_clone, False)]\<rparr>)"
    by (simp add: started_node_def ex_clone_def)
  obtain db2 where j2: "journal_batch ex_serde None db1 ex_clone (drop 3 ex_log) = (Inr (), db2)"
    using ex_journal [OF set_drop_subset ex_halves(2)] by blast
  let ?n3 = "(started_node db2 ex_clone False)\<lparr>builders := [(ex_clone, False)], journaled := Some (drop 3 ex_log)\<rparr>"
  have run3: "?run ?n3"
    using node_run.journal [OF run2, of "drop 3 ex_log" None "Inr ()" db2] j2 ex_below_max(2)
    by (simp add: started_node_def)
  obtain sn db3 where s: "snapshot_save ex_serde None ''s'' db2 ex_clone = (Inr sn, db3)"
    using ex_late_save by blast
  from node_run.save [OF run3, of "[]" ex_clone False "[]" None "''s''" sn db3] s
  have "?run ((started_node db3 ex_clone False)\<lparr>journaled := Some (drop 3 ex_log)\<rparr>)"
    by (simp add: started_node_def mark_overtaken_def)
  moreover have "load_snapshot ex_serde db3 \<noteq> Inr None"
    using snapshot_save_loads [OF _ s] ex_serdes_ok(1) by (simp add: serdes_ok_def)
  ultimately show ?thesis
    by (intro exI [of _ "(started_node db3 ex_clone False)\<lparr>journaled := Some (drop 3 ex_log)\<rparr>"])
      (simp add: started_node_def)
qed

section \<open>Claims\<close>

text \<open>C10. A node that stops at any moment recovers on restart exactly the machine it was bringing
  about: the machine in memory, the one after a batch that is in the journal and not applied yet, or
  the one of an installed snapshot that is not in memory yet. This holds after any interleaving of
  applied batches, installed snapshots, log writes, restarts and any number of concurrent
  snapshot builders that clone the machine and write the clone later, where every write may fail and
  log indices stay below the last 64-bit one. The one condition is on the builders: none of them
  replaces a snapshot that was written after it made its clone, or that was being installed when it
  made it. Loading the database then gives that machine up to the snapshot counter, or the error of
  the membership check on it.\<close>

theorem restart_recovers:
  assumes "node_run B M0 S config n" "serdes_ok S" "\<not> late_write n"
  shows "\<exists>g. load_machine B M0 S config (run_db n) =
     bindE (map_err MembershipFailure (validate_cluster_membership (durable_machine B n)))
       (\<lambda>_. Inr ((durable_machine B n)\<lparr>snapshot_generation := g\<rparr>))"
  using recovers_load node_run_ok [OF assms] by (simp add: node_ok_def)

theorem restart_recovers_witness:
  "\<exists>n g. node_run ex_bincode ex_membership ex_serde ex_config n \<and> \<not> late_write n \<and>
     run_machine n = ex_clone \<and> journaled n = Some (drop 3 ex_log) \<and>
     load_snapshot ex_serde (run_db n) \<noteq> Inr None \<and>
     load_machine ex_bincode ex_membership ex_serde ex_config (run_db n) =
       Inr ((ex_state ex_log 6)\<lparr>snapshot_generation := g\<rparr>)"
proof -
  from ex_running obtain n where n: "node_run ex_bincode ex_membership ex_serde ex_config n"
    "\<not> late_write n" "installing n = None" "run_machine n = ex_clone" "journaled n = Some (drop 3 ex_log)"
    "load_snapshot ex_serde (run_db n) \<noteq> Inr None" by blast
  then have d: "durable_machine ex_bincode n =
      (ex_state ex_log 6)\<lparr>snapshot_generation := snapshot_generation ex_clone\<rparr>"
    by (simp add: durable_machine_def ex_second_half)
  from restart_recovers [OF n(1) ex_serdes_ok(1) n(2)] obtain g where
    "load_machine ex_bincode ex_membership ex_serde ex_config (run_db n) =
      Inr ((ex_state ex_log 6)\<lparr>snapshot_generation := g\<rparr>)"
    unfolding d by (auto simp: ex_valid_states)
  with n show ?thesis by blast
qed

text \<open>C11. The RocksDB log implements the log Raft sees, a purge point and the entries after it without
  a gap: a call that fails leaves it as it was, a call that succeeds makes the change its name
  says, and afterwards a scan returns the entries and the reported state is where they begin and
  end.\<close>

theorem log_refines:
  assumes "log_holds S db p es" "serde_ok (entry_serde S)" "serde_ok (log_id_serde S)"
    and "log_call S io db c = (r, db')" "call_ok c (p, es)" "(p', es') = spec_call c (p, es)"
  shows "(\<exists>e. r = Inl e) \<and> db' = db \<or>
    r = Inr () \<and> log_holds S db' p' es' \<and> scan_logs S db' Unbounded Unbounded = Inr es' \<and>
      get_log_state S db' = Inr (p', end_id p' es')"
proof (cases r)
  case (Inl e)
  then show ?thesis using assms(4) log_call_error by blast
next
  case (Inr u)
  have "log_holds S db' p' es'"
    using assms Inr
    by (cases c) (auto intro: log_holds_append log_holds_truncate log_holds_purge)
  moreover from this have "scan_logs S db' Unbounded Unbounded = Inr es'"
    by (auto simp: log_holds_def intro: journal_scan)
  ultimately show ?thesis using Inr by (auto simp: log_holds_def get_log_state_def end_id_def)
qed

theorem log_refines_witness:
  "\<exists>db. log_call ex_serde None ex_db (AppendLogs ex_log) = (Inr (), db) \<and>
     scan_logs ex_serde db Unbounded Unbounded = Inr ex_log"
proof -
  have "log_holds ex_serde ex_db None []"
    by (simp add: log_holds_def ex_db_def last_purged_log_id_def last_log_id_def read_meta_def end_id_def
        journal_of_def next_index_def)
  note refines = log_refines [OF this ex_serdes_ok(3,2)]
  have "\<not> isl (check_consecutive ex_log)" "entry_index (hd ex_log) = 0" "ex_log \<noteq> []"
    "call_ok (AppendLogs ex_log) (None, [])"
    by code_simp+
  moreover obtain ops where "encode_entries ex_serde PutLog ex_log = Inr ops"
    using ex_encode_entries [of ex_log] by auto
  moreover obtain r where "encode_record (log_id_serde ex_serde) (entry_log_id (last ex_log)) = Inr r"
    using table_encodes [of "entry_log_id (last ex_log)" "map entry_log_id ex_log"] calculation(3)
    by (auto simp: ex_serde_def)
  ultimately obtain db where "log_call ex_serde None ex_db (AppendLogs ex_log) = (Inr (), db)"
    and "call_ok (AppendLogs ex_log) (None, [])"
    by (cases "check_consecutive ex_log")
      (auto simp: append_logs_def ex_db_def last_purged_log_id_def last_log_id_def read_meta_def
        next_index_def sync_write_def)
  with refines [OF this] show ?thesis by simp
qed

text \<open>C13. A snapshot that was cloned before another one was installed, and is written after it,
  takes the installed one's place on disk: a restart then recovers the older machine, with every
  entry since removed from the journal.\<close>

theorem late_snapshot_write_reverts:
  assumes "serdes_ok S" "validate_config st config = Inr ()"
    and "install_snapshot S io config (db, snapshot_clone st) meta data = (Inr (), (db1, installed))"
    and "snapshot_save S io' name db1 (snapshot_clone st) = (Inr sn, db2)"
  shows "\<exists>g. load_machine B M0 S config db2 = Inr (st\<lparr>snapshot_generation := g\<rparr>)"
proof -
  have "db_applied db1 = []"
    using install_clears_journal [OF assms(3)] assms(1) by (simp add: serdes_ok_def)
  then have "recovers B M0 S config db2 (snapshot_clone st)"
    using assms by (intro snapshot_save_recovers [OF _ _ assms(4)])
      (simp_all add: serdes_ok_def validate_config_def snapshot_clone_def)
  from recovers_load [OF this] snapshot_save_valid [OF assms(4)] show ?thesis
    by (simp add: snapshot_clone_def)
qed

theorem late_snapshot_write_reverts_witness:
  "\<exists>data db1 sn db2 g.
     install_snapshot ex_serde None ex_config (ex_db, snapshot_clone (ex_state ex_log 3))
       (ex_meta (ex_state ex_log 6)) data = (Inr (), (db1, ex_state ex_log 6)) \<and>
     snapshot_save ex_serde None ''s'' db1 (snapshot_clone (ex_state ex_log 3)) = (Inr sn, db2) \<and>
     load_machine ex_bincode ex_membership ex_serde ex_config db2 =
       Inr ((ex_state ex_log 3)\<lparr>snapshot_generation := g\<rparr>) \<and>
     last_applied_log_id (ex_state ex_log 3) = Some (entry_log_id (ex_log ! 2)) \<and>
     last_applied_log_id (ex_state ex_log 6) = Some (entry_log_id (ex_log ! 5))"
proof -
  obtain data db1 where i: "install_snapshot ex_serde None ex_config (ex_db, snapshot_clone (ex_state ex_log 3))
      (ex_meta (ex_state ex_log 6)) data = (Inr (), (db1, ex_state ex_log 6))"
    using ex_install by (auto simp: ex_clone_def)
  obtain sn db2 where s: "snapshot_save ex_serde None ''s'' db1 (snapshot_clone (ex_state ex_log 3)) = (Inr sn, db2)"
    using ex_late_save [of db1] by (auto simp: ex_clone_def)
  have "last_applied_log_id (ex_state ex_log 3) = Some (entry_log_id (ex_log ! 2))"
    "last_applied_log_id (ex_state ex_log 6) = Some (entry_log_id (ex_log ! 5))"
    by code_simp+
  with i s late_snapshot_write_reverts [OF ex_serdes_ok(1) ex_valid_states(4) i s] show ?thesis by blast
qed

end
