(* ===== verification/Authz_Model.thy ===== *)
theory Authz_Model
  imports Keldra_Prelude
begin

text \<open>
  Data and schema compilation of the authorization kernel,
  \<^verbatim>\<open>keldra-authz/src/model.rs\<close> and \<^verbatim>\<open>schema.rs\<close>: realms, objects, usersets and
  tuples with their validation, and the compilation of a schema into ordered maps with every
  reference resolved. Sizes and limits are Rust \<^verbatim>\<open>usize\<close> values, here 64 bits wide.
\<close>

section \<open>Names and identifiers\<close>

definition DEFAULT_REALM_ID :: string where "DEFAULT_REALM_ID = ''default''"
definition SYSTEM_REALM_ID :: string where "SYSTEM_REALM_ID = ''_keldra/system''"
definition PUBLIC_SUBJECT_NAMESPACE :: string where "PUBLIC_SUBJECT_NAMESPACE = ''app''"
definition PUBLIC_SUBJECT_ID :: string where "PUBLIC_SUBJECT_ID = ''_keldra/public''"
definition ANONYMOUS_SUBJECT_ID :: string where "ANONYMOUS_SUBJECT_ID = ''_keldra/anonymous''"
definition MAX_REALM_ID_BYTES :: nat where "MAX_REALM_ID_BYTES = 256"
definition MAX_NAMESPACE_BYTES :: nat where "MAX_NAMESPACE_BYTES = 256"
definition MAX_RELATION_BYTES :: nat where "MAX_RELATION_BYTES = 256"
definition MAX_OPAQUE_ID_BYTES :: nat where "MAX_OPAQUE_ID_BYTES = 4096"
definition MAX_PATH_BYTES :: nat where "MAX_PATH_BYTES = 4096"

datatype AuthorizationError =
    InvalidRealm string
  | InvalidLimits string
  | InvalidSchema string
  | InvalidTuple nat string
  | InvalidCheck string
  | EvaluationLimit string usize

definition display_error :: "AuthorizationError \<Rightarrow> string" where
  "display_error e =
     (case e of
        InvalidRealm reason \<Rightarrow> ''invalid authorization realm: '' @ reason
      | InvalidLimits reason \<Rightarrow> ''invalid authorization limits: '' @ reason
      | InvalidSchema reason \<Rightarrow> ''invalid authorization schema: '' @ reason
      | InvalidTuple index reason \<Rightarrow> ''invalid authorization tuple: '' @ reason
      | InvalidCheck reason \<Rightarrow> ''invalid authorization check: '' @ reason
      | EvaluationLimit limit maximum \<Rightarrow>
          ''authorization evaluation exceeded '' @ limit @ '' limit '')"

section \<open>Objects, usersets and tuples\<close>

datatype ExactPath = ExactPath (path_tenant: string) (path_bucket: string) (path_path: string)

datatype ObjectId = Opaque string | ExactPathId ExactPath

datatype ObjectRef = ObjectRef (object_namespace: string) (object_id: ObjectId)

datatype UsersetRef = UsersetRef (userset_object: ObjectRef) (userset_relation: string)

datatype TupleSubject = SubjectObject ObjectRef | SubjectUserset UsersetRef

datatype Tuple =
  Tuple (tuple_object: ObjectRef) (tuple_relation: string) (tuple_subject: TupleSubject)

definition public_object :: ObjectRef where
  "public_object = ObjectRef PUBLIC_SUBJECT_NAMESPACE (Opaque PUBLIC_SUBJECT_ID)"

definition anonymous_object :: ObjectRef where
  "anonymous_object = ObjectRef PUBLIC_SUBJECT_NAMESPACE (Opaque ANONYMOUS_SUBJECT_ID)"

definition is_anonymous :: "ObjectRef \<Rightarrow> bool" where
  "is_anonymous obj \<longleftrightarrow>
     object_namespace obj = PUBLIC_SUBJECT_NAMESPACE
     \<and> (case object_id obj of Opaque i \<Rightarrow> i = ANONYMOUS_SUBJECT_ID | _ \<Rightarrow> False)"

definition is_public :: "ObjectRef \<Rightarrow> bool" where
  "is_public obj \<longleftrightarrow>
     object_namespace obj = PUBLIC_SUBJECT_NAMESPACE
     \<and> (case object_id obj of Opaque i \<Rightarrow> i = PUBLIC_SUBJECT_ID | _ \<Rightarrow> False)"

section \<open>Schemas\<close>

datatype AllowedSubject =
    AnyObject string
  | AnyUserset string string
  | Exact TupleSubject
  | SameResourceId string
  | Public

datatype RewriteRule = Inherit string | TupleToUserset string string

datatype RelationKind = DirectKind "AllowedSubject list" | PermissionKind "RewriteRule list"

record RelationDefinition =
  relation_name :: string
  relation_kind :: RelationKind

record NamespaceDefinition =
  namespace_name :: string
  namespace_relations :: "RelationDefinition list"

type_synonym Schema = "NamespaceDefinition list"

record AuthorizationLimits =
  max_namespaces :: usize
  max_relations_per_namespace :: usize
  max_items_per_relation :: usize
  max_tuples :: usize
  max_depth :: usize
  max_steps :: usize

record AuthorizationCheck =
  check_subject :: ObjectRef
  check_object :: ObjectRef
  check_relation :: string

section \<open>The derived orders\<close>

text \<open>
  \<^verbatim>\<open>#[derive(Ord)]\<close> compares the variant first and then the fields in order. Each order is
  the lexicographic order of a key.
\<close>

definition path_key :: "ExactPath \<Rightarrow> string list" where
  "path_key p = [path_tenant p, path_bucket p, path_path p]"

definition id_key :: "ObjectId \<Rightarrow> nat \<times> string list" where
  "id_key i = (case i of Opaque s \<Rightarrow> (0, [s]) | ExactPathId p \<Rightarrow> (1, path_key p))"

definition object_key :: "ObjectRef \<Rightarrow> string \<times> nat \<times> string list" where
  "object_key r = (object_namespace r, id_key (object_id r))"

definition userset_key :: "UsersetRef \<Rightarrow> (string \<times> nat \<times> string list) \<times> string" where
  "userset_key u = (object_key (userset_object u), userset_relation u)"

definition subject_key ::
    "TupleSubject \<Rightarrow> nat \<times> (string \<times> nat \<times> string list) \<times> string" where
  "subject_key s =
     (case s of SubjectObject r \<Rightarrow> (0, object_key r, []) | SubjectUserset u \<Rightarrow> (1, userset_key u))"

definition allowed_key ::
    "AllowedSubject \<Rightarrow> nat \<times> string list \<times> (nat \<times> (string \<times> nat \<times> string list) \<times> string) list" where
  "allowed_key a =
     (case a of
        AnyObject n \<Rightarrow> (0, [n], [])
      | AnyUserset n r \<Rightarrow> (1, [n, r], [])
      | Exact s \<Rightarrow> (2, [], [subject_key s])
      | SameResourceId n \<Rightarrow> (3, [n], [])
      | Public \<Rightarrow> (4, [], []))"

definition rule_key :: "RewriteRule \<Rightarrow> nat \<times> string list" where
  "rule_key r = (case r of Inherit s \<Rightarrow> (0, [s]) | TupleToUserset a b \<Rightarrow> (1, [a, b]))"

lemma path_key_inj [simp]: "path_key a = path_key b \<longleftrightarrow> a = b"
  by (cases a; cases b) (simp add: path_key_def)

lemma id_key_inj [simp]: "id_key a = id_key b \<longleftrightarrow> a = b"
  by (cases a; cases b) (simp_all add: id_key_def)

lemma object_key_inj [simp]: "object_key a = object_key b \<longleftrightarrow> a = b"
  by (cases a; cases b) (simp add: object_key_def)

lemma userset_key_inj [simp]: "userset_key a = userset_key b \<longleftrightarrow> a = b"
  by (cases a; cases b) (simp add: userset_key_def)

lemma subject_key_inj [simp]: "subject_key a = subject_key b \<longleftrightarrow> a = b"
  by (cases a; cases b) (simp_all add: subject_key_def)

lemma allowed_key_inj [simp]: "allowed_key a = allowed_key b \<longleftrightarrow> a = b"
  by (cases a; cases b) (simp_all add: allowed_key_def)

lemma rule_key_inj [simp]: "rule_key a = rule_key b \<longleftrightarrow> a = b"
  by (cases a; cases b) (simp_all add: rule_key_def)

instantiation ObjectRef :: linorder
begin

definition less_eq_ObjectRef :: "ObjectRef \<Rightarrow> ObjectRef \<Rightarrow> bool" where
  "a \<le> b \<longleftrightarrow> object_key a \<le> object_key b"

definition less_ObjectRef :: "ObjectRef \<Rightarrow> ObjectRef \<Rightarrow> bool" where
  "a < b \<longleftrightarrow> object_key a < object_key b"

instance
  by standard (auto simp: less_eq_ObjectRef_def less_ObjectRef_def less_le)

end

instantiation UsersetRef :: linorder
begin

definition less_eq_UsersetRef :: "UsersetRef \<Rightarrow> UsersetRef \<Rightarrow> bool" where
  "a \<le> b \<longleftrightarrow> userset_key a \<le> userset_key b"

definition less_UsersetRef :: "UsersetRef \<Rightarrow> UsersetRef \<Rightarrow> bool" where
  "a < b \<longleftrightarrow> userset_key a < userset_key b"

instance
  by standard (auto simp: less_eq_UsersetRef_def less_UsersetRef_def less_le)

end

instantiation AllowedSubject :: linorder
begin

definition less_eq_AllowedSubject :: "AllowedSubject \<Rightarrow> AllowedSubject \<Rightarrow> bool" where
  "a \<le> b \<longleftrightarrow> allowed_key a \<le> allowed_key b"

definition less_AllowedSubject :: "AllowedSubject \<Rightarrow> AllowedSubject \<Rightarrow> bool" where
  "a < b \<longleftrightarrow> allowed_key a < allowed_key b"

instance
  by standard (auto simp: less_eq_AllowedSubject_def less_AllowedSubject_def less_le)

end

instantiation RewriteRule :: linorder
begin

definition less_eq_RewriteRule :: "RewriteRule \<Rightarrow> RewriteRule \<Rightarrow> bool" where
  "a \<le> b \<longleftrightarrow> rule_key a \<le> rule_key b"

definition less_RewriteRule :: "RewriteRule \<Rightarrow> RewriteRule \<Rightarrow> bool" where
  "a < b \<longleftrightarrow> rule_key a < rule_key b"

instance
  by standard (auto simp: less_eq_RewriteRule_def less_RewriteRule_def less_le)

end

section \<open>Validation of names\<close>

definition validate_bounded :: "string \<Rightarrow> string \<Rightarrow> nat \<Rightarrow> string + unit" where
  "validate_bounded v label maximum =
     bindE (ensure (v \<noteq> []) (label @ '' must not be empty'')) (\<lambda>_.
     bindE (ensure (length v \<le> maximum) (label @ '' exceeds its bytes'')) (\<lambda>_.
     ensure (\<not> has_control v) (label @ '' must not contain control characters'')))"

definition validate_namespace :: "string \<Rightarrow> string + unit" where
  "validate_namespace v =
     bindE (validate_bounded v ''namespace'' MAX_NAMESPACE_BYTES) (\<lambda>_.
     ensure (v \<notin> {''.'', ''..''} \<and> \<not> list_ex (\<lambda>c. c \<in> set ''/:#'') v)
       ''namespace must be one safe component'')"

definition validate_relation :: "string \<Rightarrow> string + unit" where
  "validate_relation v =
     bindE (validate_bounded v ''relation'' MAX_RELATION_BYTES) (\<lambda>_.
     ensure (v \<notin> {''.'', ''..''} \<and> \<not> list_ex (\<lambda>c. c \<in> set ''/#'') v)
       ''relation must be one safe component'')"

definition validate_realm_id :: "string \<Rightarrow> string + unit" where
  "validate_realm_id v =
     (if v = SYSTEM_REALM_ID then Inr ()
      else
      bindE (validate_bounded v ''realm id'' MAX_REALM_ID_BYTES) (\<lambda>_.
      ensure (v \<notin> {''.'', ''..''} \<and> \<not> list_ex (\<lambda>c. c \<in> set ''/:#'') v)
        ''realm id must be one canonical non-reserved component''))"

definition validate_opaque_id :: "string \<Rightarrow> string + unit" where
  "validate_opaque_id v = validate_bounded v ''object id'' MAX_OPAQUE_ID_BYTES"

definition validate_exact_path :: "ExactPath \<Rightarrow> string + unit" where
  "validate_exact_path v =
     bindE (validate_bounded (path_tenant v) ''tenant'' MAX_NAMESPACE_BYTES) (\<lambda>_.
     bindE (validate_bounded (path_bucket v) ''bucket'' MAX_NAMESPACE_BYTES) (\<lambda>_.
     bindE (ensure (CHR ''/'' \<notin> set (path_tenant v) \<and> CHR ''/'' \<notin> set (path_bucket v))
              ''tenant and bucket must not contain `/`'') (\<lambda>_.
     bindE (validate_bounded (path_path v) ''path'' MAX_PATH_BYTES) (\<lambda>_.
     ensure (\<not> (path_path v \<noteq> [] \<and> hd (path_path v) = CHR ''/'')
             \<and> \<not> (path_path v \<noteq> [] \<and> last (path_path v) = CHR ''/'')
             \<and> \<not> list_ex (\<lambda>segment. segment = [] \<or> segment \<in> {''.'', ''..''})
                   (split_on (CHR ''/'') (path_path v)))
       ''path must contain canonical non-empty relative segments''))))"

definition validate_object :: "ObjectRef \<Rightarrow> string + unit" where
  "validate_object obj =
     bindE (validate_namespace (object_namespace obj)) (\<lambda>_.
     (case object_id obj of
        Opaque i \<Rightarrow> validate_opaque_id i
      | ExactPathId p \<Rightarrow> validate_exact_path p))"

definition validate_userset :: "UsersetRef \<Rightarrow> string + unit" where
  "validate_userset u =
     bindE (validate_object (userset_object u)) (\<lambda>_. validate_relation (userset_relation u))"

definition validate_tuple_subject :: "TupleSubject \<Rightarrow> string + unit" where
  "validate_tuple_subject s =
     (case s of
        SubjectObject obj \<Rightarrow> validate_object obj
      | SubjectUserset u \<Rightarrow> validate_userset u)"

definition realm_parse :: "string \<Rightarrow> AuthorizationError + string" where
  "realm_parse v = bindE (map_err InvalidRealm (validate_realm_id v)) (\<lambda>_. Inr v)"

definition realm_custom :: "string \<Rightarrow> AuthorizationError + string" where
  "realm_custom v =
     bindE (ensure (v \<noteq> SYSTEM_REALM_ID) (InvalidRealm ''`` is reserved'')) (\<lambda>_. realm_parse v)"

definition realm_is_system :: "string \<Rightarrow> bool" where
  "realm_is_system realm \<longleftrightarrow> realm = SYSTEM_REALM_ID"

definition exact_path_new :: "string \<Rightarrow> string \<Rightarrow> string \<Rightarrow> AuthorizationError + ExactPath" where
  "exact_path_new tenant bucket path =
     (let v = ExactPath tenant bucket path in
      bindE (map_err InvalidCheck (validate_exact_path v)) (\<lambda>_. Inr v))"

definition object_opaque :: "string \<Rightarrow> string \<Rightarrow> AuthorizationError + ObjectRef" where
  "object_opaque namespace i =
     (let v = ObjectRef namespace (Opaque i) in
      bindE (map_err InvalidCheck (validate_object v)) (\<lambda>_. Inr v))"

definition object_exact_path :: "string \<Rightarrow> ExactPath \<Rightarrow> AuthorizationError + ObjectRef" where
  "object_exact_path namespace path =
     (let v = ObjectRef namespace (ExactPathId path) in
      bindE (map_err InvalidCheck (validate_object v)) (\<lambda>_. Inr v))"

definition userset_new :: "ObjectRef \<Rightarrow> string \<Rightarrow> AuthorizationError + UsersetRef" where
  "userset_new obj relation =
     (let v = UsersetRef obj relation in
      bindE (map_err InvalidCheck (validate_userset v)) (\<lambda>_. Inr v))"

definition limits_default :: AuthorizationLimits where
  "limits_default = \<lparr>max_namespaces = 256, max_relations_per_namespace = 256,
     max_items_per_relation = 256, max_tuples = 65536, max_depth = 32, max_steps = 16384\<rparr>"

definition validate_limits :: "AuthorizationLimits \<Rightarrow> AuthorizationError + unit" where
  "validate_limits l =
     forE (\<lambda>(name, v). ensure (v \<noteq> 0) (InvalidLimits (name @ '' must be nonzero'')))
       [(''max_namespaces'', max_namespaces l),
        (''max_relations_per_namespace'', max_relations_per_namespace l),
        (''max_items_per_relation'', max_items_per_relation l),
        (''max_tuples'', max_tuples l),
        (''max_depth'', max_depth l),
        (''max_steps'', max_steps l)]"

section \<open>Compiled schemas\<close>

datatype CompiledRelation = Direct "AllowedSubject list" | Permission "RewriteRule list"

type_synonym CompiledNamespace = "(string, CompiledRelation) btree"
type_synonym CompiledSchema = "(string, CompiledNamespace) btree"

definition schema_relation :: "CompiledSchema \<Rightarrow> string \<Rightarrow> string \<Rightarrow> CompiledRelation option" where
  "schema_relation schema namespace relation =
     Option.bind (bt_get schema namespace) (\<lambda>ns. bt_get ns relation)"

definition require_relation ::
    "CompiledSchema \<Rightarrow> string \<Rightarrow> string \<Rightarrow> AuthorizationError + CompiledRelation" where
  "require_relation schema namespace relation =
     ok_or (InvalidCheck (''relation `'' @ namespace @ ''#'' @ relation @ ''` is not declared''))
       (schema_relation schema namespace relation)"

definition require_schema_relation ::
    "CompiledSchema \<Rightarrow> string \<Rightarrow> string \<Rightarrow> string \<Rightarrow> AuthorizationError + CompiledRelation" where
  "require_schema_relation schema namespace relation label =
     ok_or (InvalidSchema (label @ '' `'' @ namespace @ ''#'' @ relation @ ''` is not declared''))
       (schema_relation schema namespace relation)"

definition direct_allowed ::
    "CompiledSchema \<Rightarrow> UsersetRef \<Rightarrow> AuthorizationError + AllowedSubject list" where
  "direct_allowed schema u =
     bindE (ok_or (InvalidSchema (''tuple targets undeclared relation `''
              @ object_namespace (userset_object u) @ ''#'' @ userset_relation u @ ''`''))
              (schema_relation schema (object_namespace (userset_object u)) (userset_relation u)))
       (\<lambda>relation. case relation of
          Direct allowed_subjects \<Rightarrow> Inr allowed_subjects
        | Permission _ \<Rightarrow> Inl (InvalidSchema (''permission `'' @ object_namespace (userset_object u)
            @ ''#'' @ userset_relation u @ ''` cannot be written as a tuple'')))"

definition tuple_target :: "AllowedSubject \<Rightarrow> (string \<times> string option) option" where
  "tuple_target allowed =
     (case allowed of
        AnyObject namespace \<Rightarrow> Some (namespace, None)
      | SameResourceId namespace \<Rightarrow> Some (namespace, None)
      | AnyUserset namespace relation \<Rightarrow> Some (namespace, Some relation)
      | Exact (SubjectObject obj) \<Rightarrow> Some (object_namespace obj, None)
      | Exact (SubjectUserset u) \<Rightarrow>
          Some (object_namespace (userset_object u), Some (userset_relation u))
      | Public \<Rightarrow> None)"

text \<open>\<^verbatim>\<open>validate_references\<close>, split into its two match arms.\<close>

definition validate_allowed_reference ::
    "CompiledSchema \<Rightarrow> AllowedSubject \<Rightarrow> AuthorizationError + unit" where
  "validate_allowed_reference schema allowed =
     (case allowed of
        AnyUserset namespace relation \<Rightarrow>
          bindE (require_schema_relation schema namespace relation ''allowed userset'') (\<lambda>_. Inr ())
      | Exact (SubjectUserset u) \<Rightarrow>
          bindE (require_schema_relation schema (object_namespace (userset_object u))
                   (userset_relation u) ''allowed userset'') (\<lambda>_. Inr ())
      | _ \<Rightarrow> Inr ())"

definition validate_rule_reference ::
    "CompiledSchema \<Rightarrow> string \<Rightarrow> string \<Rightarrow> RewriteRule \<Rightarrow> AuthorizationError + unit" where
  "validate_rule_reference schema ns_name rel_name rule =
     (case rule of
        Inherit relation \<Rightarrow>
          bindE (require_schema_relation schema ns_name relation ''inherited'') (\<lambda>_. Inr ())
      | TupleToUserset tuple_rel target_relation \<Rightarrow>
          bindE (require_schema_relation schema ns_name tuple_rel ''tuple-to-userset source'')
            (\<lambda>source.
          (case source of
             Permission _ \<Rightarrow> Inl (InvalidSchema (''tuple-to-userset source `'' @ ns_name @ ''#''
               @ tuple_rel @ ''` for `'' @ ns_name @ ''#'' @ rel_name @ ''` is not direct''))
           | Direct allowed_subjects \<Rightarrow>
               forE (\<lambda>allowed.
                 bindE (ok_or (InvalidSchema (''tuple-to-userset source `'' @ ns_name @ ''#''
                          @ tuple_rel @ ''` cannot allow the public subject''))
                          (tuple_target allowed)) (\<lambda>(target_namespace, constrained_relation).
                 bindE (ensure (case constrained_relation of
                                  None \<Rightarrow> True | Some relation \<Rightarrow> relation = target_relation)
                          (InvalidSchema (''tuple-to-userset target `'' @ target_namespace @ ''#''
                             @ target_relation @ ''` conflicts with allowed userset relation''))) (\<lambda>_.
                 bindE (require_schema_relation schema target_namespace target_relation
                          ''tuple-to-userset target'') (\<lambda>_.
                 Inr ())))) allowed_subjects)))"

definition validate_references :: "CompiledSchema \<Rightarrow> AuthorizationError + unit" where
  "validate_references schema =
     forE (\<lambda>(ns_name, ns).
       forE (\<lambda>(rel_name, relation).
         (case relation of
            Direct allowed_subjects \<Rightarrow> forE (validate_allowed_reference schema) allowed_subjects
          | Permission rules \<Rightarrow>
              forE (validate_rule_reference schema ns_name rel_name) rules))
         ns) schema"

definition validate_item_count ::
    "string \<Rightarrow> RelationDefinition \<Rightarrow> nat \<Rightarrow> AuthorizationLimits \<Rightarrow> AuthorizationError + unit" where
  "validate_item_count namespace relation count limits =
     bindE (ensure (count \<noteq> 0) (InvalidSchema (''relation `'' @ namespace @ ''#''
              @ relation_name relation @ ''` must not be empty''))) (\<lambda>_.
     ensure (count \<le> unat (max_items_per_relation limits)) (InvalidSchema (''relation `'' @ namespace
       @ ''#'' @ relation_name relation @ ''` has too many items'')))"

definition validate_allowed_subject :: "AllowedSubject \<Rightarrow> AuthorizationError + unit" where
  "validate_allowed_subject subject =
     (case subject of
        AnyObject namespace \<Rightarrow> map_err InvalidSchema (validate_namespace namespace)
      | SameResourceId namespace \<Rightarrow> map_err InvalidSchema (validate_namespace namespace)
      | AnyUserset namespace relation \<Rightarrow>
          bindE (map_err InvalidSchema (validate_namespace namespace)) (\<lambda>_.
          map_err InvalidSchema (validate_relation relation))
      | Exact s \<Rightarrow>
          bindE (map_err InvalidSchema (validate_tuple_subject s)) (\<lambda>_.
          bindE (ensure (case s of SubjectObject obj \<Rightarrow> \<not> is_public obj | _ \<Rightarrow> True)
                   (InvalidSchema ''the reserved public subject must use the public selector'')) (\<lambda>_.
          (case s of
             SubjectUserset u \<Rightarrow> map_err InvalidSchema (validate_userset u)
           | _ \<Rightarrow> Inr ())))
      | Public \<Rightarrow> Inr ())"

definition validate_rule :: "RewriteRule \<Rightarrow> string + unit" where
  "validate_rule rule =
     (case rule of
        Inherit relation \<Rightarrow> validate_relation relation
      | TupleToUserset tuple_rel target_relation \<Rightarrow>
          bindE (validate_relation tuple_rel) (\<lambda>_. validate_relation target_relation))"

text \<open>The loop of a \<^verbatim>\<open>BTreeSet\<close> or \<^verbatim>\<open>BTreeMap\<close> that refuses a duplicate.\<close>

definition insert_unique :: "'e \<Rightarrow> 'a::linorder list \<Rightarrow> 'a \<Rightarrow> 'e + 'a list" where
  "insert_unique err s x = (if x \<in> set s then Inl err else Inr (bs_insert x s))"

definition compile_relation ::
    "string \<Rightarrow> RelationDefinition \<Rightarrow> AuthorizationLimits \<Rightarrow> AuthorizationError + CompiledRelation" where
  "compile_relation namespace relation limits =
     bindE (map_err InvalidSchema (validate_relation (relation_name relation))) (\<lambda>_.
     (case relation_kind relation of
        DirectKind allowed_subjects \<Rightarrow>
          bindE (validate_item_count namespace relation (length allowed_subjects) limits) (\<lambda>_.
          bindE (foldE (\<lambda>allowed subject.
                   bindE (validate_allowed_subject subject) (\<lambda>_.
                   insert_unique (InvalidSchema (''duplicate allowed subject on `'' @ namespace
                     @ ''#'' @ relation_name relation @ ''`'')) allowed subject)) [] allowed_subjects)
            (\<lambda>allowed. Inr (Direct allowed)))
      | PermissionKind rules \<Rightarrow>
          bindE (validate_item_count namespace relation (length rules) limits) (\<lambda>_.
          bindE (foldE (\<lambda>canonical rule.
                   bindE (map_err InvalidSchema (validate_rule rule)) (\<lambda>_.
                   insert_unique (InvalidSchema (''duplicate rewrite rule on `'' @ namespace
                     @ ''#'' @ relation_name relation @ ''`'')) canonical rule)) [] rules)
            (\<lambda>canonical. Inr (Permission canonical)))))"

definition compile_namespace ::
    "NamespaceDefinition \<Rightarrow> AuthorizationLimits \<Rightarrow> AuthorizationError + CompiledNamespace" where
  "compile_namespace namespace limits =
     bindE (map_err InvalidSchema (validate_namespace (namespace_name namespace))) (\<lambda>_.
     bindE (ensure (namespace_relations namespace \<noteq> []) (InvalidSchema (''namespace `''
              @ namespace_name namespace @ ''` must contain at least one relation''))) (\<lambda>_.
     bindE (ensure (length (namespace_relations namespace)
                    \<le> unat (max_relations_per_namespace limits)) (InvalidSchema (''namespace `''
              @ namespace_name namespace @ ''` has too many relations''))) (\<lambda>_.
     foldE (\<lambda>relations relation.
       bindE (compile_relation (namespace_name namespace) relation limits) (\<lambda>compiled.
       if bt_contains_key relations (relation_name relation)
       then Inl (InvalidSchema (''duplicate relation `'' @ namespace_name namespace @ ''#''
              @ relation_name relation @ ''`''))
       else Inr (bt_insert (relation_name relation) compiled relations)))
       [] (namespace_relations namespace))))"

definition compile_schema ::
    "Schema \<Rightarrow> AuthorizationLimits \<Rightarrow> AuthorizationError + CompiledSchema" where
  "compile_schema schema limits =
     bindE (validate_limits limits) (\<lambda>_.
     bindE (ensure (schema \<noteq> [])
              (InvalidSchema ''schema must contain at least one namespace'')) (\<lambda>_.
     bindE (ensure (length schema \<le> unat (max_namespaces limits))
              (InvalidSchema ''schema has too many namespaces'')) (\<lambda>_.
     bindE (foldE (\<lambda>namespaces namespace.
              bindE (compile_namespace namespace limits) (\<lambda>compiled.
              if bt_contains_key namespaces (namespace_name namespace)
              then Inl (InvalidSchema (''duplicate namespace `'' @ namespace_name namespace @ ''`''))
              else Inr (bt_insert (namespace_name namespace) compiled namespaces))) [] schema)
       (\<lambda>compiled.
     bindE (validate_references compiled) (\<lambda>_.
     Inr compiled)))))"

definition validate_schema :: "Schema \<Rightarrow> AuthorizationLimits \<Rightarrow> AuthorizationError + unit" where
  "validate_schema schema limits = bindE (compile_schema schema limits) (\<lambda>_. Inr ())"

end
