(* ===== verification/Authz_Evaluator.thy ===== *)
theory Authz_Evaluator
  imports Authz_Model
begin

text \<open>
  The evaluator of the authorization kernel, \<^verbatim>\<open>keldra-authz/src/evaluator.rs\<close>: indexing a
  tuple set, and the depth- and step-bounded search with its set of usersets in progress and the
  memo that \<^verbatim>\<open>check_many\<close> shares between checks. The specification is the inductive relation
  \<open>granted\<close>: what the schema's rules and the tuples entail.

  The recursion of \<^verbatim>\<open>resolve\<close> carries a depth that grows up to \<^verbatim>\<open>max_depth\<close>; here it
  counts the levels that are left, so it is structural. The loops that call it take the recursive
  call as an argument.
\<close>

section \<open>Indexed tuples\<close>

record DirectSubjects =
  direct_objects :: "ObjectRef list"
  direct_usersets :: "UsersetRef list"

record Authorization =
  auth_realm_id :: string
  auth_schema :: CompiledSchema
  auth_tuples :: "(UsersetRef, DirectSubjects) btree"
  auth_tuple_count :: nat
  auth_limits :: AuthorizationLimits

definition selector_matches :: "AllowedSubject \<Rightarrow> Tuple \<Rightarrow> bool" where
  "selector_matches selector t =
     (case (selector, tuple_subject t) of
        (AnyObject namespace, SubjectObject subject) \<Rightarrow>
          object_namespace subject = namespace \<and> \<not> is_public subject
      | (AnyUserset namespace relation, SubjectUserset subject) \<Rightarrow>
          object_namespace (userset_object subject) = namespace \<and> userset_relation subject = relation
      | (Exact subject, candidate) \<Rightarrow> subject = candidate
      | (SameResourceId namespace, SubjectObject subject) \<Rightarrow>
          object_namespace subject = namespace \<and> object_id subject = object_id (tuple_object t)
          \<and> \<not> is_public subject
      | (Public, SubjectObject subject) \<Rightarrow> is_public subject
      | _ \<Rightarrow> False)"

definition tuple_userset :: "Tuple \<Rightarrow> UsersetRef" where
  "tuple_userset t = UsersetRef (tuple_object t) (tuple_relation t)"

definition validate_tuple :: "CompiledSchema \<Rightarrow> Tuple \<Rightarrow> string + unit" where
  "validate_tuple schema t =
     bindE (validate_object (tuple_object t)) (\<lambda>_.
     bindE (validate_relation (tuple_relation t)) (\<lambda>_.
     bindE (map_err display_error (direct_allowed schema (tuple_userset t))) (\<lambda>allowed.
     bindE (case tuple_subject t of
              SubjectObject subject \<Rightarrow> validate_object subject
            | SubjectUserset subject \<Rightarrow>
                bindE (validate_userset subject) (\<lambda>_.
                bindE (map_err display_error (require_relation schema
                         (object_namespace (userset_object subject)) (userset_relation subject)))
                  (\<lambda>_. Inr ()))) (\<lambda>_.
     ensure (list_ex (\<lambda>selector. selector_matches selector t) allowed)
       (''subject is not allowed on direct relation `'' @ object_namespace (tuple_object t) @ ''#''
         @ tuple_relation t @ ''`'')))))"

definition insert_subject :: "DirectSubjects \<Rightarrow> TupleSubject \<Rightarrow> (bool \<times> DirectSubjects)" where
  "insert_subject members subject =
     (case subject of
        SubjectObject s \<Rightarrow> (s \<notin> set (direct_objects members),
          members\<lparr>direct_objects := bs_insert s (direct_objects members)\<rparr>)
      | SubjectUserset s \<Rightarrow> (s \<notin> set (direct_usersets members),
          members\<lparr>direct_usersets := bs_insert s (direct_usersets members)\<rparr>))"

definition add_tuple ::
    "CompiledSchema \<Rightarrow> AuthorizationLimits \<Rightarrow> (UsersetRef, DirectSubjects) btree \<times> nat \<Rightarrow> Tuple \<Rightarrow>
       AuthorizationError + (UsersetRef, DirectSubjects) btree \<times> nat" where
  "add_tuple schema limits acc t =
     (let (indexed, index) = acc in
      bindE (ensure (index + 1 \<le> unat (max_tuples limits))
               (InvalidSchema ''tuple set has too many entries'')) (\<lambda>_.
      bindE (map_err (InvalidTuple index) (validate_tuple schema t)) (\<lambda>_.
      let members = (case bt_get indexed (tuple_userset t) of
                       Some m \<Rightarrow> m | None \<Rightarrow> \<lparr>direct_objects = [], direct_usersets = []\<rparr>);
          (inserted, members') = insert_subject members (tuple_subject t) in
      bindE (ensure inserted (InvalidTuple index ''duplicate tuple'')) (\<lambda>_.
      Inr (bt_insert (tuple_userset t) members' indexed, index + 1)))))"

definition authorization_new ::
    "string \<Rightarrow> Schema \<Rightarrow> Tuple list \<Rightarrow> AuthorizationLimits \<Rightarrow> AuthorizationError + Authorization" where
  "authorization_new realm schema tuples limits =
     bindE (compile_schema schema limits) (\<lambda>compiled.
     bindE (foldE (add_tuple compiled limits) ([], 0) tuples) (\<lambda>(indexed, count).
     Inr \<lparr>auth_realm_id = realm, auth_schema = compiled, auth_tuples = indexed,
           auth_tuple_count = count, auth_limits = limits\<rparr>))"

section \<open>Evaluation\<close>

record Evaluator =
  visited :: "UsersetRef list"
  allowed :: "(ObjectRef \<times> UsersetRef) list"
  max_allowed :: usize
  steps :: usize

type_synonym 'a eval = "Evaluator \<Rightarrow> (AuthorizationError + 'a) \<times> Evaluator"

definition step :: "Authorization \<Rightarrow> unit eval" where
  "step A ev =
     (let s = saturating_add (steps ev) 1 in
      (ensure (s \<le> max_steps (auth_limits A)) (EvaluationLimit ''step'' (max_steps (auth_limits A))),
       ev\<lparr>steps := s\<rparr>))"

text \<open>The loop that counts a step and evaluates a candidate until one holds.\<close>

fun any_step :: "Authorization \<Rightarrow> ('a \<Rightarrow> bool eval) \<Rightarrow> 'a list \<Rightarrow> bool eval" where
  "any_step A f [] ev = (Inr False, ev)"
| "any_step A f (x # xs) ev =
     (let (stepped, ev1) = step A ev in
      tryS stepped ev1 (\<lambda>_.
      let (result, ev2) = f x ev1 in
      tryS result ev2 (\<lambda>holds. if holds then (Inr True, ev2) else any_step A f xs ev2)))"

definition resolve_direct ::
    "Authorization \<Rightarrow> (UsersetRef \<Rightarrow> bool eval) \<Rightarrow> UsersetRef \<Rightarrow> ObjectRef \<Rightarrow> bool eval" where
  "resolve_direct A resolve u subject ev =
     (case bt_get (auth_tuples A) u of
        None \<Rightarrow> (Inr False, ev)
      | Some tuple_subjects \<Rightarrow>
          if subject \<in> set (direct_objects tuple_subjects) then (Inr True, ev)
          else any_step A resolve (direct_usersets tuple_subjects) ev)"

definition tuple_targets :: "DirectSubjects \<Rightarrow> ObjectRef list" where
  "tuple_targets targets = direct_objects targets @ map userset_object (direct_usersets targets)"

definition resolve_rule ::
    "Authorization \<Rightarrow> (UsersetRef \<Rightarrow> bool eval) \<Rightarrow> UsersetRef \<Rightarrow> RewriteRule \<Rightarrow> bool eval" where
  "resolve_rule A resolve u rule ev =
     (case rule of
        Inherit relation \<Rightarrow> resolve (UsersetRef (userset_object u) relation) ev
      | TupleToUserset tuple_rel target_relation \<Rightarrow>
          (case bt_get (auth_tuples A) (UsersetRef (userset_object u) tuple_rel) of
             None \<Rightarrow> (Inr False, ev)
           | Some targets \<Rightarrow>
               any_step A (\<lambda>target_object. resolve (UsersetRef target_object target_relation))
                 (tuple_targets targets) ev))"

definition resolve_rules ::
    "Authorization \<Rightarrow> (UsersetRef \<Rightarrow> bool eval) \<Rightarrow> UsersetRef \<Rightarrow> RewriteRule list \<Rightarrow> bool eval" where
  "resolve_rules A resolve u rules = any_step A (resolve_rule A resolve u) rules"

fun resolve :: "Authorization \<Rightarrow> nat \<Rightarrow> ObjectRef \<Rightarrow> UsersetRef \<Rightarrow> bool eval" where
  "resolve A 0 subject u ev =
     (Inl (EvaluationLimit ''depth'' (max_depth (auth_limits A))), ev)"
| "resolve A (Suc levels) subject u ev =
     (let (stepped, ev1) = step A ev in
      tryS stepped ev1 (\<lambda>_.
      let memoized = max_allowed ev1 \<noteq> 0 in
      if memoized \<and> (subject, u) \<in> set (allowed ev1) then (Inr True, ev1)
      else if u \<in> set (visited ev1) then (Inr False, ev1)
      else
      let ev2 = ev1\<lparr>visited := bs_insert u (visited ev1)\<rparr> in
      tryS (require_relation (auth_schema A) (object_namespace (userset_object u))
              (userset_relation u)) ev2 (\<lambda>relation.
      let (result, ev3) =
        (case relation of
           Direct _ \<Rightarrow> resolve_direct A (resolve A levels subject) u subject ev2
         | Permission rules \<Rightarrow> resolve_rules A (resolve A levels subject) u rules ev2) in
      tryS result ev3 (\<lambda>holds.
      let ev4 = ev3\<lparr>visited := filter (\<lambda>v. v \<noteq> u) (visited ev3)\<rparr> in
      (Inr holds,
       if holds \<and> length (allowed ev4) < unat (max_allowed ev4) \<and> memoized
       then ev4\<lparr>allowed := bs_insert (subject, u) (allowed ev4)\<rparr> else ev4)))))"

definition validate_check :: "Authorization \<Rightarrow> AuthorizationCheck \<Rightarrow> AuthorizationError + unit" where
  "validate_check A c =
     bindE (map_err InvalidCheck (validate_object (check_subject c))) (\<lambda>_.
     bindE (map_err InvalidCheck (validate_object (check_object c))) (\<lambda>_.
     bindE (map_err InvalidCheck (validate_relation (check_relation c))) (\<lambda>_.
     bindE (require_relation (auth_schema A) (object_namespace (check_object c)) (check_relation c))
       (\<lambda>_. Inr ()))))"

definition check_userset :: "AuthorizationCheck \<Rightarrow> UsersetRef" where
  "check_userset c = UsersetRef (check_object c) (check_relation c)"

definition check_with_memo ::
    "Authorization \<Rightarrow> AuthorizationCheck \<Rightarrow> (ObjectRef \<times> UsersetRef) list \<Rightarrow> usize \<Rightarrow>
       (AuthorizationError + bool) \<times> (ObjectRef \<times> UsersetRef) list" where
  "check_with_memo A c memo maximum =
     tryS (validate_check A c) memo (\<lambda>_.
     let (result, ev) = resolve A (unat (max_depth (auth_limits A))) (check_subject c) (check_userset c)
           \<lparr>visited = [], allowed = memo, max_allowed = maximum, steps = 0\<rparr> in
     (result, allowed ev))"

definition check :: "Authorization \<Rightarrow> AuthorizationCheck \<Rightarrow> AuthorizationError + bool" where
  "check A c = fst (check_with_memo A c [] 0)"

definition saturating_mul :: "'a::len word \<Rightarrow> 'a word \<Rightarrow> 'a word" where
  "saturating_mul a b = (if unat a * unat b < 2 ^ LENGTH('a) then a * b else - 1)"

fun check_each ::
    "Authorization \<Rightarrow> AuthorizationCheck list \<Rightarrow> (ObjectRef \<times> UsersetRef) list \<Rightarrow> usize \<Rightarrow>
       AuthorizationError + bool list" where
  "check_each A [] memo maximum = Inr []"
| "check_each A (c # cs) memo maximum =
     (let (result, memo') = check_with_memo A c memo maximum in
      bindE result (\<lambda>b. bindE (check_each A cs memo' maximum) (\<lambda>bs. Inr (b # bs))))"

definition check_many ::
    "Authorization \<Rightarrow> AuthorizationCheck list \<Rightarrow> AuthorizationError + bool list" where
  "check_many A cs =
     check_each A cs []
       (min (saturating_mul (of_nat (length cs)) (max_depth (auth_limits A)))
            (max_steps (auth_limits A)))"

definition check_exact_path ::
    "Authorization \<Rightarrow> ObjectRef \<Rightarrow> string \<Rightarrow> ExactPath \<Rightarrow> string \<Rightarrow> AuthorizationError + bool" where
  "check_exact_path A subject namespace path relation =
     bindE (object_exact_path namespace path) (\<lambda>obj.
     check A \<lparr>check_subject = subject, check_object = obj, check_relation = relation\<rparr>)"

section \<open>What the rules entail\<close>

inductive granted :: "Authorization \<Rightarrow> ObjectRef \<Rightarrow> UsersetRef \<Rightarrow> bool" for A subject where
  tuple: "schema_relation (auth_schema A) (object_namespace (userset_object u)) (userset_relation u)
      = Some (Direct selectors) \<Longrightarrow>
    bt_get (auth_tuples A) u = Some members \<Longrightarrow> subject \<in> set (direct_objects members) \<Longrightarrow>
    granted A subject u"
| nested: "schema_relation (auth_schema A) (object_namespace (userset_object u)) (userset_relation u)
      = Some (Direct selectors) \<Longrightarrow>
    bt_get (auth_tuples A) u = Some members \<Longrightarrow> v \<in> set (direct_usersets members) \<Longrightarrow>
    granted A subject v \<Longrightarrow> granted A subject u"
| inherit: "schema_relation (auth_schema A) (object_namespace (userset_object u)) (userset_relation u)
      = Some (Permission rules) \<Longrightarrow> Inherit relation \<in> set rules \<Longrightarrow>
    granted A subject (UsersetRef (userset_object u) relation) \<Longrightarrow> granted A subject u"
| follow: "schema_relation (auth_schema A) (object_namespace (userset_object u)) (userset_relation u)
      = Some (Permission rules) \<Longrightarrow> TupleToUserset tuple_rel target_relation \<in> set rules \<Longrightarrow>
    bt_get (auth_tuples A) (UsersetRef (userset_object u) tuple_rel) = Some members \<Longrightarrow>
    target \<in> set (tuple_targets members) \<Longrightarrow>
    granted A subject (UsersetRef target target_relation) \<Longrightarrow> granted A subject u"

section \<open>The graph the search walks\<close>

text \<open>
  \<open>holds_at\<close> and \<open>edges\<close> are one level of the search: whether a userset names the subject
  itself, and the usersets it sends the search to. \<open>reach\<close> is the existence of a path to such
  a userset that avoids the usersets in progress.
\<close>

definition userset_kind :: "Authorization \<Rightarrow> UsersetRef \<Rightarrow> CompiledRelation option" where
  "userset_kind A u =
     schema_relation (auth_schema A) (object_namespace (userset_object u)) (userset_relation u)"

definition holds_at :: "Authorization \<Rightarrow> ObjectRef \<Rightarrow> UsersetRef \<Rightarrow> bool" where
  "holds_at A subject u \<longleftrightarrow>
     (case userset_kind A u of
        Some (Direct _) \<Rightarrow>
          (case bt_get (auth_tuples A) u of
             Some members \<Rightarrow> subject \<in> set (direct_objects members) | None \<Rightarrow> False)
      | _ \<Rightarrow> False)"

definition rule_edges :: "Authorization \<Rightarrow> UsersetRef \<Rightarrow> RewriteRule \<Rightarrow> UsersetRef list" where
  "rule_edges A u rule =
     (case rule of
        Inherit relation \<Rightarrow> [UsersetRef (userset_object u) relation]
      | TupleToUserset tuple_rel target_relation \<Rightarrow>
          (case bt_get (auth_tuples A) (UsersetRef (userset_object u) tuple_rel) of
             None \<Rightarrow> []
           | Some targets \<Rightarrow> map (\<lambda>target. UsersetRef target target_relation) (tuple_targets targets)))"

definition edges :: "Authorization \<Rightarrow> UsersetRef \<Rightarrow> UsersetRef list" where
  "edges A u =
     (case userset_kind A u of
        Some (Direct _) \<Rightarrow>
          (case bt_get (auth_tuples A) u of Some members \<Rightarrow> direct_usersets members | None \<Rightarrow> [])
      | Some (Permission rules) \<Rightarrow> concat (map (rule_edges A u) rules)
      | None \<Rightarrow> [])"

inductive reach :: "Authorization \<Rightarrow> ObjectRef \<Rightarrow> UsersetRef set \<Rightarrow> UsersetRef \<Rightarrow> bool"
  for A subject V where
  here: "u \<notin> V \<Longrightarrow> holds_at A subject u \<Longrightarrow> reach A subject V u"
| there: "u \<notin> V \<Longrightarrow> v \<in> set (edges A u) \<Longrightarrow> reach A subject V v \<Longrightarrow> reach A subject V u"

inductive_cases reachE: "reach A subject V u"

lemma edgesE:
  assumes "v \<in> set (edges A u)"
  obtains (nested) selectors members where "userset_kind A u = Some (Direct selectors)"
      "bt_get (auth_tuples A) u = Some members" "v \<in> set (direct_usersets members)"
  | (inherit) rules relation where "userset_kind A u = Some (Permission rules)"
      "Inherit relation \<in> set rules" "v = UsersetRef (userset_object u) relation"
  | (follow) rules tuple_rel target_relation members target where
      "userset_kind A u = Some (Permission rules)"
      "TupleToUserset tuple_rel target_relation \<in> set rules"
      "bt_get (auth_tuples A) (UsersetRef (userset_object u) tuple_rel) = Some members"
      "target \<in> set (tuple_targets members)" "v = UsersetRef target target_relation"
proof (cases "userset_kind A u")
  case (Some k)
  show thesis
  proof (cases k)
    case (Direct selectors)
    with Some assms that(1) show thesis
      by (cases "bt_get (auth_tuples A) u") (simp_all add: edges_def)
  next
    case (Permission rules)
    with Some assms obtain rule where rule: "rule \<in> set rules" "v \<in> set (rule_edges A u rule)"
      by (auto simp: edges_def)
    show thesis
    proof (cases rule)
      case (Inherit relation)
      with rule Some Permission that(2) show thesis by (simp add: rule_edges_def)
    next
      case (TupleToUserset a b)
      with rule Some Permission that(3) show thesis
        by (cases "bt_get (auth_tuples A) (UsersetRef (userset_object u) a)")
          (auto simp: rule_edges_def)
    qed
  qed
qed (use assms in \<open>simp add: edges_def\<close>)

lemma edges_nested:
  "userset_kind A u = Some (Direct selectors) \<Longrightarrow> bt_get (auth_tuples A) u = Some members \<Longrightarrow>
     v \<in> set (direct_usersets members) \<Longrightarrow> v \<in> set (edges A u)"
  by (simp add: edges_def)

lemma edges_rule:
  "userset_kind A u = Some (Permission rules) \<Longrightarrow> rule \<in> set rules \<Longrightarrow>
     v \<in> set (rule_edges A u rule) \<Longrightarrow> v \<in> set (edges A u)"
  by (auto simp: edges_def)

lemma holds_at_iff:
  "holds_at A subject u \<longleftrightarrow> (\<exists>selectors members. userset_kind A u = Some (Direct selectors) \<and>
     bt_get (auth_tuples A) u = Some members \<and> subject \<in> set (direct_objects members))"
  by (simp add: holds_at_def split: option.split CompiledRelation.split)

lemma granted_edge:
  assumes "v \<in> set (edges A u)" "granted A subject v"
  shows "granted A subject u"
  using assms(1)
proof (cases rule: edgesE)
  case (nested selectors members)
  with assms(2) show ?thesis by (auto simp: userset_kind_def intro: granted.nested)
next
  case (inherit rules relation)
  with assms(2) show ?thesis by (auto simp: userset_kind_def intro: granted.inherit)
next
  case (follow rules tuple_rel target_relation members target)
  with assms(2) show ?thesis by (auto simp: userset_kind_def intro: granted.follow)
qed

lemma granted_here: "holds_at A subject u \<Longrightarrow> granted A subject u"
  unfolding holds_at_iff userset_kind_def by (elim exE conjE) (rule granted.tuple)

lemma reach_granted: "reach A subject V u \<Longrightarrow> granted A subject u"
  by (induction rule: reach.induct) (auto intro: granted_here granted_edge)

lemma granted_reach: "granted A subject u \<Longrightarrow> reach A subject {} u"
proof (induction rule: granted.induct)
  case (tuple u selectors members)
  then have "holds_at A subject u" by (simp add: holds_at_iff userset_kind_def)
  then show ?case by (simp add: reach.here)
next
  case (nested u selectors members v)
  then have "v \<in> set (edges A u)"
    by (intro edges_nested [of _ _ selectors members]) (simp_all add: userset_kind_def)
  from reach.there [OF _ this nested(5)] show ?case by simp
next
  case (inherit u rules relation)
  then have "UsersetRef (userset_object u) relation \<in> set (edges A u)"
    by (intro edges_rule [of _ _ rules "Inherit relation"]) (simp_all add: userset_kind_def rule_edges_def)
  from reach.there [OF _ this inherit(4)] show ?case by simp
next
  case (follow u rules tuple_rel target_relation members target)
  then have "UsersetRef target target_relation \<in> set (edges A u)"
    by (intro edges_rule [of _ _ rules "TupleToUserset tuple_rel target_relation"])
      (simp_all add: userset_kind_def rule_edges_def)
  from reach.there [OF _ this follow(6)] show ?case by simp
qed

lemma granted_iff_reach: "granted A subject u \<longleftrightarrow> reach A subject {} u"
  using reach_granted granted_reach by blast

text \<open>A path from a userset can be cut so that it never returns to it.\<close>

lemma reach_cut:
  assumes "reach A subject V w"
  shows "reach A subject (insert u V) w \<or> holds_at A subject u \<or>
    (\<exists>v \<in> set (edges A u). reach A subject (insert u V) v)"
  using assms
proof (induction rule: reach.induct)
  case (here w)
  then show ?case by (cases "w = u") (auto intro: reach.here)
next
  case (there w v)
  then show ?case by (cases "w = u") (auto intro: reach.there)
qed

lemma reach_unfold:
  "reach A subject V u \<longleftrightarrow> u \<notin> V \<and> (holds_at A subject u \<or>
     (\<exists>v \<in> set (edges A u). reach A subject (insert u V) v))"
proof
  assume r: "reach A subject V u"
  moreover have "\<not> reach A subject (insert u V) u" by (auto elim: reachE)
  ultimately show "u \<notin> V \<and> (holds_at A subject u \<or> (\<exists>v \<in> set (edges A u). reach A subject (insert u V) v))"
    using reach_cut [OF r, of u] by (auto elim: reachE)
next
  have mono: "reach A subject V v" if "reach A subject (insert u V) v" for v
    using that by (induction rule: reach.induct) (auto intro: reach.intros)
  assume "u \<notin> V \<and> (holds_at A subject u \<or> (\<exists>v \<in> set (edges A u). reach A subject (insert u V) v))"
  with mono show "reach A subject V u" by (auto intro: reach.intros)
qed

section \<open>The search decides the relation\<close>

definition memo_sound :: "Authorization \<Rightarrow> Evaluator \<Rightarrow> bool" where
  "memo_sound A ev \<longleftrightarrow> (\<forall>(s, u) \<in> set (allowed ev). granted A s u)"

text \<open>A step of the search that returns keeps the usersets in progress and the memo's soundness;
  a positive answer has the property \<open>yes\<close>, a negative one refutes \<open>no\<close>.\<close>

definition decides ::
    "Authorization \<Rightarrow> bool \<Rightarrow> (UsersetRef set \<Rightarrow> bool) \<Rightarrow> bool eval \<Rightarrow> bool" where
  "decides A yes no f \<longleftrightarrow>
     (\<forall>ev b ev'. memo_sound A ev \<longrightarrow> f ev = (Inr b, ev') \<longrightarrow>
        set (visited ev') = set (visited ev) \<and> memo_sound A ev' \<and>
        (if b then yes else \<not> no (set (visited ev))))"

lemma decidesD:
  assumes "decides A yes no f" "memo_sound A ev" "f ev = (Inr b, ev')"
  shows "set (visited ev') = set (visited ev)" "memo_sound A ev'"
    "b \<Longrightarrow> yes" "\<not> b \<Longrightarrow> \<not> no (set (visited ev))"
  using assms unfolding decides_def by (metis (full_types))+

lemma decides_mono:
  "decides A yes no f \<Longrightarrow> (yes \<Longrightarrow> yes') \<Longrightarrow> (\<And>V. no' V \<Longrightarrow> no V) \<Longrightarrow> decides A yes' no' f"
  unfolding decides_def by (metis (full_types))

lemma step_Inr:
  "step A ev = (r, ev1) \<Longrightarrow> visited ev1 = visited ev \<and> allowed ev1 = allowed ev \<and>
     max_allowed ev1 = max_allowed ev"
  by (auto simp: step_def Let_def)

lemma decides_any_step:
  assumes "\<And>x. x \<in> set xs \<Longrightarrow> decides A (yes x) (no x) (f x)"
  shows "decides A (\<exists>x \<in> set xs. yes x) (\<lambda>V. \<exists>x \<in> set xs. no x V) (any_step A f xs)"
  using assms
proof (induction xs)
  case Nil
  then show ?case by (auto simp: decides_def)
next
  case (Cons x xs)
  have x: "decides A (yes x) (no x) (f x)"
    and xs: "decides A (\<exists>x \<in> set xs. yes x) (\<lambda>V. \<exists>x \<in> set xs. no x V) (any_step A f xs)"
    using Cons by auto
  show ?case
    unfolding decides_def
  proof (intro allI impI)
    fix ev b ev' assume sound: "memo_sound A ev" and run: "any_step A f (x # xs) ev = (Inr b, ev')"
    obtain r ev1 where s: "step A ev = (r, ev1)" by fastforce
    obtain r2 ev2 where e: "f x ev1 = (r2, ev2)" by fastforce
    from step_Inr [OF s] sound have v1: "visited ev1 = visited ev" and s1: "memo_sound A ev1"
      by (simp_all add: memo_sound_def)
    from run s e obtain holds where r2: "r2 = Inr holds"
      and rest: "(if holds then (Inr True, ev2) else any_step A f xs ev2) = (Inr b, ev')"
      by (auto simp: tryS_eq_Inr)
    note dx = decidesD [OF x s1 e [unfolded r2]]
    show "set (visited ev') = set (visited ev) \<and> memo_sound A ev' \<and>
      (if b then \<exists>x \<in> set (x # xs). yes x else \<not> (\<exists>x \<in> set (x # xs). no x (set (visited ev))))"
    proof (cases holds)
      case True
      with rest dx v1 show ?thesis by auto
    next
      case False
      with rest have "any_step A f xs ev2 = (Inr b, ev')" by simp
      from decidesD [OF xs dx(2) this] dx False v1 show ?thesis by auto
    qed
  qed
qed

lemma decides_const: "decides A b (\<lambda>_. b) (Pair (Inr b))"
  by (simp add: decides_def)

lemma decides_direct:
  assumes "\<And>v. decides A (granted A subject v) (\<lambda>V. reach A subject V v) (rec v)"
    and "userset_kind A u = Some (Direct selectors)"
  shows "decides A (granted A subject u)
    (\<lambda>V. holds_at A subject u \<or> (\<exists>v \<in> set (edges A u). reach A subject V v))
    (resolve_direct A rec u subject)"
proof (cases "bt_get (auth_tuples A) u")
  case None
  then have "resolve_direct A rec u subject = Pair (Inr False)" by (auto simp: resolve_direct_def)
  moreover have "\<not> holds_at A subject u" "edges A u = []"
    using None assms(2) by (simp_all add: holds_at_iff edges_def)
  ultimately show ?thesis by (auto intro: decides_mono [OF decides_const])
next
  case (Some members)
  show ?thesis
  proof (cases "holds_at A subject u")
    case True
    then have "resolve_direct A rec u subject = Pair (Inr True)"
      using Some by (auto simp: resolve_direct_def holds_at_iff)
    with granted_here [OF True] show ?thesis by (auto intro: decides_mono [OF decides_const])
  next
    case False
    have e: "edges A u = direct_usersets members" using Some assms(2) by (simp add: edges_def)
    have "resolve_direct A rec u subject = any_step A rec (direct_usersets members)"
      using Some False assms(2) by (auto simp: resolve_direct_def holds_at_iff)
    then have "decides A (\<exists>v \<in> set (edges A u). granted A subject v)
        (\<lambda>V. \<exists>v \<in> set (edges A u). reach A subject V v) (resolve_direct A rec u subject)"
      using decides_any_step [OF assms(1), of "direct_usersets members"] e by simp
    with False granted_edge show ?thesis by (auto elim: decides_mono)
  qed
qed

lemma decides_rule:
  assumes "\<And>v. decides A (granted A subject v) (\<lambda>V. reach A subject V v) (rec v)"
  shows "decides A (\<exists>v \<in> set (rule_edges A u rule). granted A subject v)
    (\<lambda>V. \<exists>v \<in> set (rule_edges A u rule). reach A subject V v) (resolve_rule A rec u rule)"
proof (cases rule)
  case (Inherit relation)
  then have "resolve_rule A rec u rule = rec (UsersetRef (userset_object u) relation)"
    by (auto simp: resolve_rule_def)
  with Inherit assms show ?thesis by (simp add: rule_edges_def)
next
  case (TupleToUserset tuple_rel target_relation)
  show ?thesis
  proof (cases "bt_get (auth_tuples A) (UsersetRef (userset_object u) tuple_rel)")
    case None
    then have "resolve_rule A rec u rule = Pair (Inr False)"
      using TupleToUserset by (auto simp: resolve_rule_def)
    with None TupleToUserset show ?thesis
      by (auto intro!: decides_mono [OF decides_const] simp: rule_edges_def)
  next
    case (Some targets)
    then have "resolve_rule A rec u rule =
        any_step A (\<lambda>target. rec (UsersetRef target target_relation)) (tuple_targets targets)"
      using TupleToUserset by (auto simp: resolve_rule_def)
    with Some TupleToUserset show ?thesis
      by (auto intro!: decides_mono [OF decides_any_step [OF assms]] simp: rule_edges_def)
  qed
qed

lemma decides_rules:
  assumes "\<And>v. decides A (granted A subject v) (\<lambda>V. reach A subject V v) (rec v)"
    and "userset_kind A u = Some (Permission rules)"
  shows "decides A (granted A subject u)
    (\<lambda>V. holds_at A subject u \<or> (\<exists>v \<in> set (edges A u). reach A subject V v))
    (resolve_rules A rec u rules)"
proof -
  have "decides A (\<exists>v \<in> set (edges A u). granted A subject v)
      (\<lambda>V. \<exists>v \<in> set (edges A u). reach A subject V v) (resolve_rules A rec u rules)"
    using decides_any_step [OF decides_rule [OF assms(1), of u], of rules]
    by (simp add: resolve_rules_def edges_def assms(2))
  moreover have "\<not> holds_at A subject u" using assms(2) by (simp add: holds_at_iff)
  ultimately show ?thesis using granted_edge by (auto elim: decides_mono)
qed

text \<open>One unfolding of the search.\<close>

lemma resolve_Suc_cases:
  assumes "resolve A (Suc levels) subject u ev = (Inr b, ev')" "step A ev = (r, ev1)"
  obtains (memo) "max_allowed ev1 \<noteq> 0" "(subject, u) \<in> set (allowed ev1)" "b" "ev' = ev1"
  | (cycle) "u \<in> set (visited ev1)" "\<not> b" "ev' = ev1"
  | (search) relation ev3 where "u \<notin> set (visited ev1)" "userset_kind A u = Some relation"
        "(case relation of
           Direct _ \<Rightarrow> resolve_direct A (resolve A levels subject) u subject
         | Permission rules \<Rightarrow> resolve_rules A (resolve A levels subject) u rules)
           (ev1\<lparr>visited := bs_insert u (visited ev1)\<rparr>) = (Inr b, ev3)"
        "visited ev' = filter (\<lambda>v. v \<noteq> u) (visited ev3)"
        "set (allowed ev') \<subseteq> set (allowed ev3) \<union> (if b then {(subject, u)} else {})"
proof -
  have r: "r = Inr ()" using assms by (cases r) auto
  define ev2 where "ev2 = ev1\<lparr>visited := bs_insert u (visited ev1)\<rparr>"
  define body where "body relation = (case relation of
      Direct _ \<Rightarrow> resolve_direct A (resolve A levels subject) u subject
    | Permission rules \<Rightarrow> resolve_rules A (resolve A levels subject) u rules)" for relation
  have unfolded: "(Inr b, ev') =
    (if max_allowed ev1 \<noteq> 0 \<and> (subject, u) \<in> set (allowed ev1) then (Inr True, ev1)
     else if u \<in> set (visited ev1) then (Inr False, ev1)
     else tryS (require_relation (auth_schema A) (object_namespace (userset_object u)) (userset_relation u))
       ev2 (\<lambda>relation. tryS (fst (body relation ev2)) (snd (body relation ev2)) (\<lambda>holds.
         let ev4 = snd (body relation ev2)\<lparr>visited := filter (\<lambda>v. v \<noteq> u) (visited (snd (body relation ev2)))\<rparr> in
         (Inr holds, if holds \<and> length (allowed ev4) < unat (max_allowed ev4) \<and> max_allowed ev1 \<noteq> 0
           then ev4\<lparr>allowed := bs_insert (subject, u) (allowed ev4)\<rparr> else ev4))))"
    unfolding assms(1) [symmetric] resolve.simps assms(2) r tryS_simps prod.case Let_def body_def ev2_def
    by (intro if_cong refl arg_cong [where f = "tryS _ _"] ext) (simp add: case_prod_unfold split: CompiledRelation.split)
  show thesis
  proof (cases "max_allowed ev1 \<noteq> 0 \<and> (subject, u) \<in> set (allowed ev1)")
    case True
    with unfolded memo show thesis by simp
  next
    case not_memo: False
    show thesis
    proof (cases "u \<in> set (visited ev1)")
      case True
      with unfolded not_memo cycle show thesis by simp
    next
      case False
      obtain relation where rel: "userset_kind A u = Some relation"
        using unfolded not_memo False
        by (cases "userset_kind A u") (simp_all add: require_relation_def userset_kind_def)
      obtain result ev3 where ev3: "body relation ev2 = (result, ev3)" by fastforce
      have "(Inr b, ev') = tryS result ev3 (\<lambda>holds.
         let ev4 = ev3\<lparr>visited := filter (\<lambda>v. v \<noteq> u) (visited ev3)\<rparr> in
         (Inr holds, if holds \<and> length (allowed ev4) < unat (max_allowed ev4) \<and> max_allowed ev1 \<noteq> 0
           then ev4\<lparr>allowed := bs_insert (subject, u) (allowed ev4)\<rparr> else ev4))"
        using unfolded not_memo False rel by (simp add: require_relation_def userset_kind_def ev3)
      then have "result = Inr b" "visited ev' = filter (\<lambda>v. v \<noteq> u) (visited ev3)"
        "set (allowed ev') \<subseteq> set (allowed ev3) \<union> (if b then {(subject, u)} else {})"
        by (auto simp: tryS_def Let_def split: sum.splits)
      with search [OF False rel] ev3 show thesis by (simp add: body_def ev2_def)
    qed
  qed
qed

lemma decides_resolve:
  "decides A (granted A subject u) (\<lambda>V. reach A subject V u) (resolve A levels subject u)"
proof (induction levels arbitrary: u)
  case 0
  then show ?case by (simp add: decides_def)
next
  case (Suc levels)
  show ?case
    unfolding decides_def
  proof (intro allI impI)
    fix ev b ev' assume sound: "memo_sound A ev" and run: "resolve A (Suc levels) subject u ev = (Inr b, ev')"
    obtain r ev1 where s: "step A ev = (r, ev1)" by fastforce
    from step_Inr [OF s] sound have v1: "visited ev1 = visited ev" and s1: "memo_sound A ev1"
      by (simp_all add: memo_sound_def)
    from run s show "set (visited ev') = set (visited ev) \<and> memo_sound A ev' \<and>
      (if b then granted A subject u else \<not> reach A subject (set (visited ev)) u)"
    proof (cases rule: resolve_Suc_cases)
      case memo
      with s1 v1 show ?thesis by (auto simp: memo_sound_def)
    next
      case cycle
      with s1 v1 show ?thesis by (auto elim: reachE)
    next
      case (search relation ev3)
      let ?ev2 = "ev1\<lparr>visited := bs_insert u (visited ev1)\<rparr>"
      have s2: "memo_sound A ?ev2" using s1 by (simp add: memo_sound_def)
      have "decides A (granted A subject u)
          (\<lambda>V. holds_at A subject u \<or> (\<exists>v \<in> set (edges A u). reach A subject V v))
          (case relation of
           Direct _ \<Rightarrow> resolve_direct A (resolve A levels subject) u subject
         | Permission rules \<Rightarrow> resolve_rules A (resolve A levels subject) u rules)"
        using decides_direct [OF Suc.IH] decides_rules [OF Suc.IH] search(2) by (cases relation) simp_all
      note d = decidesD [OF this s2 search(3)]
      have "set (visited ev') = set (visited ev)" using search(1,4) d(1) v1 by auto
      moreover have "memo_sound A ev'"
        using search(5) d(2,3) by (auto simp: memo_sound_def split: if_splits)
      moreover have "if b then granted A subject u else \<not> reach A subject (set (visited ev)) u"
        using d(3,4) v1 reach_unfold [of A subject "set (visited ev)" u] by auto
      ultimately show ?thesis by blast
    qed
  qed
qed

section \<open>Where an error can come from\<close>

definition step_limit :: "Authorization \<Rightarrow> AuthorizationError" where
  "step_limit A = EvaluationLimit ''step'' (max_steps (auth_limits A))"

lemma step_Inl: "step A ev = (Inl e, ev1) \<Longrightarrow> e = step_limit A"
  by (auto simp: step_def Let_def step_limit_def ensure_def split: if_splits)

lemma any_step_error:
  assumes "\<And>x. x \<in> set xs \<Longrightarrow> decides A (yes x) (no x) (f x)"
    and "memo_sound A ev" "any_step A f xs ev = (Inl e, ev')"
  shows "e = step_limit A \<or> (\<exists>x \<in> set xs. \<exists>ev1 ev2. memo_sound A ev1 \<and>
    set (visited ev1) = set (visited ev) \<and> f x ev1 = (Inl e, ev2))"
  using assms
proof (induction xs arbitrary: ev)
  case (Cons x xs)
  obtain r ev1 where s: "step A ev = (r, ev1)" by fastforce
  obtain r2 ev2 where e: "f x ev1 = (r2, ev2)" by fastforce
  from step_Inr [OF s] Cons.prems(2) have v1: "visited ev1 = visited ev" and s1: "memo_sound A ev1"
    by (simp_all add: memo_sound_def)
  show ?case
  proof (cases r)
    case (Inl err)
    with s Cons.prems(3) step_Inl show ?thesis by auto
  next
    case ok: (Inr u)
    show ?thesis
    proof (cases r2)
      case (Inl err)
      with ok s e Cons.prems(3) have "f x ev1 = (Inl e, ev2)" by simp
      with v1 s1 show ?thesis by auto
    next
      case (Inr holds)
      note dx = decidesD [OF Cons.prems(1) s1 e [unfolded Inr]]
      from ok s e Inr Cons.prems(3) have "any_step A f xs ev2 = (Inl e, ev')"
        by (cases holds) simp_all
      from Cons.IH [OF Cons.prems(1) _ this] dx v1 show ?thesis by auto
    qed
  qed
qed simp

definition search ::
    "Authorization \<Rightarrow> nat \<Rightarrow> ObjectRef \<Rightarrow> UsersetRef \<Rightarrow> CompiledRelation \<Rightarrow> bool eval" where
  "search A levels subject u relation =
     (case relation of
        Direct _ \<Rightarrow> resolve_direct A (resolve A levels subject) u subject
      | Permission rules \<Rightarrow> resolve_rules A (resolve A levels subject) u rules)"

lemma resolve_rule_error:
  assumes "memo_sound A ev" "resolve_rule A (resolve A levels subject) u rule ev = (Inl e, ev')"
  shows "e = step_limit A \<or> (\<exists>v \<in> set (rule_edges A u rule). \<exists>ev1 ev2. memo_sound A ev1 \<and>
    set (visited ev1) = set (visited ev) \<and> resolve A levels subject v ev1 = (Inl e, ev2))"
proof (cases rule)
  case (Inherit relation)
  with assms show ?thesis by (auto simp: resolve_rule_def rule_edges_def)
next
  case (TupleToUserset a b)
  show ?thesis
  proof (cases "bt_get (auth_tuples A) (UsersetRef (userset_object u) a)")
    case None
    with assms(2) TupleToUserset show ?thesis by (simp add: resolve_rule_def)
  next
    case (Some targets)
    with assms(2) TupleToUserset
    have "any_step A (\<lambda>t. resolve A levels subject (UsersetRef t b)) (tuple_targets targets) ev = (Inl e, ev')"
      by (simp add: resolve_rule_def)
    from any_step_error [OF decides_resolve assms(1) this] Some TupleToUserset show ?thesis
      by (auto simp: rule_edges_def)
  qed
qed

lemma search_error:
  assumes "memo_sound A ev" "search A levels subject u relation ev = (Inl e, ev')"
    and "userset_kind A u = Some relation"
  shows "e = step_limit A \<or> (\<exists>v \<in> set (edges A u). \<exists>ev1 ev2. memo_sound A ev1 \<and>
    set (visited ev1) = set (visited ev) \<and> resolve A levels subject v ev1 = (Inl e, ev2))"
proof (cases relation)
  case (Direct selectors)
  with assms(2,3) obtain members where m: "bt_get (auth_tuples A) u = Some members"
    and "any_step A (resolve A levels subject) (direct_usersets members) ev = (Inl e, ev')"
    by (auto simp: search_def resolve_direct_def split: option.splits if_splits)
  from any_step_error [OF decides_resolve assms(1) this(2)] m Direct assms(3) show ?thesis
    by (simp add: edges_def)
next
  case (Permission rules)
  then have "any_step A (resolve_rule A (resolve A levels subject) u) rules ev = (Inl e, ev')"
    using assms(2) by (simp add: search_def resolve_rules_def)
  from any_step_error [OF decides_rule [OF decides_resolve] assms(1) this]
  consider "e = step_limit A"
    | rule ev1 ev2 where "rule \<in> set rules" "memo_sound A ev1" "set (visited ev1) = set (visited ev)"
        "resolve_rule A (resolve A levels subject) u rule ev1 = (Inl e, ev2)" by blast
  then show ?thesis
  proof cases
    case 2
    from resolve_rule_error [OF 2(2,4)] edges_rule [OF _ 2(1)] 2(3) Permission assms(3) show ?thesis
      by metis
  qed simp
qed

lemma resolve_search_error:
  assumes "resolve A (Suc levels) subject u ev = (Inl e, ev')" "step A ev = (Inr x, ev1)"
    and "userset_kind A u = Some relation"
  shows "\<exists>ev3. search A levels subject u relation (ev1\<lparr>visited := bs_insert u (visited ev1)\<rparr>) = (Inl e, ev3)"
proof -
  let ?ev2 = "ev1\<lparr>visited := bs_insert u (visited ev1)\<rparr>"
  obtain result ev3 where ev3: "search A levels subject u relation ?ev2 = (result, ev3)" by fastforce
  then have ev3': "(case relation of
           Direct _ \<Rightarrow> resolve_direct A (resolve A levels subject) u subject ?ev2
         | Permission rules \<Rightarrow> resolve_rules A (resolve A levels subject) u rules ?ev2) = (result, ev3)"
    by (cases relation) (simp_all add: search_def)
  have req: "require_relation (auth_schema A) (object_namespace (userset_object u)) (userset_relation u)
      = Inr relation"
    using assms(3) by (simp add: require_relation_def userset_kind_def)
  have "\<exists>err. result = Inl err \<and> err = e"
    using assms(1) unfolding resolve.simps assms(2) prod.case tryS_simps Let_def req ev3'
    by (cases result) (auto split: if_splits)
  with ev3 show ?thesis by auto
qed

lemma resolve_error:
  assumes "memo_sound A ev" "resolve A (Suc levels) subject u ev = (Inl e, ev')"
  shows "e = step_limit A \<or> userset_kind A u = None \<and> (\<exists>r. e = InvalidCheck r) \<or>
    (u \<notin> set (visited ev) \<and> (\<exists>v \<in> set (edges A u). \<exists>ev1 ev2. memo_sound A ev1 \<and>
      set (visited ev1) = insert u (set (visited ev)) \<and> resolve A levels subject v ev1 = (Inl e, ev2)))"
proof -
  obtain r ev1 where s: "step A ev = (r, ev1)" by fastforce
  from step_Inr [OF s] assms(1) have v1: "visited ev1 = visited ev" and s1: "memo_sound A ev1"
    by (simp_all add: memo_sound_def)
  show ?thesis
  proof (cases r)
    case (Inl err)
    with s assms(2) step_Inl show ?thesis by auto
  next
    case (Inr x)
    show ?thesis
    proof (cases "userset_kind A u")
      case (Some relation)
      let ?ev2 = "ev1\<lparr>visited := bs_insert u (visited ev1)\<rparr>"
      have s2: "memo_sound A ?ev2" using s1 by (simp add: memo_sound_def)
      have "u \<notin> set (visited ev1)" using assms(2) s Inr by (auto simp: Let_def split: if_splits)
      moreover obtain ev3 where ev3: "search A levels subject u relation ?ev2 = (Inl e, ev3)"
        using resolve_search_error [OF assms(2) s [unfolded Inr] Some] by blast
      ultimately show ?thesis using search_error [OF s2 ev3 Some] v1 by auto
    next
      case None
      with assms(2) s Inr show ?thesis
        by (auto simp: Let_def require_relation_def userset_kind_def split: if_splits)
    qed
  qed
qed

section \<open>A memo only shortens the search\<close>

text \<open>
  \<open>robust\<close>: wherever the search without a memo returns, the search with one returns too, with
  no more steps; it may answer yes earlier.
\<close>

definition robust :: "bool eval \<Rightarrow> bool" where
  "robust f \<longleftrightarrow>
     (\<forall>ev b ev' ev1. f ev = (Inr b, ev') \<longrightarrow> max_allowed ev = 0 \<longrightarrow>
        max_allowed ev' = 0 \<and> steps ev \<le> steps ev' \<and>
        (visited ev1 = visited ev \<longrightarrow> steps ev1 \<le> steps ev \<longrightarrow>
          (\<exists>b1 ev1'. f ev1 = (Inr b1, ev1') \<and> (b \<longrightarrow> b1) \<and> steps ev1' \<le> steps ev' \<and>
             (\<not> b1 \<longrightarrow> visited ev1' = visited ev'))))"

lemma robustD:
  assumes "robust f" "f ev = (Inr b, ev')" "max_allowed ev = 0"
  shows "max_allowed ev' = 0" "steps ev \<le> steps ev'"
    "visited ev1 = visited ev \<Longrightarrow> steps ev1 \<le> steps ev \<Longrightarrow>
       \<exists>b1 ev1'. f ev1 = (Inr b1, ev1') \<and> (b \<longrightarrow> b1) \<and> steps ev1' \<le> steps ev' \<and>
         (\<not> b1 \<longrightarrow> visited ev1' = visited ev')"
  using assms unfolding robust_def by blast+

lemma saturating_add_mono: "a \<le> b \<Longrightarrow> saturating_add a c \<le> saturating_add b c"
  for a b c :: "'a::len word"
  by (simp add: word_le_nat_alt unat_saturating_add)

lemma step_robust:
  assumes "step A ev = (Inr (), ev1)"
  shows "steps ev \<le> steps ev1"
    and "steps ev2 \<le> steps ev \<Longrightarrow> \<exists>ev3. step A ev2 = (Inr (), ev3) \<and> steps ev3 \<le> steps ev1"
proof -
  from assms have s: "steps ev1 = saturating_add (steps ev) 1"
    and le: "saturating_add (steps ev) 1 \<le> max_steps (auth_limits A)"
    by (auto simp: step_def Let_def)
  from s show "steps ev \<le> steps ev1" by (simp add: saturating_add_ge)
  assume "steps ev2 \<le> steps ev"
  then have "saturating_add (steps ev2) 1 \<le> saturating_add (steps ev) 1" by (rule saturating_add_mono)
  with s le show "\<exists>ev3. step A ev2 = (Inr (), ev3) \<and> steps ev3 \<le> steps ev1"
    by (auto simp: step_def Let_def)
qed

lemma robust_any_step:
  assumes "\<And>x. x \<in> set xs \<Longrightarrow> robust (f x)"
  shows "robust (any_step A f xs)"
  using assms
proof (induction xs)
  case (Cons x xs)
  have rx: "robust (f x)" and rxs: "robust (any_step A f xs)" using Cons by auto
  show ?case
    unfolding robust_def
  proof (intro allI impI)
    fix ev b ev' evm assume run: "any_step A f (x # xs) ev = (Inr b, ev')" and zero: "max_allowed ev = 0"
    obtain r ev1 where s: "step A ev = (r, ev1)" by fastforce
    obtain r2 ev2 where e: "f x ev1 = (r2, ev2)" by fastforce
    from run s e obtain holds where r: "r = Inr ()" and r2: "r2 = Inr holds"
      and rest: "(if holds then (Inr True, ev2) else any_step A f xs ev2) = (Inr b, ev')"
      by (auto simp: tryS_eq_Inr)
    from step_Inr [OF s] zero have v1: "visited ev1 = visited ev" and z1: "max_allowed ev1 = 0" by simp_all
    note s1 = step_robust [OF s [unfolded r]]
    note dx = robustD [OF rx e [unfolded r2] z1]
    have tail: "max_allowed ev' = 0 \<and> steps ev2 \<le> steps ev'"
    proof (cases holds)
      case False
      with rest have "any_step A f xs ev2 = (Inr b, ev')" by simp
      from robustD(1,2) [OF rxs this dx(1)] show ?thesis by simp
    qed (use rest dx(1) in simp)
    show "max_allowed ev' = 0 \<and> steps ev \<le> steps ev' \<and>
        (visited evm = visited ev \<longrightarrow> steps evm \<le> steps ev \<longrightarrow>
          (\<exists>b1 ev1'. any_step A f (x # xs) evm = (Inr b1, ev1') \<and> (b \<longrightarrow> b1) \<and> steps ev1' \<le> steps ev' \<and>
             (\<not> b1 \<longrightarrow> visited ev1' = visited ev')))"
    proof (intro conjI impI)
      assume v: "visited evm = visited ev" and st: "steps evm \<le> steps ev"
      from s1(2) [OF st] obtain ev3 where ev3: "step A evm = (Inr (), ev3)" "steps ev3 \<le> steps ev1" by blast
      from step_Inr [OF ev3(1)] v v1 have "visited ev3 = visited ev1" by simp
      from dx(3) [OF this ev3(2)] obtain b1 ev4 where
        ev4: "f x ev3 = (Inr b1, ev4)" "holds \<longrightarrow> b1" "steps ev4 \<le> steps ev2" "\<not> b1 \<longrightarrow> visited ev4 = visited ev2"
        by blast
      show "\<exists>b1 ev1'. any_step A f (x # xs) evm = (Inr b1, ev1') \<and> (b \<longrightarrow> b1) \<and> steps ev1' \<le> steps ev' \<and>
             (\<not> b1 \<longrightarrow> visited ev1' = visited ev')"
      proof (cases b1)
        case True
        have "steps ev4 \<le> steps ev'" using ev4(3) tail by (meson order_trans)
        with True ev3(1) ev4(1) show ?thesis by auto
      next
        case False
        with ev4 rest have "any_step A f xs ev2 = (Inr b, ev')" by simp
        from robustD(3) [OF rxs this dx(1), of ev4] ev4(1,3,4) False ev3(1) show ?thesis by simp
      qed
    qed (use tail order_trans [OF s1(1) order_trans [OF dx(2)]] in simp_all)
  qed
qed (simp add: robust_def)

lemma robust_search:
  assumes "\<And>v. robust (resolve A levels subject v)"
  shows "robust (search A levels subject u relation)"
proof (cases relation)
  case (Direct selectors)
  have const: "robust (Pair (Inr b))" for b by (simp add: robust_def)
  have "search A levels subject u relation =
    (case bt_get (auth_tuples A) u of None \<Rightarrow> Pair (Inr False)
     | Some members \<Rightarrow> if subject \<in> set (direct_objects members) then Pair (Inr True)
         else any_step A (resolve A levels subject) (direct_usersets members))"
    by (auto simp: search_def Direct resolve_direct_def split: option.split)
  then show ?thesis by (auto simp: const intro: robust_any_step assms split: option.split)
next
  case (Permission rules)
  have "robust (resolve_rule A (resolve A levels subject) u rule)" for rule
  proof (cases rule)
    case (Inherit relation)
    then have "resolve_rule A (resolve A levels subject) u rule =
        resolve A levels subject (UsersetRef (userset_object u) relation)"
      by (auto simp: resolve_rule_def)
    with assms show ?thesis by simp
  next
    case (TupleToUserset a b)
    then have "resolve_rule A (resolve A levels subject) u rule =
        (case bt_get (auth_tuples A) (UsersetRef (userset_object u) a) of None \<Rightarrow> Pair (Inr False)
         | Some targets \<Rightarrow> any_step A (\<lambda>t. resolve A levels subject (UsersetRef t b)) (tuple_targets targets))"
      by (auto simp: resolve_rule_def split: option.split)
    moreover have "robust (Pair (Inr False))" by (simp add: robust_def)
    ultimately show ?thesis by (auto intro: robust_any_step assms split: option.split)
  qed
  then show ?thesis by (simp add: search_def Permission resolve_rules_def robust_any_step)
qed

text \<open>The shape of one level of the search, for a userset that is neither memoized nor in progress.\<close>

lemma resolve_level:
  assumes "step A ev = (Inr (), ev1)" "\<not> (max_allowed ev1 \<noteq> 0 \<and> (subject, u) \<in> set (allowed ev1))"
    and "u \<notin> set (visited ev1)" "userset_kind A u = Some relation"
    and "search A levels subject u relation (ev1\<lparr>visited := bs_insert u (visited ev1)\<rparr>) = (Inr b, ev3)"
  shows "\<exists>ev'. resolve A (Suc levels) subject u ev = (Inr b, ev') \<and> steps ev' = steps ev3 \<and>
    visited ev' = filter (\<lambda>v. v \<noteq> u) (visited ev3) \<and> max_allowed ev' = max_allowed ev3"
proof -
  let ?ev2 = "ev1\<lparr>visited := bs_insert u (visited ev1)\<rparr>"
  have ev3': "(case relation of
           Direct _ \<Rightarrow> resolve_direct A (resolve A levels subject) u subject ?ev2
         | Permission rules \<Rightarrow> resolve_rules A (resolve A levels subject) u rules ?ev2) = (Inr b, ev3)"
    using assms(5) by (cases relation) (simp_all add: search_def)
  have req: "require_relation (auth_schema A) (object_namespace (userset_object u)) (userset_relation u)
      = Inr relation"
    using assms(4) by (simp add: require_relation_def userset_kind_def)
  show ?thesis
    unfolding resolve.simps assms(1) prod.case tryS_simps Let_def req ev3' if_not_P [OF assms(2)]
      if_not_P [OF assms(3)]
    by simp
qed

lemma robust_resolve: "robust (resolve A levels subject u)"
proof (induction levels arbitrary: u)
  case 0
  then show ?case by (simp add: robust_def)
next
  case (Suc levels)
  show ?case
    unfolding robust_def
  proof (intro allI impI)
    fix ev b ev' evm assume run: "resolve A (Suc levels) subject u ev = (Inr b, ev')" and zero: "max_allowed ev = 0"
    obtain r ev1 where s': "step A ev = (r, ev1)" by fastforce
    with run have s: "step A ev = (Inr (), ev1)" by (cases r) auto
    from step_Inr [OF s] zero have v1: "visited ev1 = visited ev" and z1: "max_allowed ev1 = 0" by simp_all
    note s1 = step_robust [OF s]
    show "max_allowed ev' = 0 \<and> steps ev \<le> steps ev' \<and>
        (visited evm = visited ev \<longrightarrow> steps evm \<le> steps ev \<longrightarrow>
          (\<exists>b1 ev1'. resolve A (Suc levels) subject u evm = (Inr b1, ev1') \<and> (b \<longrightarrow> b1) \<and>
             steps ev1' \<le> steps ev' \<and> (\<not> b1 \<longrightarrow> visited ev1' = visited ev')))"
    proof (cases "u \<in> set (visited ev1)")
      case True
      with run s z1 have r: "\<not> b" "ev' = ev1" by simp_all
      have "\<exists>b1 ev1'. resolve A (Suc levels) subject u evm = (Inr b1, ev1') \<and>
             steps ev1' \<le> steps ev' \<and> (\<not> b1 \<longrightarrow> visited ev1' = visited ev')"
        if v: "visited evm = visited ev" and st: "steps evm \<le> steps ev"
      proof -
        from s1(2) [OF st] obtain ev3 where ev3: "step A evm = (Inr (), ev3)" "steps ev3 \<le> steps ev1" by blast
        with step_Inr [OF ev3(1)] v v1 True r show ?thesis by (auto simp: Let_def)
      qed
      with r z1 s1(1) show ?thesis by auto
    next
      case False
      obtain relation ev3 where rel: "userset_kind A u = Some relation"
        and ev3: "search A levels subject u relation (ev1\<lparr>visited := bs_insert u (visited ev1)\<rparr>) = (Inr b, ev3)"
        using run s by (cases rule: resolve_Suc_cases) (auto simp: search_def False z1)
      obtain ev'' where "resolve A (Suc levels) subject u ev = (Inr b, ev'')" "steps ev'' = steps ev3"
        "visited ev'' = filter (\<lambda>v. v \<noteq> u) (visited ev3)" "max_allowed ev'' = max_allowed ev3"
        using resolve_level [OF s _ False rel ev3] z1 by auto
      with run have ev': "steps ev' = steps ev3" "visited ev' = filter (\<lambda>v. v \<noteq> u) (visited ev3)"
        "max_allowed ev' = max_allowed ev3" by simp_all
      note dx = robustD [OF robust_search [OF Suc.IH] ev3]
      have "\<exists>b1 ev1'. resolve A (Suc levels) subject u evm = (Inr b1, ev1') \<and> (b \<longrightarrow> b1) \<and>
             steps ev1' \<le> steps ev' \<and> (\<not> b1 \<longrightarrow> visited ev1' = visited ev')"
        if v: "visited evm = visited ev" and st: "steps evm \<le> steps ev"
      proof -
        from s1(2) [OF st] obtain ev4 where ev4: "step A evm = (Inr (), ev4)" "steps ev4 \<le> steps ev1" by blast
        from step_Inr [OF ev4(1)] v v1 have v4: "visited ev4 = visited ev1" by simp
        show ?thesis
        proof (cases "max_allowed ev4 \<noteq> 0 \<and> (subject, u) \<in> set (allowed ev4)")
          case True
          have "steps ev1 \<le> steps ev'" using dx(2) z1 ev'(1) by simp
          then have "steps ev4 \<le> steps ev'" using order_trans [OF ev4(2)] by blast
          moreover have "resolve A (Suc levels) subject u evm = (Inr True, ev4)"
            using True ev4(1) by (simp add: Let_def)
          ultimately show ?thesis by blast
        next
          case not_memo: False
          obtain b1 ev5 where ev5: "search A levels subject u relation
              (ev4\<lparr>visited := bs_insert u (visited ev4)\<rparr>) = (Inr b1, ev5)"
            and le: "b \<longrightarrow> b1" "steps ev5 \<le> steps ev3" "\<not> b1 \<longrightarrow> visited ev5 = visited ev3"
            using dx(3) [of "ev4\<lparr>visited := bs_insert u (visited ev4)\<rparr>"] v4 ev4(2) z1 by auto
          have "u \<notin> set (visited ev4)" using False v4 by simp
          from resolve_level [OF ev4(1) not_memo this rel ev5] obtain ev6 where
            "resolve A (Suc levels) subject u evm = (Inr b1, ev6)" "steps ev6 = steps ev5"
            "visited ev6 = filter (\<lambda>v. v \<noteq> u) (visited ev5)" by blast
          moreover from this ev' le have "steps ev6 \<le> steps ev'" "\<not> b1 \<longrightarrow> visited ev6 = visited ev'"
            by simp_all
          ultimately show ?thesis using le(1) by blast
        qed
      qed
      moreover have "steps ev1 \<le> steps ev'" "max_allowed ev' = 0" using dx(1,2) z1 ev' by simp_all
      ultimately show ?thesis using order_trans [OF s1(1)] by blast
    qed
  qed
qed

section \<open>What compilation and indexing guarantee\<close>

lemma foldE_insert_unique:
  assumes "foldE (\<lambda>acc x. bindE (v x) (\<lambda>_. insert_unique err acc x)) acc xs = Inr r"
  shows "set r = set acc \<union> set xs \<and> (\<forall>x \<in> set xs. v x = Inr ())"
  using assms
  by (induction xs arbitrary: acc) (fastforce simp: insert_unique_def split: if_splits)+

lemma foldE_insert_entries:
  assumes "foldE (\<lambda>m x. bindE (f x) (\<lambda>c. if bt_contains_key m (key x) then Inl (err x)
      else Inr (bt_insert (key x) c m))) acc xs = Inr r" "(k, c) \<in> set r"
  shows "(k, c) \<in> set acc \<or> (\<exists>x \<in> set xs. key x = k \<and> f x = Inr c)"
  using assms
proof (induction xs arbitrary: acc)
  case (Cons x xs)
  from Cons.prems(1) obtain cx where cx: "f x = Inr cx"
    and rest: "foldE (\<lambda>m x. bindE (f x) (\<lambda>c. if bt_contains_key m (key x) then Inl (err x)
      else Inr (bt_insert (key x) c m))) (bt_insert (key x) cx acc) xs = Inr r"
    by (auto split: if_splits)
  have "set (bt_insert (key x) cx acc) \<subseteq> insert (key x, cx) (set acc)"
    by (induction acc) (auto split: if_splits)
  with Cons.IH [OF rest Cons.prems(2)] cx show ?case by auto
qed simp

lemma compiled_direct:
  assumes "compile_relation ns relation limits = Inr (Direct selectors)"
  obtains subjects where "relation_kind relation = DirectKind subjects" "set selectors = set subjects"
    "\<forall>x \<in> set subjects. validate_allowed_subject x = Inr ()"
  using assms foldE_insert_unique
  by (fastforce simp: compile_relation_def split: RelationKind.splits)

text \<open>A compiled direct relation is one the schema declares, with the same selectors.\<close>

lemma compiled_declared:
  assumes "compile_schema schema limits = Inr compiled"
    and "schema_relation compiled namespace relation = Some (Direct selectors)"
  obtains nd rd subjects where "nd \<in> set schema" "namespace_name nd = namespace"
    "rd \<in> set (namespace_relations nd)" "relation_name rd = relation"
    "relation_kind rd = DirectKind subjects" "set selectors = set subjects"
    "\<forall>x \<in> set subjects. validate_allowed_subject x = Inr ()"
proof -
  from assms(1) have ns_fold: "foldE (\<lambda>namespaces namespace.
      bindE (compile_namespace namespace limits) (\<lambda>compiled.
      if bt_contains_key namespaces (namespace_name namespace)
      then Inl (InvalidSchema (''duplicate namespace `'' @ namespace_name namespace @ ''`''))
      else Inr (bt_insert (namespace_name namespace) compiled namespaces))) [] schema = Inr compiled"
    by (auto simp: compile_schema_def)
  from assms(2) obtain ns where ns: "(namespace, ns) \<in> set compiled" "(relation, Direct selectors) \<in> set ns"
    by (auto simp: schema_relation_def Option.bind_eq_Some_conv dest!: bt_get_mem)
  from foldE_insert_entries [OF ns_fold ns(1)] obtain nd where nd: "nd \<in> set schema"
    "namespace_name nd = namespace" "compile_namespace nd limits = Inr ns" by auto
  from nd(3) have rel_fold: "foldE (\<lambda>relations relation.
       bindE (compile_relation (namespace_name nd) relation limits) (\<lambda>compiled.
       if bt_contains_key relations (relation_name relation)
       then Inl (InvalidSchema (''duplicate relation `'' @ namespace_name nd @ ''#''
              @ relation_name relation @ ''`''))
       else Inr (bt_insert (relation_name relation) compiled relations)))
       [] (namespace_relations nd) = Inr ns"
    by (auto simp: compile_namespace_def)
  from foldE_insert_entries [OF rel_fold ns(2)] obtain rd where rd: "rd \<in> set (namespace_relations nd)"
    "relation_name rd = relation" "compile_relation (namespace_name nd) rd limits = Inr (Direct selectors)"
    by auto
  from compiled_direct [OF rd(3)] nd rd that show thesis by metis
qed

text \<open>\<open>tuples_ok\<close>: every indexed member matches a selector of the direct relation it is under.\<close>

definition tuples_ok :: "CompiledSchema \<Rightarrow> (UsersetRef, DirectSubjects) btree \<Rightarrow> bool" where
  "tuples_ok schema m \<longleftrightarrow>
     (\<forall>u members. bt_get m u = Some members \<longrightarrow>
        (\<exists>selectors. schema_relation schema (object_namespace (userset_object u)) (userset_relation u)
             = Some (Direct selectors) \<and>
           (\<forall>s \<in> set (direct_objects members). \<exists>selector \<in> set selectors.
              selector_matches selector (Tuple (userset_object u) (userset_relation u) (SubjectObject s))) \<and>
           (\<forall>v \<in> set (direct_usersets members).
              schema_relation schema (object_namespace (userset_object v)) (userset_relation v) \<noteq> None \<and>
              (\<exists>selector \<in> set selectors. selector_matches selector
                (Tuple (userset_object u) (userset_relation u) (SubjectUserset v))))))"

lemma tuples_okD:
  assumes "tuples_ok schema m" "bt_get m u = Some members"
  obtains selectors where
    "schema_relation schema (object_namespace (userset_object u)) (userset_relation u) = Some (Direct selectors)"
    "\<And>s. s \<in> set (direct_objects members) \<Longrightarrow> \<exists>selector \<in> set selectors.
       selector_matches selector (Tuple (userset_object u) (userset_relation u) (SubjectObject s))"
    "\<And>v. v \<in> set (direct_usersets members) \<Longrightarrow>
       schema_relation schema (object_namespace (userset_object v)) (userset_relation v) \<noteq> None \<and>
       (\<exists>selector \<in> set selectors. selector_matches selector
         (Tuple (userset_object u) (userset_relation u) (SubjectUserset v)))"
  using assms unfolding tuples_ok_def by meson

lemma tuples_ok_put:
  assumes "tuples_ok schema m"
    and "schema_relation schema (object_namespace (userset_object u)) (userset_relation u)
             = Some (Direct selectors)"
    and "\<And>s. s \<in> set (direct_objects members) \<Longrightarrow> \<exists>selector \<in> set selectors.
           selector_matches selector (Tuple (userset_object u) (userset_relation u) (SubjectObject s))"
    and "\<And>v. v \<in> set (direct_usersets members) \<Longrightarrow>
           schema_relation schema (object_namespace (userset_object v)) (userset_relation v) \<noteq> None \<and>
           (\<exists>selector \<in> set selectors. selector_matches selector
                (Tuple (userset_object u) (userset_relation u) (SubjectUserset v)))"
  shows "tuples_ok schema (bt_insert u members m)"
  using assms unfolding tuples_ok_def by (auto simp: bt_get_insert)

definition empty_members :: DirectSubjects where
  "empty_members = \<lparr>direct_objects = [], direct_usersets = []\<rparr>"

definition members_of :: "(UsersetRef, DirectSubjects) btree \<Rightarrow> UsersetRef \<Rightarrow> DirectSubjects" where
  "members_of m u = (case bt_get m u of Some members \<Rightarrow> members | None \<Rightarrow> empty_members)"

lemma add_tuple_Inr:
  assumes "add_tuple schema limits (m, i) t = Inr (m', i')"
  shows "validate_tuple schema t = Inr ()" "i' = i + 1"
    "m' = bt_insert (tuple_userset t)
       (snd (insert_subject (members_of m (tuple_userset t)) (tuple_subject t))) m"
  using assms
  by (auto simp: add_tuple_def Let_def case_prod_unfold members_of_def empty_members_def
      split: option.splits)

lemma validate_tuple_Inr:
  assumes "validate_tuple schema t = Inr ()"
  obtains selectors selector where
    "schema_relation schema (object_namespace (tuple_object t)) (tuple_relation t) = Some (Direct selectors)"
    "selector \<in> set selectors" "selector_matches selector t"
    "\<And>v. tuple_subject t = SubjectUserset v \<Longrightarrow>
       schema_relation schema (object_namespace (userset_object v)) (userset_relation v) \<noteq> None"
proof -
  from assms obtain selectors where d: "direct_allowed schema (tuple_userset t) = Inr selectors"
    "list_ex (\<lambda>selector. selector_matches selector t) selectors"
    by (auto simp: validate_tuple_def)
  from d(1) obtain k where "schema_relation schema (object_namespace (tuple_object t)) (tuple_relation t) = Some k"
    by (auto simp: direct_allowed_def tuple_userset_def)
  with d(1) have "schema_relation schema (object_namespace (tuple_object t)) (tuple_relation t)
      = Some (Direct selectors)"
    by (cases k) (simp_all add: direct_allowed_def tuple_userset_def)
  moreover have "schema_relation schema (object_namespace (userset_object v)) (userset_relation v) \<noteq> None"
    if "tuple_subject t = SubjectUserset v" for v
    using assms that by (auto simp: validate_tuple_def require_relation_def)
  ultimately show thesis using that d(2) by (auto simp: list_ex_iff)
qed

lemma tuples_ok_add:
  assumes "tuples_ok schema m" "add_tuple schema limits (m, i) t = Inr (m', i')"
  shows "tuples_ok schema m'"
proof -
  note add = add_tuple_Inr [OF assms(2)]
  obtain selectors selector where sel:
    "schema_relation schema (object_namespace (tuple_object t)) (tuple_relation t) = Some (Direct selectors)"
    "selector \<in> set selectors" "selector_matches selector t"
    "\<And>v. tuple_subject t = SubjectUserset v \<Longrightarrow>
       schema_relation schema (object_namespace (userset_object v)) (userset_relation v) \<noteq> None"
    using validate_tuple_Inr [OF add(1)] by blast
  have t: "Tuple (tuple_object t) (tuple_relation t) s = t" if "tuple_subject t = s" for s
    using that by (cases t) simp
  have old: "(\<forall>s \<in> set (direct_objects (members_of m (tuple_userset t))). \<exists>selector \<in> set selectors.
         selector_matches selector (Tuple (tuple_object t) (tuple_relation t) (SubjectObject s))) \<and>
       (\<forall>v \<in> set (direct_usersets (members_of m (tuple_userset t))).
         schema_relation schema (object_namespace (userset_object v)) (userset_relation v) \<noteq> None \<and>
         (\<exists>selector \<in> set selectors. selector_matches selector
           (Tuple (tuple_object t) (tuple_relation t) (SubjectUserset v))))"
  proof (cases "bt_get m (tuple_userset t)")
    case (Some members)
    obtain selectors' where "schema_relation schema (object_namespace (tuple_object t)) (tuple_relation t)
        = Some (Direct selectors')"
      and obj: "\<And>s. s \<in> set (direct_objects members) \<Longrightarrow> \<exists>selector \<in> set selectors'.
        selector_matches selector (Tuple (tuple_object t) (tuple_relation t) (SubjectObject s))"
      and us: "\<And>v. v \<in> set (direct_usersets members) \<Longrightarrow>
        schema_relation schema (object_namespace (userset_object v)) (userset_relation v) \<noteq> None \<and>
        (\<exists>selector \<in> set selectors'. selector_matches selector
          (Tuple (tuple_object t) (tuple_relation t) (SubjectUserset v)))"
      by (rule tuples_okD [OF assms(1) Some]) (simp add: tuple_userset_def)
    with sel(1) have "selectors' = selectors" by simp
    moreover have "members_of m (tuple_userset t) = members" using Some by (simp add: members_of_def)
    ultimately show ?thesis using obj us by blast
  qed (simp add: members_of_def empty_members_def)
  show ?thesis
  proof (cases "tuple_subject t")
    case (SubjectObject s)
    then show ?thesis
      unfolding add(3)
      by (intro tuples_ok_put [OF assms(1), of _ selectors])
        (use sel old t in \<open>auto simp: insert_subject_def tuple_userset_def\<close>)
  next
    case (SubjectUserset v)
    then show ?thesis
      unfolding add(3)
      by (intro tuples_ok_put [OF assms(1), of _ selectors])
        (use sel old t in \<open>auto simp: insert_subject_def tuple_userset_def\<close>)
  qed
qed

lemma tuples_ok_fold:
  "tuples_ok schema m \<Longrightarrow> foldE (add_tuple schema limits) (m, i) ts = Inr (m', i') \<Longrightarrow> tuples_ok schema m'"
  by (induction ts arbitrary: m i) (auto dest: tuples_ok_add)

lemma authorization_new_Inr:
  assumes "authorization_new realm schema tuples limits = Inr A"
  shows "compile_schema schema limits = Inr (auth_schema A)" "tuples_ok (auth_schema A) (auth_tuples A)"
    "foldE (add_tuple (auth_schema A) limits) ([], 0) tuples = Inr (auth_tuples A, auth_tuple_count A)"
    "auth_limits A = limits"
  using assms tuples_ok_fold [of "auth_schema A" "[]" limits 0 tuples]
  by (auto simp: authorization_new_def tuples_ok_def)

lemma compiled_references:
  assumes "compile_schema schema limits = Inr compiled"
    and "schema_relation compiled namespace relation = Some (Permission rules)" "rule \<in> set rules"
  shows "validate_rule_reference compiled namespace relation rule = Inr ()"
proof -
  from assms(2) obtain ns where ns: "(namespace, ns) \<in> set compiled" "(relation, Permission rules) \<in> set ns"
    by (auto simp: schema_relation_def Option.bind_eq_Some_conv dest!: bt_get_mem)
  from assms(1) have "validate_references compiled = Inr ()" by (auto simp: compile_schema_def)
  with ns assms(3) show ?thesis by (force simp: validate_references_def)
qed

lemma validate_follow:
  assumes "validate_rule_reference schema ns relation (TupleToUserset tuple_rel target_relation) = Inr ()"
  obtains selectors where "schema_relation schema ns tuple_rel = Some (Direct selectors)"
    "\<And>s. s \<in> set selectors \<Longrightarrow> \<exists>tns r. tuple_target s = Some (tns, r) \<and>
      schema_relation schema tns target_relation \<noteq> None"
proof -
  from assms obtain source where source: "schema_relation schema ns tuple_rel = Some source"
    by (auto simp: validate_rule_reference_def require_schema_relation_def)
  show thesis
  proof (cases source)
    case (Direct selectors)
    have "\<exists>tns r. tuple_target s = Some (tns, r) \<and> schema_relation schema tns target_relation \<noteq> None"
      if "s \<in> set selectors" for s
      using assms that source Direct
      by (fastforce simp: validate_rule_reference_def require_schema_relation_def)
    with source Direct that show thesis by blast
  qed (use assms source in \<open>simp add: validate_rule_reference_def require_schema_relation_def\<close>)
qed

lemma selector_target:
  assumes "selector_matches s (Tuple obj relation subject)"
    and "subject = SubjectObject target \<or> (\<exists>w. subject = SubjectUserset w \<and> userset_object w = target)"
    and "tuple_target s = Some (tns, r)"
  shows "tns = object_namespace target"
proof (cases s)
  case (Exact x)
  with assms show ?thesis by (cases x) (auto simp: selector_matches_def tuple_target_def)
qed (use assms in \<open>auto simp: selector_matches_def tuple_target_def\<close>)

text \<open>A compiled schema is closed: wherever the search goes, the relation is declared.\<close>

lemma edges_declared:
  assumes "authorization_new realm schema tuples limits = Inr A" "v \<in> set (edges A u)"
  shows "userset_kind A v \<noteq> None"
  using assms(2)
proof (cases rule: edgesE)
  case (nested selectors members)
  show ?thesis
    unfolding userset_kind_def
    by (rule tuples_okD [OF authorization_new_Inr(2) [OF assms(1)] nested(2)]) (use nested(3) in blast)
next
  case (inherit rules relation)
  then have "validate_rule_reference (auth_schema A) (object_namespace (userset_object u)) (userset_relation u)
      (Inherit relation) = Inr ()"
    using compiled_references [OF authorization_new_Inr(1) [OF assms(1)]] by (simp add: userset_kind_def)
  with inherit(3) show ?thesis
    by (auto simp: userset_kind_def validate_rule_reference_def require_schema_relation_def)
next
  case (follow rules tuple_rel target_relation members target)
  let ?ns = "object_namespace (userset_object u)"
  have "validate_rule_reference (auth_schema A) ?ns (userset_relation u) (TupleToUserset tuple_rel target_relation)
      = Inr ()"
    using compiled_references [OF authorization_new_Inr(1) [OF assms(1)]] follow(1,2)
    by (simp add: userset_kind_def)
  from validate_follow [OF this] obtain selectors where
    sel: "schema_relation (auth_schema A) ?ns tuple_rel = Some (Direct selectors)"
    and targets: "\<And>s. s \<in> set selectors \<Longrightarrow> \<exists>tns r. tuple_target s = Some (tns, r) \<and>
      schema_relation (auth_schema A) tns target_relation \<noteq> None"
    by blast
  obtain selectors' where
    "schema_relation (auth_schema A) ?ns tuple_rel = Some (Direct selectors')"
    and obj: "\<And>s. s \<in> set (direct_objects members) \<Longrightarrow> \<exists>selector \<in> set selectors'.
        selector_matches selector (Tuple (userset_object u) tuple_rel (SubjectObject s))"
    and us: "\<And>v. v \<in> set (direct_usersets members) \<Longrightarrow> \<exists>selector \<in> set selectors'.
        selector_matches selector (Tuple (userset_object u) tuple_rel (SubjectUserset v))"
    by (rule tuples_okD [OF authorization_new_Inr(2) [OF assms(1)] follow(3)]) simp
  with sel have eq: "selectors' = selectors" by simp
  obtain s subject where s: "s \<in> set selectors"
    "selector_matches s (Tuple (userset_object u) tuple_rel subject)"
    "subject = SubjectObject target \<or> (\<exists>w. subject = SubjectUserset w \<and> userset_object w = target)"
    using follow(4) obj us unfolding eq tuple_targets_def set_append set_map by blast
  from targets [OF s(1)] obtain tns r where "tuple_target s = Some (tns, r)"
    "schema_relation (auth_schema A) tns target_relation \<noteq> None" by blast
  moreover from selector_target [OF s(2,3) this(1)] have "tns = object_namespace target" by simp
  ultimately show ?thesis using follow(5) by (simp add: userset_kind_def)
qed

lemma insert_subject_sets:
  "set (direct_objects (snd (insert_subject members subject))) =
     set (direct_objects members) \<union> {s. subject = SubjectObject s}"
  "set (direct_usersets (snd (insert_subject members subject))) =
     set (direct_usersets members) \<union> {v. subject = SubjectUserset v}"
  by (cases subject; auto simp: insert_subject_def)+

lemma members_of_insert:
  "members_of (bt_insert u members m) v = (if v = u then members else members_of m v)"
  by (simp add: members_of_def bt_get_insert)

text \<open>The index holds exactly the tuples it was given.\<close>

lemma add_tuple_members:
  assumes "add_tuple schema limits (m, i) t = Inr (m', i')"
  shows "set (direct_objects (members_of m' u)) = set (direct_objects (members_of m u)) \<union>
      {s. t = Tuple (userset_object u) (userset_relation u) (SubjectObject s)}"
    and "set (direct_usersets (members_of m' u)) = set (direct_usersets (members_of m u)) \<union>
      {v. t = Tuple (userset_object u) (userset_relation u) (SubjectUserset v)}"
  unfolding add_tuple_Inr(3) [OF assms] members_of_insert
  by (cases u; cases t; auto simp: insert_subject_sets tuple_userset_def)+

lemma fold_members:
  assumes "foldE (add_tuple schema limits) (m, i) ts = Inr (m', i')"
  shows "set (direct_objects (members_of m' u)) = set (direct_objects (members_of m u)) \<union>
      {s. Tuple (userset_object u) (userset_relation u) (SubjectObject s) \<in> set ts}"
    and "set (direct_usersets (members_of m' u)) = set (direct_usersets (members_of m u)) \<union>
      {v. Tuple (userset_object u) (userset_relation u) (SubjectUserset v) \<in> set ts}"
    and "i' = i + length ts"
proof -
  have "set (direct_objects (members_of m' u)) = set (direct_objects (members_of m u)) \<union>
      {s. Tuple (userset_object u) (userset_relation u) (SubjectObject s) \<in> set ts} \<and>
    set (direct_usersets (members_of m' u)) = set (direct_usersets (members_of m u)) \<union>
      {v. Tuple (userset_object u) (userset_relation u) (SubjectUserset v) \<in> set ts} \<and> i' = i + length ts"
    using assms
  proof (induction ts arbitrary: m i)
    case (Cons t ts)
    then obtain m1 i1 where t: "add_tuple schema limits (m, i) t = Inr (m1, i1)"
      and ts: "foldE (add_tuple schema limits) (m1, i1) ts = Inr (m', i')" by auto
    from Cons.IH [OF ts] add_tuple_members [OF t, of u] add_tuple_Inr(2) [OF t] show ?case by auto
  qed simp
  then show "set (direct_objects (members_of m' u)) = set (direct_objects (members_of m u)) \<union>
      {s. Tuple (userset_object u) (userset_relation u) (SubjectObject s) \<in> set ts}"
    "set (direct_usersets (members_of m' u)) = set (direct_usersets (members_of m u)) \<union>
      {v. Tuple (userset_object u) (userset_relation u) (SubjectUserset v) \<in> set ts}"
    "i' = i + length ts" by blast+
qed

text \<open>No tuple is indexed twice.\<close>

definition has_tuple :: "(UsersetRef, DirectSubjects) btree \<Rightarrow> Tuple \<Rightarrow> bool" where
  "has_tuple m t \<longleftrightarrow>
     (case tuple_subject t of
        SubjectObject s \<Rightarrow> s \<in> set (direct_objects (members_of m (tuple_userset t)))
      | SubjectUserset v \<Rightarrow> v \<in> set (direct_usersets (members_of m (tuple_userset t))))"

lemma add_tuple_new:
  assumes "add_tuple schema limits (m, i) t = Inr (m', i')"
  shows "\<not> has_tuple m t"
  using assms
  by (cases "tuple_subject t")
    (auto simp: add_tuple_def Let_def case_prod_unfold has_tuple_def members_of_def empty_members_def
      insert_subject_def split: option.splits)

lemma add_tuple_has:
  assumes "add_tuple schema limits (m, i) t = Inr (m', i')"
  shows "has_tuple m' t' \<longleftrightarrow> t' = t \<or> has_tuple m t'"
  by (cases t')
    (auto simp: has_tuple_def tuple_userset_def add_tuple_members [OF assms] split: TupleSubject.splits)

lemma fold_distinct:
  "foldE (add_tuple schema limits) (m, i) ts = Inr (m', i') \<Longrightarrow>
   distinct ts \<and> (\<forall>t \<in> set ts. \<not> has_tuple m t)"
proof (induction ts arbitrary: m i)
  case (Cons t ts)
  then obtain m1 i1 where t: "add_tuple schema limits (m, i) t = Inr (m1, i1)"
    and ts: "foldE (add_tuple schema limits) (m1, i1) ts = Inr (m', i')" by auto
  from Cons.IH [OF ts] add_tuple_new [OF t] add_tuple_has [OF t] show ?case by auto
qed simp

definition members_sorted :: "(UsersetRef, DirectSubjects) btree \<Rightarrow> bool" where
  "members_sorted m \<longleftrightarrow>
     (\<forall>u. sorted_wrt (<) (direct_objects (members_of m u)) \<and> sorted_wrt (<) (direct_usersets (members_of m u)))"

lemma add_tuple_sorted:
  assumes "add_tuple schema limits (m, i) t = Inr (m', i')" "members_sorted m"
  shows "members_sorted m'"
  using assms(2) unfolding members_sorted_def add_tuple_Inr(3) [OF assms(1)] members_of_insert
  by (auto simp: insert_subject_def bs_insert_sorted split: TupleSubject.split)

lemma fold_sorted:
  "foldE (add_tuple schema limits) (m, i) ts = Inr (m', i') \<Longrightarrow> members_sorted m \<Longrightarrow> members_sorted m'"
proof (induction ts arbitrary: m i)
  case (Cons t ts)
  then obtain m1 i1 where "add_tuple schema limits (m, i) t = Inr (m1, i1)"
    and "foldE (add_tuple schema limits) (m1, i1) ts = Inr (m', i')" by auto
  with Cons add_tuple_sorted show ?case by blast
qed simp

lemma resolve_limits:
  assumes "authorization_new realm schema tuples limits = Inr A"
    and "memo_sound A ev" "userset_kind A u \<noteq> None" "resolve A levels subject u ev = (Inl e, ev')"
  shows "e = step_limit A \<or> e = EvaluationLimit ''depth'' (max_depth (auth_limits A))"
  using assms(2-4)
proof (induction levels arbitrary: u ev ev')
  case (Suc levels)
  from resolve_error [OF Suc.prems(1,3)] Suc.prems(2) consider "e = step_limit A"
    | v ev1 ev2 where "v \<in> set (edges A u)" "memo_sound A ev1" "resolve A levels subject v ev1 = (Inl e, ev2)"
    by blast
  then show ?case
  proof cases
    case 2
    then show ?thesis using Suc.IH [OF 2(2) edges_declared [OF assms(1) 2(1)] 2(3)] by simp
  qed simp
qed simp

lemma resolve_depth:
  assumes "finite U" "\<And>u. u \<in> U \<Longrightarrow> set (edges A u) \<subseteq> U"
    and "memo_sound A ev" "u \<in> U" "set (visited ev) \<subseteq> U" "card U < levels + card (set (visited ev))"
    and "resolve A levels subject u ev = (Inl e, ev')"
  shows "e \<noteq> EvaluationLimit ''depth'' (max_depth (auth_limits A))"
  using assms(3-7)
proof (induction levels arbitrary: u ev ev')
  case 0
  then show ?case using card_mono [OF assms(1) 0(3)] by simp
next
  case (Suc levels)
  from resolve_error [OF Suc.prems(1,5)] consider "e = step_limit A" | r where "e = InvalidCheck r"
    | v ev1 ev2 where "u \<notin> set (visited ev)" "v \<in> set (edges A u)" "memo_sound A ev1"
        "set (visited ev1) = insert u (set (visited ev))" "resolve A levels subject v ev1 = (Inl e, ev2)"
    by blast
  then show ?case
  proof cases
    case 3
    have "v \<in> U" using assms(2) [OF Suc.prems(2)] 3(2) by blast
    moreover have "set (visited ev1) \<subseteq> U" using 3(4) Suc.prems(2,3) by simp
    moreover have "card U < levels + card (set (visited ev1))" using 3(1,4) Suc.prems(4) by simp
    ultimately show ?thesis using Suc.IH [OF 3(3) _ _ _ 3(5)] by blast
  qed (simp_all add: step_limit_def)
qed

lemma check_each_agrees:
  assumes "mapE (check A) cs = Inr bs" "\<forall>(s, u) \<in> set memo. granted A s u"
  shows "check_each A cs memo maximum = Inr bs"
  using assms
proof (induction cs arbitrary: bs memo)
  case (Cons c cs)
  then obtain b bs' where b: "check A c = Inr b" "mapE (check A) cs = Inr bs'" "bs = b # bs'" by auto
  let ?start = "\<lambda>memo maximum. \<lparr>visited = [], allowed = memo, max_allowed = maximum, steps = 0\<rparr>"
  obtain ev' where run: "resolve A (unat (max_depth (auth_limits A))) (check_subject c) (check_userset c)
      (?start [] 0) = (Inr b, ev')" and valid: "validate_check A c = Inr ()"
    using b(1) by (auto simp: check_def check_with_memo_def tryS_def split: sum.splits prod.splits)
  obtain b1 ev1 where run1: "resolve A (unat (max_depth (auth_limits A))) (check_subject c) (check_userset c)
      (?start memo maximum) = (Inr b1, ev1)"
    using robustD(3) [OF robust_resolve run, of "?start memo maximum"] by auto
  have sound: "memo_sound A (?start memo maximum)" "memo_sound A (?start [] 0)"
    using Cons.prems(2) by (simp_all add: memo_sound_def)
  note d = decidesD [OF decides_resolve sound(2) run] and d1 = decidesD [OF decides_resolve sound(1) run1]
  have "b1 = b" using d(3,4) d1(3,4) by (auto simp: granted_iff_reach)
  with run1 valid have "check_with_memo A c memo maximum = (Inr b, allowed ev1)"
    by (simp add: check_with_memo_def)
  moreover have "check_each A cs (allowed ev1) maximum = Inr bs'"
    using Cons.IH [OF b(2)] d1(2) by (simp add: memo_sound_def)
  ultimately show ?case using b(3) by simp
qed simp

section \<open>A concrete realm\<close>

definition ex_app :: "string \<Rightarrow> ObjectRef" where "ex_app i = ObjectRef ''app'' (Opaque i)"

definition ex_group :: "string \<Rightarrow> UsersetRef" where
  "ex_group i = UsersetRef (ObjectRef ''group'' (Opaque i)) ''member''"

definition ex_folder :: ObjectRef where "ex_folder = ObjectRef ''folder'' (Opaque ''f'')"

definition ex_doc :: ObjectRef where
  "ex_doc = ObjectRef ''doc'' (ExactPathId (ExactPath ''t'' ''b'' ''x/y''))"

definition ex_schema :: Schema where
  "ex_schema =
    [\<lparr>namespace_name = ''group'', namespace_relations =
       [\<lparr>relation_name = ''member'',
         relation_kind = DirectKind [AnyObject ''app'', AnyUserset ''group'' ''member'']\<rparr>]\<rparr>,
     \<lparr>namespace_name = ''folder'', namespace_relations =
       [\<lparr>relation_name = ''view'',
         relation_kind = DirectKind [Public, AnyUserset ''group'' ''member'']\<rparr>]\<rparr>,
     \<lparr>namespace_name = ''doc'', namespace_relations =
       [\<lparr>relation_name = ''owner'', relation_kind = DirectKind [AnyObject ''app'']\<rparr>,
        \<lparr>relation_name = ''parent'', relation_kind = DirectKind [AnyObject ''folder'']\<rparr>,
        \<lparr>relation_name = ''view'',
         relation_kind = PermissionKind [Inherit ''owner'', TupleToUserset ''parent'' ''view'']\<rparr>]\<rparr>]"

text \<open>Two groups that contain each other, a folder one of them may view, a document in it.\<close>

definition ex_tuples :: "Tuple list" where
  "ex_tuples =
    [Tuple (userset_object (ex_group ''g'')) ''member'' (SubjectUserset (ex_group ''h'')),
     Tuple (userset_object (ex_group ''h'')) ''member'' (SubjectUserset (ex_group ''g'')),
     Tuple (userset_object (ex_group ''h'')) ''member'' (SubjectObject (ex_app ''alice'')),
     Tuple ex_folder ''view'' (SubjectUserset (ex_group ''g'')),
     Tuple ex_folder ''view'' (SubjectObject public_object),
     Tuple ex_doc ''parent'' (SubjectObject ex_folder)]"

definition ex_limits :: AuthorizationLimits where
  "ex_limits = \<lparr>max_namespaces = 8, max_relations_per_namespace = 8, max_items_per_relation = 8,
     max_tuples = 8, max_depth = 8, max_steps = 60\<rparr>"

definition ex_auth :: Authorization where
  "ex_auth = projr (authorization_new ''default'' ex_schema ex_tuples ex_limits)"

definition ex_check :: "string \<Rightarrow> AuthorizationCheck" where
  "ex_check who = \<lparr>check_subject = ex_app who, check_object = ex_doc, check_relation = ''view''\<rparr>"

lemma ex_auth: "authorization_new ''default'' ex_schema ex_tuples ex_limits = Inr ex_auth"
proof -
  have "\<not> isl (authorization_new ''default'' ex_schema ex_tuples ex_limits)" by code_simp
  then show ?thesis
    by (cases "authorization_new ''default'' ex_schema ex_tuples ex_limits") (simp_all add: ex_auth_def)
qed

section \<open>Claims\<close>

text \<open>C14. A check decides the authorization relation: when it answers, the answer is yes exactly when
  the schema's rules and the stored tuples entail the grant, also on cyclic groups.\<close>

theorem check_decides:
  assumes "check A c = Inr b"
  shows "b \<longleftrightarrow> granted A (check_subject c) (check_userset c)"
proof -
  obtain ev' where "resolve A (unat (max_depth (auth_limits A))) (check_subject c) (check_userset c)
      \<lparr>visited = [], allowed = [], max_allowed = 0, steps = 0\<rparr> = (Inr b, ev')"
    using assms by (auto simp: check_def check_with_memo_def tryS_def split: sum.splits prod.splits)
  from decidesD(3,4) [OF decides_resolve _ this] show ?thesis
    by (auto simp: memo_sound_def granted_iff_reach)
qed

theorem check_decides_witness:
  "check ex_auth (ex_check ''alice'') = Inr True \<and> granted ex_auth (ex_app ''alice'') (UsersetRef ex_doc ''view'') \<and>
   check ex_auth (ex_check ''bob'') = Inr False \<and> \<not> granted ex_auth (ex_app ''bob'') (UsersetRef ex_doc ''view'')"
proof -
  have "check ex_auth (ex_check ''alice'') = Inr True" "check ex_auth (ex_check ''bob'') = Inr False"
    by code_simp+
  with check_decides [OF this(1)] check_decides [OF this(2)] show ?thesis
    by (simp add: ex_check_def check_userset_def)
qed

text \<open>C15. A batch of checks gives the answers of the single checks: whenever each check on its own
  answers, the batch answers the same, although it reuses positive results.\<close>

theorem check_many_agrees:
  assumes "mapE (check A) cs = Inr bs"
  shows "check_many A cs = Inr bs"
  using check_each_agrees [OF assms, of "[]"] by (simp add: check_many_def memo_sound_def)

theorem check_many_agrees_witness:
  "mapE (check ex_auth) [ex_check ''alice'', ex_check ''bob'', ex_check ''alice''] = Inr [True, False, True] \<and>
   check_many ex_auth [ex_check ''alice'', ex_check ''bob'', ex_check ''alice''] = Inr [True, False, True]"
proof -
  have "mapE (check ex_auth) [ex_check ''alice'', ex_check ''bob'', ex_check ''alice''] = Inr [True, False, True]"
    by code_simp
  with check_many_agrees [OF this] show ?thesis by simp
qed

text \<open>C16. In an accepted realm a check fails only because the request itself is refused before the
  search starts (it is malformed, or the relation it asks for is not declared), or because the
  search reached an evaluation limit: the search itself never meets an undeclared relation.\<close>

theorem check_errors:
  assumes "authorization_new realm schema tuples limits = Inr A" "check A c = Inl e"
  shows "validate_check A c = Inl e \<or> e = EvaluationLimit ''step'' (max_steps limits) \<or>
    e = EvaluationLimit ''depth'' (max_depth limits)"
proof (cases "validate_check A c")
  case (Inr u)
  obtain ev' where "resolve A (unat (max_depth (auth_limits A))) (check_subject c) (check_userset c)
      \<lparr>visited = [], allowed = [], max_allowed = 0, steps = 0\<rparr> = (Inl e, ev')"
    using assms(2) Inr by (auto simp: check_def check_with_memo_def split: prod.splits)
  moreover have "userset_kind A (check_userset c) \<noteq> None"
    using Inr by (auto simp: validate_check_def require_relation_def userset_kind_def check_userset_def)
  moreover have "memo_sound A \<lparr>visited = [], allowed = [], max_allowed = 0, steps = 0\<rparr>"
    by (simp add: memo_sound_def)
  ultimately show ?thesis
    using resolve_limits [OF assms(1)] authorization_new_Inr(4) [OF assms(1)]
    by (metis step_limit_def)
qed (use assms(2) in \<open>simp add: check_def check_with_memo_def\<close>)

theorem check_errors_witness:
  "\<exists>e. check ex_auth ((ex_check ''alice'')\<lparr>check_relation := ''edit''\<rparr>) = Inl e \<and>
     validate_check ex_auth ((ex_check ''alice'')\<lparr>check_relation := ''edit''\<rparr>) = Inl e"
proof -
  let ?c = "(ex_check ''alice'')\<lparr>check_relation := ''edit''\<rparr>"
  have e: "check ex_auth ?c = Inl (InvalidCheck ''relation `doc#edit` is not declared'')" by code_simp
  from check_errors [OF ex_auth e] show ?thesis using e by simp
qed

text \<open>C17. The depth limit is reached only by chains of distinct usersets: if a set of usersets with
  fewer members than the limit contains the requested one and everything its members lead to, no
  check fails on depth.\<close>

theorem depth_suffices:
  assumes "check_userset c \<in> set us" "\<forall>u \<in> set us. set (edges A u) \<subseteq> set us"
    and "length us < unat (max_depth (auth_limits A))"
  shows "check A c \<noteq> Inl (EvaluationLimit ''depth'' (max_depth (auth_limits A)))"
proof
  assume "check A c = Inl (EvaluationLimit ''depth'' (max_depth (auth_limits A)))"
  then obtain ev' where run: "resolve A (unat (max_depth (auth_limits A))) (check_subject c) (check_userset c)
      \<lparr>visited = [], allowed = [], max_allowed = 0, steps = 0\<rparr> =
        (Inl (EvaluationLimit ''depth'' (max_depth (auth_limits A))), ev')"
    by (auto simp: check_def check_with_memo_def validate_check_def require_relation_def tryS_def
        bindE_eq_Inl split: sum.splits prod.splits)
  have "card (set us) < unat (max_depth (auth_limits A))" using assms(3) card_length [of us] by simp
  with resolve_depth [OF _ _ _ assms(1) _ _ run] assms(2) show False by (auto simp: memo_sound_def)
qed

definition ex_usersets :: "UsersetRef list" where
  "ex_usersets = [UsersetRef ex_doc ''view'', UsersetRef ex_doc ''owner'', UsersetRef ex_folder ''view'',
     ex_group ''g'', ex_group ''h'']"

theorem depth_suffices_witness:
  "check ex_auth (ex_check ''bob'') \<noteq> Inl (EvaluationLimit ''depth'' 8)"
proof -
  have "check_userset (ex_check ''bob'') \<in> set ex_usersets"
    "\<forall>u \<in> set ex_usersets. set (edges ex_auth u) \<subseteq> set ex_usersets"
    "length ex_usersets < unat (max_depth (auth_limits ex_auth))" "max_depth (auth_limits ex_auth) = 8"
    by code_simp+
  with depth_suffices [OF this(1,2,3)] show ?thesis by simp
qed

text \<open>C18. The public principal is granted only where the schema says so: a tuple that names it is
  accepted only on a direct relation whose declaration lists the public selector.\<close>

theorem public_needs_selector:
  assumes "authorization_new realm schema tuples limits = Inr A"
    and "Tuple obj relation (SubjectObject s) \<in> set tuples" "is_public s"
  shows "\<exists>nd \<in> set schema. \<exists>rd \<in> set (namespace_relations nd). \<exists>subjects.
    namespace_name nd = object_namespace obj \<and> relation_name rd = relation \<and>
    relation_kind rd = DirectKind subjects \<and> Public \<in> set subjects"
proof -
  let ?u = "UsersetRef obj relation"
  have "s \<in> set (direct_objects (members_of (auth_tuples A) ?u))"
    using fold_members(1) [OF authorization_new_Inr(3) [OF assms(1)], of ?u] assms(2) by simp
  then obtain members where m: "bt_get (auth_tuples A) ?u = Some members" "s \<in> set (direct_objects members)"
    by (auto simp: members_of_def empty_members_def split: option.splits)
  obtain selectors selector where sel:
    "schema_relation (auth_schema A) (object_namespace obj) relation = Some (Direct selectors)"
    "selector \<in> set selectors" "selector_matches selector (Tuple obj relation (SubjectObject s))"
    by (rule tuples_okD [OF authorization_new_Inr(2) [OF assms(1)] m(1)]) (use m(2) in \<open>auto; blast\<close>)
  obtain nd rd subjects where d: "nd \<in> set schema" "namespace_name nd = object_namespace obj"
    "rd \<in> set (namespace_relations nd)" "relation_name rd = relation" "relation_kind rd = DirectKind subjects"
    "set selectors = set subjects" "\<forall>x \<in> set subjects. validate_allowed_subject x = Inr ()"
    using compiled_declared [OF authorization_new_Inr(1) [OF assms(1)] sel(1)] by metis
  have "validate_allowed_subject selector = Inr ()" using sel(2) d(6,7) by blast
  then have "selector = Public"
    using sel(3) assms(3) by (cases selector) (auto simp: selector_matches_def validate_allowed_subject_def)
  with d sel(2) show ?thesis by blast
qed

theorem public_needs_selector_witness:
  "\<exists>nd \<in> set ex_schema. \<exists>rd \<in> set (namespace_relations nd). \<exists>subjects.
    namespace_name nd = ''folder'' \<and> relation_name rd = ''view'' \<and>
    relation_kind rd = DirectKind subjects \<and> Public \<in> set subjects"
proof -
  have "Tuple ex_folder ''view'' (SubjectObject public_object) \<in> set ex_tuples" "is_public public_object"
    "object_namespace ex_folder = ''folder''"
    by code_simp+
  with public_needs_selector [OF ex_auth this(1,2)] show ?thesis by simp
qed

text \<open>C19. Building a realm indexes exactly the tuples it is given, each once: the input has no
  duplicates when it is accepted, a subject is found under a userset precisely when that tuple was
  in the input, no subject is listed twice, and the count is the number of tuples. An input with a
  duplicate is therefore refused.\<close>

theorem index_exact:
  assumes "authorization_new realm schema tuples limits = Inr A"
  shows "distinct tuples \<and> auth_tuple_count A = length tuples \<and>
    distinct (direct_objects (members_of (auth_tuples A) (UsersetRef obj relation))) \<and>
    distinct (direct_usersets (members_of (auth_tuples A) (UsersetRef obj relation))) \<and>
    (s \<in> set (direct_objects (members_of (auth_tuples A) (UsersetRef obj relation))) \<longleftrightarrow>
      Tuple obj relation (SubjectObject s) \<in> set tuples) \<and>
    (v \<in> set (direct_usersets (members_of (auth_tuples A) (UsersetRef obj relation))) \<longleftrightarrow>
      Tuple obj relation (SubjectUserset v) \<in> set tuples)"
proof -
  note indexed = authorization_new_Inr(3) [OF assms]
  have "members_sorted (auth_tuples A)"
    by (rule fold_sorted [OF indexed]) (simp add: members_sorted_def members_of_def empty_members_def)
  then show ?thesis
    using fold_distinct [OF indexed] fold_members(1,2) [OF indexed, of "UsersetRef obj relation"]
      fold_members(3) [OF indexed]
    by (simp add: members_sorted_def strict_sorted_iff members_of_def [of "[]"] empty_members_def)
qed

theorem index_exact_witness:
  "distinct ex_tuples \<and>
   ex_folder \<in> set (direct_objects (members_of (auth_tuples ex_auth) (UsersetRef ex_doc ''parent'')))"
proof -
  have "Tuple ex_doc ''parent'' (SubjectObject ex_folder) \<in> set ex_tuples" by code_simp
  with index_exact [OF ex_auth] show ?thesis by blast
qed

end
