(* ===== verification/Path_Template.thy ===== *)
theory Path_Template
  imports Keldra_Prelude
begin

text \<open>
  Object addresses and the path templates of an atomic program: \<^verbatim>\<open>ObjectPath\<close> of
  \<^verbatim>\<open>keldra-atomic-program/src/model.rs\<close> and \<^verbatim>\<open>template.rs\<close>. A template is literal text
  with \<^verbatim>\<open>{name}\<close> fields; a field's value is one path segment.
\<close>

section \<open>Object addresses\<close>

definition MAX_OBJECT_TENANT_BYTES :: nat where "MAX_OBJECT_TENANT_BYTES = 256"
definition MAX_OBJECT_BUCKET_BYTES :: nat where "MAX_OBJECT_BUCKET_BYTES = 256"
definition MAX_OBJECT_PATH_BYTES :: nat where "MAX_OBJECT_PATH_BYTES = 4096"

datatype ObjectPath = ObjectPath (op_tenant: string) (op_bucket: string) (op_path: string)

definition canonical_component :: "string \<Rightarrow> nat \<Rightarrow> bool" where
  "canonical_component v maximum_bytes \<longleftrightarrow>
     v \<noteq> [] \<and> length v \<le> maximum_bytes \<and> CHR ''/'' \<notin> set v \<and> \<not> has_control v"

definition object_path_new :: "string \<Rightarrow> string \<Rightarrow> string \<Rightarrow> string + ObjectPath" where
  "object_path_new tenant bucket path =
     (if \<not> canonical_component tenant MAX_OBJECT_TENANT_BYTES
         \<or> \<not> canonical_component bucket MAX_OBJECT_BUCKET_BYTES
         \<or> path = []
         \<or> MAX_OBJECT_PATH_BYTES < length path
         \<or> hd path = CHR ''/''
         \<or> last path = CHR ''/''
         \<or> list_ex (\<lambda>segment. segment = [] \<or> segment \<in> {''.'', ''..''}) (split_on (CHR ''/'') path)
         \<or> has_control path
      then Inl ''object address has an invalid tenant, bucket, or path''
      else Inr (ObjectPath tenant bucket path))"

text \<open>The derived order compares tenant, bucket and path in turn.\<close>

instantiation ObjectPath :: linorder
begin

definition less_eq_ObjectPath :: "ObjectPath \<Rightarrow> ObjectPath \<Rightarrow> bool" where
  "a \<le> b \<longleftrightarrow> (op_tenant a, op_bucket a, op_path a) \<le> (op_tenant b, op_bucket b, op_path b)"

definition less_ObjectPath :: "ObjectPath \<Rightarrow> ObjectPath \<Rightarrow> bool" where
  "a < b \<longleftrightarrow> (op_tenant a, op_bucket a, op_path a) < (op_tenant b, op_bucket b, op_path b)"

instance
proof
  fix x y z :: ObjectPath
  show "(x < y) = (x \<le> y \<and> \<not> y \<le> x)" by (auto simp: less_eq_ObjectPath_def less_ObjectPath_def)
  show "x \<le> x" by (simp add: less_eq_ObjectPath_def)
  show "x \<le> y \<Longrightarrow> y \<le> z \<Longrightarrow> x \<le> z" unfolding less_eq_ObjectPath_def by (rule order_trans)
  show "x \<le> y \<Longrightarrow> y \<le> x \<Longrightarrow> x = y"
    unfolding less_eq_ObjectPath_def by (rule ObjectPath.expand) (auto dest: order.antisym)
  show "x \<le> y \<or> y \<le> x" unfolding less_eq_ObjectPath_def by (rule linear)
qed

end

section \<open>Templates\<close>

datatype TemplatePart = Literal string | Field string

definition is_field_start :: "char \<Rightarrow> bool" where
  "is_field_start c \<longleftrightarrow> c = CHR ''_'' \<or> is_ascii_alphabetic c"

definition validate_field_name :: "string \<Rightarrow> string + unit" where
  "validate_field_name name =
     (case name of
        [] \<Rightarrow> Inl ''template field name must not be empty''
      | first # rest \<Rightarrow>
          ensure (is_field_start first \<and> list_all (\<lambda>c. c = CHR ''_'' \<or> is_ascii_alphanumeric c) rest)
            (''invalid template field name `'' @ name @ ''`''))"

definition validate_substitution :: "string \<Rightarrow> string \<Rightarrow> string + unit" where
  "validate_substitution name v =
     ensure (v \<noteq> [] \<and> CHR ''/'' \<notin> set v \<and> CHR ''{'' \<notin> set v \<and> CHR ''}'' \<notin> set v
             \<and> CHR 0x00 \<notin> set v)
       (''template value `'' @ name @ ''` must be one non-empty safe path segment'')"

text \<open>The scanning loop of \<^verbatim>\<open>parts\<close>: \<open>literal\<close> is the text since the last field.\<close>

definition flush :: "string \<Rightarrow> TemplatePart list" where
  "flush literal = (if literal = [] then [] else [Literal literal])"

function scan_parts :: "string \<Rightarrow> string \<Rightarrow> string + TemplatePart list" where
  "scan_parts literal [] = Inr (flush literal)"
| "scan_parts literal (c # cs) =
     (if c = CHR ''{'' then
        (case dropWhile (\<lambda>d. d \<noteq> CHR ''}'') cs of
           [] \<Rightarrow> Inl ''template contains an unclosed `{`''
         | _ # rest \<Rightarrow>
             (let name = takeWhile (\<lambda>d. d \<noteq> CHR ''}'') cs in
              bindE (validate_field_name name) (\<lambda>_.
              bindE (scan_parts [] rest) (\<lambda>parts.
              Inr (flush literal @ Field name # parts)))))
      else if c = CHR ''}'' then Inl ''template contains an unmatched `}`''
      else if c = CHR 0x00 then Inl ''template contains a NUL byte''
      else scan_parts (literal @ [c]) cs)"
  by pat_completeness auto
termination
proof (relation "measure (\<lambda>(literal, cs). length cs)")
  fix literal cs :: string and c d :: char and rest :: string and name :: string
  assume "dropWhile (\<lambda>d. d \<noteq> CHR ''}'') cs = d # rest"
  then have "length (d # rest) \<le> length cs" by (metis length_dropWhile_le)
  then show "(([], rest), (literal, c # cs)) \<in> measure (\<lambda>(literal, cs). length cs)" by simp
qed simp_all

definition template_parts :: "string \<Rightarrow> string + TemplatePart list" where
  "template_parts template =
     bindE (ensure (template \<noteq> []) ''template must not be empty'') (\<lambda>_. scan_parts [] template)"

definition template_validate :: "string \<Rightarrow> string + unit" where
  "template_validate template = bindE (template_parts template) (\<lambda>_. Inr ())"

definition part_fields :: "TemplatePart list \<Rightarrow> string list" where
  "part_fields parts = List.map_filter (\<lambda>part. case part of Literal _ \<Rightarrow> None | Field name \<Rightarrow> Some name) parts"

definition placeholders :: "string \<Rightarrow> string + string list" where
  "placeholders template =
     bindE (template_parts template) (\<lambda>parts. Inr (bs_of_list (part_fields parts)))"

definition expand_part :: "(string, string) btree \<Rightarrow> TemplatePart \<Rightarrow> string + string" where
  "expand_part values part =
     (case part of
        Literal text \<Rightarrow> Inr text
      | Field name \<Rightarrow>
          bindE (ok_or (''missing template value `'' @ name @ ''`'') (bt_get values name)) (\<lambda>v.
          bindE (validate_substitution name v) (\<lambda>_. Inr v)))"

definition template_expand :: "string \<Rightarrow> (string, string) btree \<Rightarrow> string + string" where
  "template_expand template values =
     bindE (template_parts template) (\<lambda>parts.
     foldE (\<lambda>expanded part. bindE (expand_part values part) (\<lambda>text. Inr (expanded @ text))) [] parts)"

record PathTemplate =
  pt_tenant :: string
  pt_bucket :: string
  pt_path :: string

definition path_template_validate :: "PathTemplate \<Rightarrow> string + unit" where
  "path_template_validate t =
     bindE (template_validate (pt_tenant t)) (\<lambda>_.
     bindE (template_validate (pt_bucket t)) (\<lambda>_.
     bindE (template_validate (pt_path t)) (\<lambda>_.
     ensure (CHR ''/'' \<notin> set (pt_tenant t) \<and> CHR ''/'' \<notin> set (pt_bucket t))
       ''tenant and bucket templates must not contain `/`'')))"

definition path_template_expand :: "PathTemplate \<Rightarrow> (string, string) btree \<Rightarrow> string + ObjectPath" where
  "path_template_expand t values =
     bindE (template_expand (pt_tenant t) values) (\<lambda>tenant.
     bindE (template_expand (pt_bucket t) values) (\<lambda>bucket.
     bindE (template_expand (pt_path t) values) (\<lambda>path.
     object_path_new tenant bucket path)))"

section \<open>Scanning and expansion\<close>

text \<open>\<open>part_text\<close> prints a part as it stands in the template.\<close>

definition part_text :: "TemplatePart \<Rightarrow> string" where
  "part_text part = (case part of Literal text \<Rightarrow> text | Field name \<Rightarrow> ''{'' @ name @ ''}'')"

lemma part_text_simps [simp]: "part_text (Literal s) = s" "part_text (Field name) = ''{'' @ name @ ''}''"
  by (simp_all add: part_text_def)

lemma flush_text [simp]: "concat (map part_text (flush literal)) = literal"
  by (simp add: flush_def)

lemma takeWhile_dropWhile_cons:
  assumes "dropWhile P cs = d # rest"
  shows "cs = takeWhile P cs @ d # rest" "\<not> P d"
  using assms by (metis takeWhile_dropWhile_id) (metis assms hd_dropWhile list.distinct(1) list.sel(1))

lemma scan_parts_field:
  assumes "scan_parts literal (CHR ''{'' # cs) = Inr parts"
  obtains d rest ps where "dropWhile (\<lambda>d. d \<noteq> CHR ''}'') cs = d # rest" "scan_parts [] rest = Inr ps"
    "parts = flush literal @ Field (takeWhile (\<lambda>d. d \<noteq> CHR ''}'') cs) # ps"
    "validate_field_name (takeWhile (\<lambda>d. d \<noteq> CHR ''}'') cs) = Inr ()"
  using assms by (cases "dropWhile (\<lambda>d. d \<noteq> CHR ''}'') cs") (auto simp: Let_def)

lemma scan_parts_text:
  "scan_parts literal cs = Inr parts \<Longrightarrow> concat (map part_text parts) = literal @ cs"
proof (induction literal cs arbitrary: parts rule: scan_parts.induct)
  case (2 literal c cs)
  show ?case
  proof (cases "c = CHR ''{''")
    case True
    obtain d rest ps where dw: "dropWhile (\<lambda>d. d \<noteq> CHR ''}'') cs = d # rest"
      and ps: "scan_parts [] rest = Inr ps"
        "parts = flush literal @ Field (takeWhile (\<lambda>d. d \<noteq> CHR ''}'') cs) # ps"
        "validate_field_name (takeWhile (\<lambda>d. d \<noteq> CHR ''}'') cs) = Inr ()"
      by (rule scan_parts_field [OF 2(3) [unfolded True]])
    from 2(1) [OF True dw refl ps(1)] have "concat (map part_text ps) = rest" by simp
    then have "concat (map part_text parts) =
        literal @ CHR ''{'' # takeWhile (\<lambda>d. d \<noteq> CHR ''}'') cs @ CHR ''}'' # rest"
      using ps(2) by simp
    also have "takeWhile (\<lambda>d. d \<noteq> CHR ''}'') cs @ CHR ''}'' # rest = cs"
      using takeWhile_dropWhile_cons [OF dw] by simp
    finally show ?thesis using True by simp
  next
    case False
    with 2(2,3) show ?thesis by (auto split: if_splits)
  qed
qed simp

definition slashes :: "string \<Rightarrow> nat" where
  "slashes s = length (filter (\<lambda>c. c = CHR ''/'') s)"

lemma slashes_simps [simp]:
  "slashes [] = 0" "slashes (s @ t) = slashes s + slashes t"
  "slashes (c # s) = (if c = CHR ''/'' then 1 else 0) + slashes s"
  by (simp_all add: slashes_def)

lemma slashes_zero: "CHR ''/'' \<notin> set s \<Longrightarrow> slashes s = 0"
  by (induction s) auto

lemma split_on_slashes: "length (split_on (CHR ''/'') s) = slashes s + 1"
proof (induction s)
  case (Cons c s)
  then show ?case by (cases "split_on (CHR ''/'') s") auto
qed simp

lemma field_name_no_slash: "validate_field_name name = Inr () \<Longrightarrow> CHR ''/'' \<notin> set name"
proof -
  have "\<not> is_ascii_alphanumeric (CHR ''/'')" "\<not> is_field_start (CHR ''/'')" by code_simp+
  then show "validate_field_name name = Inr () \<Longrightarrow> CHR ''/'' \<notin> set name"
    by (cases name) (auto simp: validate_field_name_def list_all_iff)
qed

lemma scan_parts_fields:
  "scan_parts literal cs = Inr parts \<Longrightarrow> Field name \<in> set parts \<Longrightarrow> validate_field_name name = Inr ()"
proof (induction literal cs arbitrary: parts rule: scan_parts.induct)
  case (1 literal)
  then show ?case by (auto simp: flush_def split: if_splits)
next
  case (2 literal c cs)
  show ?case
  proof (cases "c = CHR ''{''")
    case True
    obtain d rest ps where dw: "dropWhile (\<lambda>d. d \<noteq> CHR ''}'') cs = d # rest"
      and ps: "scan_parts [] rest = Inr ps"
        "parts = flush literal @ Field (takeWhile (\<lambda>d. d \<noteq> CHR ''}'') cs) # ps"
        "validate_field_name (takeWhile (\<lambda>d. d \<noteq> CHR ''}'') cs) = Inr ()"
      by (rule scan_parts_field [OF 2(3) [unfolded True]])
    from 2(1) [OF True dw refl ps(1)] ps 2(4) show ?thesis
      by (auto simp: flush_def split: if_splits)
  next
    case False
    with 2(2,3,4) show ?thesis by (auto split: if_splits)
  qed
qed

lemma expand_part_slashes:
  assumes "expand_part values part = Inr text" "\<And>name. part = Field name \<Longrightarrow> validate_field_name name = Inr ()"
  shows "slashes text = slashes (part_text part)"
proof (cases part)
  case (Field name)
  with assms have "CHR ''/'' \<notin> set text" by (auto simp: expand_part_def validate_substitution_def)
  with Field assms(2) field_name_no_slash [of name] show ?thesis by (simp add: part_text_def slashes_zero)
qed (use assms in \<open>simp add: expand_part_def part_text_def\<close>)

lemma expand_fold_slashes:
  assumes "foldE (\<lambda>expanded part. bindE (expand_part values part) (\<lambda>text. Inr (expanded @ text))) acc parts
      = Inr s" "\<And>name. Field name \<in> set parts \<Longrightarrow> validate_field_name name = Inr ()"
  shows "slashes s = slashes acc + slashes (concat (map part_text parts))"
  using assms
proof (induction parts arbitrary: acc)
  case (Cons part parts)
  then obtain out where out: "expand_part values part = Inr out"
    "foldE (\<lambda>expanded part. bindE (expand_part values part) (\<lambda>text. Inr (expanded @ text))) (acc @ out) parts = Inr s"
    by auto
  have "slashes out = slashes (part_text part)"
    using Cons.prems(2) by (intro expand_part_slashes [OF out(1)]) simp
  with Cons.IH [OF out(2)] Cons.prems(2) show ?case by simp
qed simp

section \<open>Claim\<close>

text \<open>C28. Scanning a template loses nothing, printing its parts gives the template back, and expanding
  it keeps its shape: whatever the values are, the result has exactly as many path segments as the
  template, so no value can add a segment or climb out of one.\<close>

theorem template_segments:
  assumes "template_expand template values = Inr s"
  shows "\<exists>parts. template_parts template = Inr parts \<and> concat (map part_text parts) = template \<and>
    length (split_on (CHR ''/'') s) = length (split_on (CHR ''/'') template)"
proof -
  from assms obtain parts where parts: "template_parts template = Inr parts"
    and fold: "foldE (\<lambda>expanded part. bindE (expand_part values part) (\<lambda>text. Inr (expanded @ text))) [] parts = Inr s"
    by (auto simp: template_expand_def)
  from parts have scan: "scan_parts [] template = Inr parts" by (auto simp: template_parts_def)
  have "concat (map part_text parts) = template" using scan_parts_text [OF scan] by simp
  with expand_fold_slashes [OF fold scan_parts_fields [OF scan]] parts show ?thesis
    by (simp add: split_on_slashes)
qed

theorem template_segments_witness:
  "\<exists>parts. template_parts ''users/{id}/x'' = Inr parts \<and> concat (map part_text parts) = ''users/{id}/x'' \<and>
    length (split_on (CHR ''/'') ''users/u7/x'') = length (split_on (CHR ''/'') ''users/{id}/x'')"
proof -
  have "template_expand ''users/{id}/x'' [(''id'', ''u7'')] = Inr ''users/u7/x''" by code_simp
  from template_segments [OF this] show ?thesis .
qed

end
