(* ===== verification/Json_Value.thy ===== *)
theory Json_Value
  imports Keldra_Prelude
begin

text \<open>
  JSON documents and the pointer operations of \<^verbatim>\<open>keldra-atomic-program/src/json.rs\<close>. A
  \<open>Value\<close> is serde\_json's data model: an object is an ordered map, a number is an integer
  between the least \<^verbatim>\<open>i64\<close> and the greatest \<^verbatim>\<open>u64\<close> or the bits of a float.

  serde\_json is outside the sources: its pointer lookup and the length of what it writes are
  arguments (\<open>JsonLib\<close>). \<open>rfc6901\<close> states what its documentation says about the lookup.
\<close>

section \<open>Values\<close>

datatype JsonNumber = Integer int | Float u64

datatype Value =
    Null
  | Bool bool
  | Number JsonNumber
  | String string
  | Array "Value list"
  | Object "(string \<times> Value) list"

text \<open>Equality of floats is that of \<^verbatim>\<open>f64\<close>: the two zeros are equal.\<close>

definition number_eq :: "JsonNumber \<Rightarrow> JsonNumber \<Rightarrow> bool" where
  "number_eq a b =
     (case (a, b) of
        (Integer x, Integer y) \<Rightarrow> x = y
      | (Float x, Float y) \<Rightarrow> x = y \<or> (x AND (2 ^ 63 - 1) = 0 \<and> y AND (2 ^ 63 - 1) = 0)
      | _ \<Rightarrow> False)"

fun json_eq :: "Value \<Rightarrow> Value \<Rightarrow> bool"
and json_eq_list :: "Value list \<Rightarrow> Value list \<Rightarrow> bool"
and json_eq_fields :: "(string \<times> Value) list \<Rightarrow> (string \<times> Value) list \<Rightarrow> bool" where
  "json_eq Null b = (case b of Null \<Rightarrow> True | _ \<Rightarrow> False)"
| "json_eq (Bool x) b = (case b of Bool y \<Rightarrow> x = y | _ \<Rightarrow> False)"
| "json_eq (Number x) b = (case b of Number y \<Rightarrow> number_eq x y | _ \<Rightarrow> False)"
| "json_eq (String x) b = (case b of String y \<Rightarrow> x = y | _ \<Rightarrow> False)"
| "json_eq (Array xs) b = (case b of Array ys \<Rightarrow> json_eq_list xs ys | _ \<Rightarrow> False)"
| "json_eq (Object xs) b = (case b of Object ys \<Rightarrow> json_eq_fields xs ys | _ \<Rightarrow> False)"
| "json_eq_list [] ys = (ys = [])"
| "json_eq_list (x # xs) ys = (case ys of y # ys' \<Rightarrow> json_eq x y \<and> json_eq_list xs ys' | [] \<Rightarrow> False)"
| "json_eq_fields [] ys = (ys = [])"
| "json_eq_fields ((k, x) # xs) ys =
     (case ys of (k', y) # ys' \<Rightarrow> k = k' \<and> json_eq x y \<and> json_eq_fields xs ys' | [] \<Rightarrow> False)"

definition as_i64 :: "Value \<Rightarrow> int option" where
  "as_i64 v =
     (case v of
        Number (Integer n) \<Rightarrow> if - (2 ^ 63) \<le> n \<and> n < 2 ^ 63 then Some n else None
      | _ \<Rightarrow> None)"

definition as_u64 :: "Value \<Rightarrow> u64 option" where
  "as_u64 v =
     (case v of
        Number (Integer n) \<Rightarrow> if 0 \<le> n \<and> n < 2 ^ 64 then Some (word_of_int n) else None
      | _ \<Rightarrow> None)"

record JsonLib =
  value_pointer :: "Value \<Rightarrow> string \<Rightarrow> Value option"
  value_len :: "Value \<Rightarrow> string + nat"

section \<open>Pointers\<close>

fun decode_token :: "string \<Rightarrow> string + string" where
  "decode_token [] = Inr []"
| "decode_token (c # cs) =
     (if c \<noteq> CHR ''~'' then bindE (decode_token cs) (\<lambda>rest. Inr (c # rest))
      else (case cs of
              d # ds \<Rightarrow>
                if d = CHR ''0'' then bindE (decode_token ds) (\<lambda>rest. Inr (CHR ''~'' # rest))
                else if d = CHR ''1'' then bindE (decode_token ds) (\<lambda>rest. Inr (CHR ''/'' # rest))
                else Inl ''JSON pointer contains an invalid `~` escape''
            | [] \<Rightarrow> Inl ''JSON pointer contains an invalid `~` escape''))"

definition parse_pointer :: "string \<Rightarrow> string + string list" where
  "parse_pointer pointer =
     (case pointer of
        [] \<Rightarrow> Inr []
      | c # cs \<Rightarrow>
          if c = CHR ''/'' then mapE decode_token (split_on (CHR ''/'') cs)
          else Inl (''JSON pointer `'' @ pointer @ ''` must be empty or start with `/`''))"

definition validate_pointer :: "string \<Rightarrow> string + unit" where
  "validate_pointer pointer = bindE (parse_pointer pointer) (\<lambda>_. Inr ())"

definition dec_value :: "string \<Rightarrow> int" where
  "dec_value token = foldl (\<lambda>acc c. 10 * acc + (int (byte c) - 48)) 0 token"

definition canonical_index :: "string \<Rightarrow> bool" where
  "canonical_index token \<longleftrightarrow>
     \<not> (token = [] \<or> token = ''-'' \<or> (1 < length token \<and> hd token = CHR ''0'')
        \<or> \<not> list_all is_ascii_digit token)"

definition parse_array_index :: "string \<Rightarrow> string \<Rightarrow> string + nat" where
  "parse_array_index token pointer =
     bindE (ensure (canonical_index token)
              (''JSON pointer `'' @ pointer @ ''` contains invalid array index `'' @ token @ ''`'')) (\<lambda>_.
     if dec_value token < 2 ^ 64 then Inr (nat (dec_value token))
     else Inl (''array index in JSON pointer `'' @ pointer @ ''` is too large''))"

definition json_select :: "JsonLib \<Rightarrow> Value \<Rightarrow> string \<Rightarrow> string + Value" where
  "json_select L v pointer =
     bindE (validate_pointer pointer) (\<lambda>_.
     ok_or (''JSON pointer `'' @ pointer @ ''` does not exist'') (value_pointer L v pointer))"

text \<open>
  \<^verbatim>\<open>traverse_mut\<close> returns a reference that its caller writes through. Here the caller's write
  \<open>f\<close> is an argument, and the result is the whole document with the written part in place.
\<close>

fun traverse_mut :: "string \<Rightarrow> (Value \<Rightarrow> string + Value) \<Rightarrow> string list \<Rightarrow> Value \<Rightarrow> string + Value" where
  "traverse_mut pointer f [] v = f v"
| "traverse_mut pointer f (token # tokens) v =
     (case v of
        Object m \<Rightarrow>
          bindE (ok_or (''JSON pointer `'' @ pointer @ ''` has a missing parent'') (bt_get m token)) (\<lambda>child.
          bindE (traverse_mut pointer f tokens child) (\<lambda>child'.
          Inr (Object (bt_insert token child' m))))
      | Array xs \<Rightarrow>
          bindE (parse_array_index token pointer) (\<lambda>index.
          bindE (ensure (index < length xs)
                   (''array index in JSON pointer `'' @ pointer @ ''` is out of bounds'')) (\<lambda>_.
          bindE (traverse_mut pointer f tokens (xs ! index)) (\<lambda>child'.
          Inr (Array (xs[index := child'])))))
      | _ \<Rightarrow> Inl (''JSON pointer `'' @ pointer @ ''` traverses a scalar value''))"

definition set_child :: "string \<Rightarrow> string \<Rightarrow> Value \<Rightarrow> Value \<Rightarrow> string + Value" where
  "set_child pointer token replacement parent =
     (case parent of
        Object m \<Rightarrow> Inr (Object (bt_insert token replacement m))
      | Array xs \<Rightarrow>
          bindE (parse_array_index token pointer) (\<lambda>index.
          bindE (ensure (index < length xs)
                   (''array index in JSON pointer `'' @ pointer @ ''` is out of bounds'')) (\<lambda>_.
          Inr (Array (xs[index := replacement]))))
      | _ \<Rightarrow> Inl (''parent of JSON pointer `'' @ pointer @ ''` is not an object or array''))"

definition json_set :: "Value \<Rightarrow> string \<Rightarrow> Value \<Rightarrow> string + Value" where
  "json_set v pointer replacement =
     bindE (parse_pointer pointer) (\<lambda>tokens.
     if tokens = [] then Inr replacement
     else traverse_mut pointer (set_child pointer (last tokens) replacement) (butlast tokens) v)"

definition remove_child :: "string \<Rightarrow> string \<Rightarrow> Value \<Rightarrow> string + Value" where
  "remove_child pointer token parent =
     (case parent of
        Object m \<Rightarrow>
          bindE (ensure (bt_contains_key m token)
                   (''JSON pointer `'' @ pointer @ ''` does not exist'')) (\<lambda>_.
          Inr (Object (bt_remove token m)))
      | Array xs \<Rightarrow>
          bindE (parse_array_index token pointer) (\<lambda>index.
          bindE (ensure (index < length xs)
                   (''array index in JSON pointer `'' @ pointer @ ''` is out of bounds'')) (\<lambda>_.
          Inr (Array (take index xs @ drop (index + 1) xs))))
      | _ \<Rightarrow> Inl (''parent of JSON pointer `'' @ pointer @ ''` is not an object or array''))"

definition json_remove :: "Value \<Rightarrow> string \<Rightarrow> string + Value" where
  "json_remove v pointer =
     bindE (parse_pointer pointer) (\<lambda>tokens.
     if tokens = [] then Inl ''root removal is handled as a document tombstone''
     else traverse_mut pointer (remove_child pointer (last tokens)) (butlast tokens) v)"

section \<open>What a pointer names\<close>

text \<open>RFC 6901: a token selects a member of an object by its name or an element of an array by its
  canonical decimal index.\<close>

definition child_at :: "Value \<Rightarrow> string \<Rightarrow> Value option" where
  "child_at v token =
     (case v of
        Object m \<Rightarrow> bt_get m token
      | Array xs \<Rightarrow>
          (case parse_array_index token [] of
             Inr index \<Rightarrow> if index < length xs then Some (xs ! index) else None
           | Inl _ \<Rightarrow> None)
      | _ \<Rightarrow> None)"

fun lookup :: "Value \<Rightarrow> string list \<Rightarrow> Value option" where
  "lookup v [] = Some v"
| "lookup v (token # tokens) = Option.bind (child_at v token) (\<lambda>child. lookup child tokens)"

definition rfc6901 :: "JsonLib \<Rightarrow> bool" where
  "rfc6901 L \<longleftrightarrow>
     (\<forall>v pointer tokens. parse_pointer pointer = Inr tokens \<longrightarrow>
        value_pointer L v pointer = lookup v tokens)"

section \<open>Indexes\<close>

lemma parse_array_index_iff:
  "parse_array_index token p = Inr i \<longleftrightarrow>
     canonical_index token \<and> dec_value token < 2 ^ 64 \<and> i = nat (dec_value token)"
  by (auto simp: parse_array_index_def)

lemma parse_array_index_other: "parse_array_index t p = Inr i \<Longrightarrow> parse_array_index t q = Inr i"
  by (simp add: parse_array_index_iff)

lemma byte_eq_iff: "byte c = byte d \<longleftrightarrow> c = d"
  by (simp add: byte_def)

lemma dec_value_simps [simp]:
  "dec_value [] = 0" "dec_value (ds @ [c]) = 10 * dec_value ds + (int (byte c) - 48)"
  by (simp_all add: dec_value_def)

lemma dec_value_nonneg: "list_all is_ascii_digit ds \<Longrightarrow> 0 \<le> dec_value ds"
  by (induction ds rule: rev_induct) (auto simp: is_ascii_digit_def)

lemma dec_value_pos:
  "list_all is_ascii_digit ds \<Longrightarrow> ds \<noteq> [] \<Longrightarrow> hd ds \<noteq> CHR ''0'' \<Longrightarrow> 0 < dec_value ds"
proof (induction ds rule: rev_induct)
  case (snoc c ds)
  show ?case
  proof (cases "ds = []")
    case True
    have "byte c \<noteq> byte (CHR ''0'')" using snoc.prems(3) True by (simp add: byte_eq_iff)
    then have "byte c \<noteq> 48" by (simp add: byte_def)
    then show ?thesis using snoc.prems(1) True dec_value_simps(2) [of "[]" c] by (simp add: is_ascii_digit_def)
  next
    case False
    with snoc have "0 < dec_value ds" by simp
    then show ?thesis using snoc.prems(1) by (auto simp: is_ascii_digit_def)
  qed
qed simp

lemma dec_value_inj:
  assumes "list_all is_ascii_digit xs" "list_all is_ascii_digit ys" "dec_value xs = dec_value ys"
    and "xs = [] \<or> hd xs \<noteq> CHR ''0''" "ys = [] \<or> hd ys \<noteq> CHR ''0''"
  shows "xs = ys"
  using assms
proof (induction xs arbitrary: ys rule: rev_induct)
  case Nil
  then show ?case using dec_value_pos [of ys] by fastforce
next
  case (snoc c xs)
  have "0 < dec_value (xs @ [c])" using snoc.prems by (intro dec_value_pos) auto
  with snoc.prems(3) have "ys \<noteq> []" by auto
  then obtain d zs where ys: "ys = zs @ [d]" by (metis rev_exhaust)
  have range: "48 \<le> byte c" "byte c \<le> 57" "48 \<le> byte d" "byte d \<le> 57"
    using snoc.prems(1,2) ys by (auto simp: is_ascii_digit_def)
  then have v: "dec_value xs = dec_value zs" using snoc.prems(3) ys by auto
  then have "byte c = byte d" using snoc.prems(3) ys by simp
  moreover have "xs = zs"
    using snoc.IH [of zs] snoc.prems ys v
    by (cases xs; cases zs) auto
  ultimately show ?case using ys by (simp add: byte_eq_iff)
qed

lemma canonical_inj:
  assumes "canonical_index s" "canonical_index t" "dec_value s = dec_value t"
  shows "s = t"
proof -
  have shape: "list_all is_ascii_digit x" "x = ''0'' \<or> hd x \<noteq> CHR ''0''" "x \<noteq> []" if "canonical_index x" for x
    using that by (cases x; cases "tl x"; auto simp: canonical_index_def)+
  have zero: "dec_value ''0'' = 0" by (simp add: dec_value_def byte_def)
  have "x = ''0''" if "canonical_index x" "dec_value x = 0" for x
    using shape [OF that(1)] dec_value_pos [of x] that(2) by force
  with assms zero dec_value_inj [of s t] shape [OF assms(1)] shape [OF assms(2)] show ?thesis by metis
qed

lemma parse_array_index_inj:
  assumes "parse_array_index s p = Inr i" "parse_array_index t q = Inr i"
  shows "s = t"
proof -
  have "0 \<le> dec_value s" "0 \<le> dec_value t"
    using assms by (auto simp: parse_array_index_iff canonical_index_def intro: dec_value_nonneg)
  with assms show ?thesis by (auto simp: parse_array_index_iff intro: canonical_inj)
qed

section \<open>Writing through a pointer\<close>

lemma child_at_Array:
  "child_at (Array xs) t = Some v \<longleftrightarrow> (\<exists>i. parse_array_index t p = Inr i \<and> i < length xs \<and> v = xs ! i)"
proof (cases "parse_array_index t []")
  case (Inl e)
  then have "parse_array_index t p \<noteq> Inr i" for i using parse_array_index_other [of t p i "[]"] by auto
  with Inl show ?thesis by (simp add: child_at_def)
next
  case (Inr j)
  with parse_array_index_other [OF Inr, of p] show ?thesis by (auto simp: child_at_def)
qed

lemma child_at_Object [simp]: "child_at (Object m) t = bt_get m t"
  by (simp add: child_at_def)

text \<open>Replacing one member or element leaves the others.\<close>

lemma child_at_update:
  assumes "parse_array_index t p = Inr i" "i < length xs"
  shows "child_at (Array (xs[i := v])) s = (if s = t then Some v else child_at (Array xs) s)"
proof (cases "parse_array_index s []")
  case (Inl e)
  then have "s \<noteq> t" using parse_array_index_other [OF assms(1), of "[]"] by auto
  with Inl show ?thesis by (simp add: child_at_def)
next
  case (Inr j)
  have "s = t \<longleftrightarrow> j = i"
    using parse_array_index_inj [OF Inr] assms(1) Inr by (auto simp: parse_array_index_iff)
  with Inr assms(2) show ?thesis by (auto simp: child_at_def)
qed

lemma set_child_children:
  assumes "set_child p token r v = Inr v'"
  shows "child_at v' s = (if s = token then Some r else child_at v s)"
  using assms child_at_update
  by (cases v) (auto simp: set_child_def bt_get_insert)

lemma traverse_child:
  assumes "traverse_mut p f (token # tokens) v = Inr v'"
  obtains child child' where "child_at v token = Some child" "traverse_mut p f tokens child = Inr child'"
    "\<And>s. child_at v' s = (if s = token then Some child' else child_at v s)"
proof (cases v)
  case (Array xs)
  with assms obtain i child' where i: "parse_array_index token p = Inr i" "i < length xs"
    "traverse_mut p f tokens (xs ! i) = Inr child'" "v' = Array (xs[i := child'])" by auto
  with that [of "xs ! i" child'] child_at_update [OF i(1,2)] Array show thesis
    by (auto simp: child_at_Array [of _ _ _ p])
next
  case (Object m)
  with assms that show thesis by (auto simp: bt_get_insert)
qed (use assms in simp_all)

text \<open>Two token lists that part before either ends.\<close>

fun apart :: "string list \<Rightarrow> string list \<Rightarrow> bool" where
  "apart (a # as) (b # bs) \<longleftrightarrow> a \<noteq> b \<or> apart as bs"
| "apart _ _ \<longleftrightarrow> False"

lemma traverse_lookup:
  assumes "traverse_mut p f tokens v = Inr v'"
  shows "\<exists>x y. lookup v tokens = Some x \<and> f x = Inr y \<and>
    (\<forall>rest. lookup v' (tokens @ rest) = lookup y rest) \<and>
    (\<forall>others. apart tokens others \<longrightarrow> lookup v' others = lookup v others)"
  using assms
proof (induction tokens arbitrary: v v')
  case (Cons t ts)
  obtain c c' where c: "child_at v t = Some c" "traverse_mut p f ts c = Inr c'"
    "\<And>s. child_at v' s = (if s = t then Some c' else child_at v s)"
    using traverse_child [OF Cons.prems] by metis
  from Cons.IH [OF c(2)] obtain x y where xy: "lookup c ts = Some x" "f x = Inr y"
    "\<forall>rest. lookup c' (ts @ rest) = lookup y rest"
    "\<forall>others. apart ts others \<longrightarrow> lookup c' others = lookup c others" by blast
  have "lookup v' others = lookup v others" if "apart (t # ts) others" for others
    using that xy(4) c by (cases others) auto
  with c xy show ?case by (intro exI [of _ x] exI [of _ y]) auto
qed auto

lemma lookup_append: "lookup v (xs @ ys) = Option.bind (lookup v xs) (\<lambda>u. lookup u ys)"
  by (induction xs arbitrary: v) (auto split: bind_split)

lemma apart_snoc:
  "apart (ts @ [t]) others \<Longrightarrow> apart ts others \<or> (\<exists>s rest. others = ts @ s # rest \<and> s \<noteq> t)"
proof (induction ts arbitrary: others)
  case Nil
  then show ?case by (cases others) auto
next
  case (Cons a ts)
  then show ?case by (cases others) auto
qed

lemma json_set_lookup:
  assumes "json_set v p r = Inr v'" "parse_pointer p = Inr tokens"
  shows "lookup v' tokens = Some r"
    and "apart tokens others \<Longrightarrow> lookup v' others = lookup v others"
proof -
  have "lookup v' tokens = Some r \<and> (apart tokens others \<longrightarrow> lookup v' others = lookup v others)"
  proof (cases "tokens = []")
    case True
    with assms show ?thesis by (simp add: json_set_def)
  next
    case False
    define ts t where "ts = butlast tokens" and "t = last tokens"
    have tokens: "tokens = ts @ [t]" using False by (simp add: ts_def t_def)
    have "traverse_mut p (set_child p t r) ts v = Inr v'"
      using assms False by (simp add: json_set_def ts_def t_def)
    from traverse_lookup [OF this] obtain x y where xy: "lookup v ts = Some x" "set_child p t r x = Inr y"
      "\<forall>rest. lookup v' (ts @ rest) = lookup y rest"
      "\<forall>others. apart ts others \<longrightarrow> lookup v' others = lookup v others" by blast
    note child = set_child_children [OF xy(2)]
    have "lookup v' tokens = Some r" using xy(3) child by (simp add: tokens)
    moreover have "lookup v' others = lookup v others" if "apart (ts @ [t]) others"
    proof -
      from apart_snoc [OF that] consider "apart ts others"
        | s rest where "others = ts @ s # rest" "s \<noteq> t" by blast
      then show ?thesis
      proof cases
        case 2
        have "lookup v others = lookup x (s # rest)" using xy(1) 2(1) by (simp add: lookup_append)
        with xy(3) child 2 show ?thesis by simp
      qed (use xy(4) in simp)
    qed
    ultimately show ?thesis by (simp add: tokens)
  qed
  then show "lookup v' tokens = Some r" "apart tokens others \<Longrightarrow> lookup v' others = lookup v others"
    by blast+
qed

lemma remove_child_children:
  assumes "remove_child p token (Object m) = Inr v'"
  shows "child_at v' s = (if s = token then None else child_at (Object m) s)"
  using assms by (auto simp: remove_child_def bt_get_remove)

section \<open>Claims\<close>

definition ex_json_lib :: JsonLib where
  "ex_json_lib = \<lparr>value_pointer = (\<lambda>v p. case parse_pointer p of Inr tokens \<Rightarrow> lookup v tokens | Inl _ \<Rightarrow> None),
     value_len = (\<lambda>_. Inr 2)\<rparr>"

lemma ex_json_lib: "rfc6901 ex_json_lib"
  by (simp add: rfc6901_def ex_json_lib_def)

text \<open>C27. Writing through a pointer is a lens: reading the pointer back gives what was written, and
  every pointer that parts from it before either ends reads as before.\<close>

theorem pointer_set_select:
  assumes "rfc6901 L" "json_set v p r = Inr v'"
  shows "json_select L v' p = Inr r \<and>
    (\<forall>q tokens others. parse_pointer p = Inr tokens \<and> parse_pointer q = Inr others \<and> apart tokens others \<longrightarrow>
       json_select L v' q = json_select L v q)"
proof -
  from assms(2) obtain tokens where "parse_pointer p = Inr tokens" by (auto simp: json_set_def)
  with json_set_lookup [OF assms(2)] assms(1) show ?thesis
    by (auto simp: json_select_def validate_pointer_def rfc6901_def)
qed

definition ex_json :: Value where
  "ex_json = Object [(''a'', Array [Null, Bool True]), (''b/c'', Number (Integer 7))]"

theorem pointer_set_select_witness:
  "\<exists>v'. json_set ex_json ''/a/1'' (String ''x'') = Inr v' \<and>
     json_select ex_json_lib v' ''/a/1'' = Inr (String ''x'') \<and>
     json_select ex_json_lib v' ''/b~1c'' = Inr (Number (Integer 7))"
proof -
  have set: "json_set ex_json ''/a/1'' (String ''x'') =
      Inr (Object [(''a'', Array [Null, String ''x'']), (''b/c'', Number (Integer 7))])"
    and p: "parse_pointer ''/a/1'' = Inr [''a'', ''1'']" "parse_pointer ''/b~1c'' = Inr [''b/c'']"
      "apart [''a'', ''1''] [''b/c'']"
    and b: "json_select ex_json_lib ex_json ''/b~1c'' = Inr (Number (Integer 7))"
    by code_simp+
  from pointer_set_select [OF ex_json_lib set] p b set show ?thesis by auto
qed

end
