(* ===== verification/Program_Model.thy ===== *)
theory Program_Model
  imports Path_Template Json_Value
begin

text \<open>
  The data of atomic programs, \<^verbatim>\<open>keldra-atomic-program/src/model.rs\<close> and
  \<^verbatim>\<open>error.rs\<close>: definitions, invocations, snapshots and the bundle an evaluation produces. A
  position in a slot is a natural number; an \<^verbatim>\<open>i64\<close> is an integer whose range the operations
  check.
\<close>

definition DEFINITION_SCHEMA_VERSION :: u16 where "DEFINITION_SCHEMA_VERSION = 1"

datatype EngineError =
    InvalidDefinition string
  | InvalidInvocation string
  | ReadFailed string
  | HeadPrecondition ObjectPath string
  | ProgramConcurrency ObjectPath string
  | AssertionFailed nat string
  | OperationFailed nat string
  | ReturnFailed string string
  | InvalidSnapshot string
  | LimitExceeded string

section \<open>Definitions\<close>

record ProgramCaps =
  max_paths :: usize
  max_writes :: usize
  max_operations :: usize
  max_input_bytes :: usize
  max_document_bytes :: usize

definition program_caps_default :: ProgramCaps where
  "program_caps_default = \<lparr>max_paths = 16, max_writes = 16, max_operations = 64,
     max_input_bytes = 1024 * 1024, max_document_bytes = 1024 * 1024\<rparr>"

datatype Cardinality = One | Optional | Repeated usize

definition cardinality_maximum :: "Cardinality \<Rightarrow> usize" where
  "cardinality_maximum c = (case c of One \<Rightarrow> 1 | Optional \<Rightarrow> 1 | Repeated maximum \<Rightarrow> maximum)"

definition cardinality_accepts :: "Cardinality \<Rightarrow> nat \<Rightarrow> bool" where
  "cardinality_accepts c count =
     (case c of
        One \<Rightarrow> count = 1 | Optional \<Rightarrow> count \<le> 1 | Repeated maximum \<Rightarrow> count \<le> unat maximum)"

datatype DocumentAccess = ReadOnly | ReadWrite

record DocumentSpec =
  spec_name :: string
  spec_path :: PathTemplate
  spec_cardinality :: Cardinality
  spec_access :: DocumentAccess
  spec_allow_initial_json :: bool

datatype DocumentRef = DocumentRef (ref_slot: string) (ref_index: nat)

instantiation DocumentRef :: linorder
begin

definition less_eq_DocumentRef :: "DocumentRef \<Rightarrow> DocumentRef \<Rightarrow> bool" where
  "a \<le> b \<longleftrightarrow> (ref_slot a, ref_index a) \<le> (ref_slot b, ref_index b)"

definition less_DocumentRef :: "DocumentRef \<Rightarrow> DocumentRef \<Rightarrow> bool" where
  "a < b \<longleftrightarrow> (ref_slot a, ref_index a) < (ref_slot b, ref_index b)"

instance
proof
  fix x y z :: DocumentRef
  show "(x < y) = (x \<le> y \<and> \<not> y \<le> x)" by (auto simp: less_eq_DocumentRef_def less_DocumentRef_def)
  show "x \<le> x" by (simp add: less_eq_DocumentRef_def)
  show "x \<le> y \<Longrightarrow> y \<le> z \<Longrightarrow> x \<le> z" unfolding less_eq_DocumentRef_def by (rule order_trans)
  show "x \<le> y \<Longrightarrow> y \<le> x \<Longrightarrow> x = y"
    unfolding less_eq_DocumentRef_def by (rule DocumentRef.expand) (auto dest: order.antisym)
  show "x \<le> y \<or> y \<le> x" unfolding less_eq_DocumentRef_def by (rule linear)
qed

end

record JsonPointerRef =
  jp_document :: DocumentRef
  jp_pointer :: string

datatype DocumentView = Before | Current

record DocumentValueRef =
  dv_value :: JsonPointerRef
  dv_view :: DocumentView

datatype InputValue = InputLiteral Value | InputNamed string

datatype ValueSource = SourceLiteral Value | SourceInput string | SourceDocument DocumentValueRef

datatype Comparison = CmpEq | CmpNe | CmpLt | CmpLe | CmpGt | CmpGe

datatype IntegerType = I64 "int option" "int option" | U64 "u64 option" "u64 option"

datatype Assertion =
    Exists DocumentRef
  | Absent DocumentRef
  | JsonEqual JsonPointerRef InputValue
  | IntegerCompare JsonPointerRef Comparison InputValue IntegerType

datatype Operation =
    SetValue JsonPointerRef ValueSource
  | RemoveValue JsonPointerRef
  | CheckedIntegerAdd JsonPointerRef InputValue IntegerType
  | CopyValue DocumentValueRef JsonPointerRef
  | ReplaceOpaque DocumentRef string string

record ReturnDefinition =
  return_name :: string
  return_value :: DocumentValueRef

record ProgramDefinition =
  schema_version :: u16
  documents :: "DocumentSpec list"
  assertions :: "Assertion list"
  operations :: "Operation list"
  returns :: "ReturnDefinition list"
  caps :: ProgramCaps

section \<open>Invocations and snapshots\<close>

type_synonym InvocationContext = string

definition invocation_context_new :: "string \<Rightarrow> string + InvocationContext" where
  "invocation_context_new tenant =
     bindE (ensure (canonical_component tenant MAX_OBJECT_TENANT_BYTES)
              ''tenant must be one canonical component of bounded size'') (\<lambda>_.
     Inr tenant)"

datatype ExpectedHead = HeadAny | HeadAbsent | HeadVersion string

record PathBinding =
  binding_path :: ObjectPath
  template_values :: "(string, string) btree"
  expected_head :: ExpectedHead
  initial_json :: "Value option"

record ProgramInvocation =
  program_path_hash :: "256 word"
  command_id :: string
  input_fingerprint :: string
  arguments :: "(string, string) btree"
  inputs :: "(string, Value) btree"
  blobs :: "(string, u8 list) btree"
  bindings :: "(string, PathBinding list) btree"

datatype StoredValue = Json Value | OpaqueBytes "u8 list"

record VersionedDocument =
  vd_version :: string
  vd_value :: "StoredValue option"
  vd_content_type :: "string option"

type_synonym ProgramSnapshot = "(ObjectPath, VersionedDocument) btree"

datatype ObservedHead = NeverExisted | ObservedVersion string

record VersionedWrite =
  vw_value :: "StoredValue option"
  vw_content_type :: "string option"

record AtomicParticipant =
  part_path :: ObjectPath
  part_expected :: ObservedHead
  part_write :: "VersionedWrite option"

record CommandReceipt =
  cr_program_path_hash :: "256 word"
  cr_command_id :: string
  cr_input_fingerprint :: string
  cr_outputs :: "(string, Value) btree"

record AtomicWriteBundle =
  participants :: "AtomicParticipant list"
  receipt :: CommandReceipt

definition bundle_writes :: "AtomicWriteBundle \<Rightarrow> (AtomicParticipant \<times> VersionedWrite) list" where
  "bundle_writes bundle =
     List.map_filter (\<lambda>p. map_option (\<lambda>w. (p, w)) (part_write p)) (participants bundle)"

record ProgramPathIntent =
  intent_get :: bool
  intent_put :: bool
  intent_delete :: bool

record ExpandedProgramPath =
  ep_path :: ObjectPath
  ep_intent :: ProgramPathIntent

text \<open>What serde\_json does for the engine: pointer lookup, and the length of an encoding.\<close>

record EngineLib =
  json_lib :: JsonLib
  invocation_len :: "ProgramInvocation \<Rightarrow> string + nat"

end
