(* ===== verification/Program_Engine.thy ===== *)
theory Program_Engine
  imports Program_Model
begin

text \<open>
  The engine of atomic programs, \<^verbatim>\<open>keldra-atomic-program/src/engine.rs\<close>: validation of a
  definition, resolution of an invocation into the finite set of its paths, evaluation against a
  snapshot into one bundle of preconditions and writes, and the authorization intents that are
  computed before anything is read. The snapshot reader is an argument of \<open>prepare\<close>; a
  debug-formatted value inside an error message is left out.
\<close>

section \<open>Checking names\<close>

definition validate_identifier :: "string \<Rightarrow> string \<Rightarrow> EngineError + unit" where
  "validate_identifier kind v =
     ensure (v \<noteq> [] \<and> length v \<le> 128 \<and>
             list_all (\<lambda>c. is_ascii_alphanumeric c \<or> c \<in> set ''_-.:/'') v)
       (InvalidDefinition (kind @ '' must be 1..=128 safe ASCII characters''))"

definition validate_input_name :: "string \<Rightarrow> EngineError + unit" where
  "validate_input_name v =
     ensure (v \<noteq> [] \<and> length v \<le> 128 \<and> list_all (\<lambda>c. is_ascii_alphanumeric c \<or> c \<in> set ''_-.'') v)
       (InvalidDefinition ''input name must be 1..=128 safe ASCII characters'')"

definition validate_content_type :: "string \<Rightarrow> EngineError + unit" where
  "validate_content_type v =
     ensure (v \<noteq> [] \<and> length v \<le> 255 \<and> CHR 0x00 \<notin> set v)
       (InvalidDefinition ''content type must be 1..=255 characters without NUL'')"

definition validate_input_value :: "InputValue \<Rightarrow> EngineError + unit" where
  "validate_input_value source =
     (case source of InputLiteral _ \<Rightarrow> Inr () | InputNamed name \<Rightarrow> validate_input_name name)"

definition validate_integer_type :: "IntegerType \<Rightarrow> EngineError + unit" where
  "validate_integer_type numeric_type =
     (case numeric_type of
        I64 (Some lo) (Some hi) \<Rightarrow>
          ensure (lo \<le> hi) (InvalidDefinition ''i64 minimum exceeds maximum'')
      | U64 (Some lo) (Some hi) \<Rightarrow>
          ensure (lo \<le> hi) (InvalidDefinition ''u64 minimum exceeds maximum'')
      | _ \<Rightarrow> Inr ())"

section \<open>Validation of a definition\<close>

text \<open>The slots seen so far, and the largest numbers of paths and of writes they allow.\<close>

record SlotTable =
  slots :: "(string, DocumentSpec) btree"
  maximum_paths :: usize
  maximum_writes :: usize

definition add_slot :: "SlotTable \<Rightarrow> DocumentSpec \<Rightarrow> EngineError + SlotTable" where
  "add_slot t document =
     bindE (validate_identifier ''document slot'' (spec_name document)) (\<lambda>_.
     bindE (map_err InvalidDefinition (path_template_validate (spec_path document))) (\<lambda>_.
     bindE (ensure (spec_cardinality document \<noteq> Repeated 0)
              (InvalidDefinition (''repeated slot `'' @ spec_name document
                 @ ''` must permit at least one path''))) (\<lambda>_.
     bindE (ensure (\<not> (spec_allow_initial_json document \<and> spec_access document \<noteq> ReadWrite))
              (InvalidDefinition (''read-only slot `'' @ spec_name document
                 @ ''` cannot permit an initial value''))) (\<lambda>_.
     bindE (ensure (\<not> bt_contains_key (slots t) (spec_name document))
              (InvalidDefinition (''duplicate document slot `'' @ spec_name document @ ''`''))) (\<lambda>_.
     let maximum = cardinality_maximum (spec_cardinality document) in
     bindE (ok_or (InvalidDefinition ''maximum path count overflow'')
              (checked_add (maximum_paths t) maximum)) (\<lambda>paths.
     bindE (if spec_access document = ReadWrite
            then ok_or (InvalidDefinition ''maximum write count overflow'')
                   (checked_add (maximum_writes t) maximum)
            else Inr (maximum_writes t)) (\<lambda>writes.
     Inr \<lparr>slots = bt_insert (spec_name document) document (slots t),
           maximum_paths = paths, maximum_writes = writes\<rparr>)))))))"

definition check_reference ::
    "(string, DocumentSpec) btree \<Rightarrow> DocumentRef \<Rightarrow> bool \<Rightarrow> EngineError + unit" where
  "check_reference table reference writable =
     bindE (ok_or (InvalidDefinition (''reference uses unknown document slot `''
              @ ref_slot reference @ ''`'')) (bt_get table (ref_slot reference))) (\<lambda>spec.
     bindE (ensure (ref_index reference < unat (cardinality_maximum (spec_cardinality spec)))
              (InvalidDefinition (''reference to `'' @ ref_slot reference
                 @ ''` exceeds its declared cardinality''))) (\<lambda>_.
     ensure (\<not> (writable \<and> spec_access spec \<noteq> ReadWrite))
       (InvalidDefinition (''operation writes read-only slot `'' @ ref_slot reference @ ''`''))))"

definition check_pointer_ref ::
    "(string, DocumentSpec) btree \<Rightarrow> JsonPointerRef \<Rightarrow> bool \<Rightarrow> EngineError + unit" where
  "check_pointer_ref table r writable =
     bindE (check_reference table (jp_document r) writable) (\<lambda>_.
     map_err InvalidDefinition (validate_pointer (jp_pointer r)))"

definition validate_value_source ::
    "(string, DocumentSpec) btree \<Rightarrow> ValueSource \<Rightarrow> EngineError + unit" where
  "validate_value_source table source =
     (case source of
        SourceLiteral _ \<Rightarrow> Inr ()
      | SourceInput name \<Rightarrow> validate_input_name name
      | SourceDocument d \<Rightarrow> check_pointer_ref table (dv_value d) False)"

definition validate_assertion :: "(string, DocumentSpec) btree \<Rightarrow> Assertion \<Rightarrow> EngineError + unit" where
  "validate_assertion table assertion =
     (case assertion of
        Exists document \<Rightarrow> check_reference table document False
      | Absent document \<Rightarrow> check_reference table document False
      | JsonEqual actual expected \<Rightarrow>
          bindE (check_pointer_ref table actual False) (\<lambda>_. validate_input_value expected)
      | IntegerCompare actual _ expected numeric_type \<Rightarrow>
          bindE (check_pointer_ref table actual False) (\<lambda>_.
          bindE (validate_input_value expected) (\<lambda>_.
          validate_integer_type numeric_type)))"

definition validate_operation :: "(string, DocumentSpec) btree \<Rightarrow> Operation \<Rightarrow> EngineError + unit" where
  "validate_operation table operation =
     (case operation of
        SetValue target source \<Rightarrow>
          bindE (check_pointer_ref table target True) (\<lambda>_. validate_value_source table source)
      | RemoveValue target \<Rightarrow> check_pointer_ref table target True
      | CheckedIntegerAdd target delta numeric_type \<Rightarrow>
          bindE (check_pointer_ref table target True) (\<lambda>_.
          bindE (validate_input_value delta) (\<lambda>_.
          validate_integer_type numeric_type))
      | CopyValue source target \<Rightarrow>
          bindE (check_pointer_ref table (dv_value source) False) (\<lambda>_.
          check_pointer_ref table target True)
      | ReplaceOpaque document input content_type \<Rightarrow>
          bindE (check_reference table document True) (\<lambda>_.
          bindE (validate_input_name input) (\<lambda>_.
          validate_content_type content_type)))"

definition validate_return ::
    "(string, DocumentSpec) btree \<Rightarrow> string list \<Rightarrow> ReturnDefinition \<Rightarrow> EngineError + string list" where
  "validate_return table names returned =
     bindE (validate_identifier ''return name'' (return_name returned)) (\<lambda>_.
     bindE (ensure (return_name returned \<notin> set names)
              (InvalidDefinition (''duplicate return name `'' @ return_name returned @ ''`''))) (\<lambda>_.
     bindE (check_pointer_ref table (dv_value (return_value returned)) False) (\<lambda>_.
     Inr (bs_insert (return_name returned) names))))"

definition definition_validate :: "ProgramDefinition \<Rightarrow> EngineError + unit" where
  "definition_validate d =
     bindE (ensure (schema_version d = DEFINITION_SCHEMA_VERSION)
              (InvalidDefinition ''schema version is unsupported'')) (\<lambda>_.
     bindE (ensure (\<not> (max_paths (caps d) = 0 \<or> max_input_bytes (caps d) = 0
                      \<or> max_document_bytes (caps d) = 0))
              (InvalidDefinition
                ''max_paths, max_input_bytes, and max_document_bytes must be non-zero'')) (\<lambda>_.
     bindE (ensure (int (length (assertions d) + length (operations d) + length (returns d)) < 2 ^ 64)
              (InvalidDefinition ''instruction count overflow'')) (\<lambda>_.
     bindE (ensure (length (assertions d) + length (operations d) + length (returns d)
                    \<le> unat (max_operations (caps d)))
              (InvalidDefinition ''assertions/operations/returns exceed max_operations'')) (\<lambda>_.
     bindE (foldE add_slot \<lparr>slots = [], maximum_paths = 0, maximum_writes = 0\<rparr> (documents d)) (\<lambda>t.
     bindE (ensure (maximum_paths t \<le> max_paths (caps d))
              (InvalidDefinition ''declared cardinality can resolve too many paths'')) (\<lambda>_.
     bindE (ensure (maximum_writes t \<le> max_writes (caps d))
              (InvalidDefinition ''read-write cardinality can produce too many writes'')) (\<lambda>_.
     bindE (forE (validate_assertion (slots t)) (assertions d)) (\<lambda>_.
     bindE (forE (validate_operation (slots t)) (operations d)) (\<lambda>_.
     bindE (foldE (validate_return (slots t)) [] (returns d)) (\<lambda>_.
     Inr ()))))))))))"

section \<open>Authorization intents\<close>

fun operation_intent :: "DocumentRef \<Rightarrow> ProgramPathIntent \<Rightarrow> Operation \<Rightarrow> ProgramPathIntent" where
  "operation_intent reference intent (SetValue target _) =
     (if jp_document target = reference then intent\<lparr>intent_put := True\<rparr> else intent)"
| "operation_intent reference intent (CheckedIntegerAdd target _ _) =
     (if jp_document target = reference then intent\<lparr>intent_put := True\<rparr> else intent)"
| "operation_intent reference intent (CopyValue _ target) =
     (if jp_document target = reference then intent\<lparr>intent_put := True\<rparr> else intent)"
| "operation_intent reference intent (RemoveValue target) =
     (if jp_document target = reference
      then if jp_pointer target = [] then intent\<lparr>intent_delete := True\<rparr>
           else intent\<lparr>intent_put := True\<rparr>
      else intent)"
| "operation_intent reference intent (ReplaceOpaque document _ _) =
     (if document = reference then intent\<lparr>intent_put := True\<rparr> else intent)"

definition path_intent :: "ProgramDefinition \<Rightarrow> DocumentRef \<Rightarrow> ProgramPathIntent" where
  "path_intent d reference =
     foldl (operation_intent reference)
       \<lparr>intent_get = True,
        intent_put = (case find (\<lambda>document. spec_name document = ref_slot reference) (documents d) of
                        Some document \<Rightarrow> spec_allow_initial_json document | None \<Rightarrow> False),
        intent_delete = False\<rparr>
       (operations d)"

section \<open>Resolution of an invocation\<close>

record ResolvedDocument =
  rd_reference :: DocumentRef
  rd_path :: ObjectPath
  rd_expected_head :: ExpectedHead
  rd_initial_json :: "Value option"

record ResolvedInvocation =
  ri_documents :: "ResolvedDocument list"
  ri_document_paths :: "ObjectPath list"
  ri_by_reference :: "(DocumentRef, nat) btree"
  ri_all_paths :: "ObjectPath list"

definition validate_invocation_identity :: "ProgramInvocation \<Rightarrow> EngineError + unit" where
  "validate_invocation_identity invocation =
     bindE (ensure (program_path_hash invocation \<noteq> 0)
              (InvalidInvocation ''program_path_hash must be non-zero'')) (\<lambda>_.
     bindE (ensure (command_id invocation \<noteq> [] \<and> length (command_id invocation) \<le> 256
                    \<and> CHR 0x00 \<notin> set (command_id invocation) \<and> CHR ''/'' \<notin> set (command_id invocation)
                    \<and> CHR ''{'' \<notin> set (command_id invocation) \<and> CHR ''}'' \<notin> set (command_id invocation))
              (InvalidInvocation
                ''command_id must be a non-empty safe path segment of at most 256 bytes'')) (\<lambda>_.
     ensure (length (input_fingerprint invocation) = 64 \<and>
             list_all (\<lambda>c. is_ascii_digit c \<or> (97 \<le> byte c \<and> byte c \<le> 102)) (input_fingerprint invocation))
       (InvalidInvocation ''input_fingerprint must be lowercase hex for a 32-byte digest'')))"

definition validate_context :: "InvocationContext \<Rightarrow> EngineError + unit" where
  "validate_context context =
     map_err InvalidInvocation (bindE (invocation_context_new context) (\<lambda>_. Inr ()))"

definition ensure_tenant :: "InvocationContext \<Rightarrow> ObjectPath \<Rightarrow> EngineError + unit" where
  "ensure_tenant context path =
     ensure (op_tenant path = context)
       (InvalidInvocation ''expanded object tenant does not match authenticated request context'')"

definition validate_invocation_size ::
    "EngineLib \<Rightarrow> ProgramDefinition \<Rightarrow> ProgramInvocation \<Rightarrow> EngineError + unit" where
  "validate_invocation_size lib d invocation =
     bindE (map_err (\<lambda>e. InvalidInvocation (''cannot encode invocation: '' @ e)) (invocation_len lib invocation))
       (\<lambda>encoded.
     ensure (encoded \<le> unat (max_input_bytes (caps d)))
       (InvalidInvocation ''invocation exceeds max_input_bytes''))"

definition validate_expected_head :: "ExpectedHead \<Rightarrow> EngineError + unit" where
  "validate_expected_head expected =
     ensure (expected \<noteq> HeadVersion [])
       (InvalidInvocation ''expected head version must not be empty'')"

definition invocation_values ::
    "InvocationContext \<Rightarrow> ProgramInvocation \<Rightarrow> EngineError + (string, string) btree" where
  "invocation_values context invocation =
     bindE (ensure (\<not> (bt_contains_key (arguments invocation) ''command_id''
                       \<or> bt_contains_key (arguments invocation) ''tenant''))
              (InvalidInvocation
                ''`tenant` and `command_id` come from request context and are reserved'')) (\<lambda>_.
     Inr (bt_insert ''command_id'' (command_id invocation) (bt_insert ''tenant'' context (arguments invocation))))"

definition binding_values ::
    "ProgramInvocation \<Rightarrow> DocumentSpec \<Rightarrow> string list \<Rightarrow> (string, string) btree \<Rightarrow> PathBinding \<Rightarrow>
       EngineError + (string, string) btree" where
  "binding_values invocation spec path_fields base binding =
     foldE (\<lambda>values (name, v).
       bindE (ensure (\<not> (name \<in> {''command_id'', ''tenant''} \<or> bt_contains_key (arguments invocation) name))
                (InvalidInvocation (''binding value `'' @ name
                   @ ''` collides with an invocation argument''))) (\<lambda>_.
       bindE (ensure (name \<in> set path_fields)
                (InvalidInvocation (''binding value `'' @ name @ ''` is not used by slot `''
                   @ spec_name spec @ ''`''))) (\<lambda>_.
       Inr (bt_insert name v values)))) base (template_values binding)"

record ResolveState =
  rs_documents :: "ResolvedDocument list"
  rs_document_paths :: "ObjectPath list"
  rs_by_reference :: "(DocumentRef, nat) btree"
  rs_unique_paths :: "ObjectPath list"

definition resolve_binding ::
    "InvocationContext \<Rightarrow> ProgramInvocation \<Rightarrow> DocumentSpec \<Rightarrow> string list \<Rightarrow> (string, string) btree \<Rightarrow>
       ResolveState \<Rightarrow> nat \<times> PathBinding \<Rightarrow> EngineError + ResolveState" where
  "resolve_binding context invocation spec path_fields base s entry =
     (let (index, binding) = entry in
      bindE (binding_values invocation spec path_fields base binding) (\<lambda>values.
      bindE (map_err InvalidInvocation (path_template_expand (spec_path spec) values)) (\<lambda>expanded.
      bindE (ensure_tenant context expanded) (\<lambda>_.
      bindE (ensure (expanded = binding_path binding)
               (InvalidInvocation (''path for slot `'' @ spec_name spec
                  @ ''` does not match its program template''))) (\<lambda>_.
      bindE (ensure (\<not> (initial_json binding \<noteq> None
                        \<and> (\<not> spec_allow_initial_json spec \<or> spec_access spec \<noteq> ReadWrite)))
               (InvalidInvocation (''slot `'' @ spec_name spec
                  @ ''` does not permit an initial JSON value''))) (\<lambda>_.
      bindE (validate_expected_head (expected_head binding)) (\<lambda>_.
      bindE (ensure (expanded \<notin> set (rs_unique_paths s))
               (InvalidInvocation ''object path is bound more than once'')) (\<lambda>_.
      let reference = DocumentRef (spec_name spec) index in
      Inr \<lparr>rs_documents = rs_documents s @
              [\<lparr>rd_reference = reference, rd_path = expanded,
                rd_expected_head = expected_head binding, rd_initial_json = initial_json binding\<rparr>],
            rs_document_paths = rs_document_paths s @ [expanded],
            rs_by_reference = bt_insert reference (length (rs_documents s)) (rs_by_reference s),
            rs_unique_paths = bs_insert expanded (rs_unique_paths s)\<rparr>))))))))"

definition spec_bindings :: "ProgramInvocation \<Rightarrow> DocumentSpec \<Rightarrow> PathBinding list" where
  "spec_bindings invocation spec = (case bt_get (bindings invocation) (spec_name spec) of Some bs \<Rightarrow> bs | None \<Rightarrow> [])"

definition spec_fields :: "DocumentSpec \<Rightarrow> EngineError + string list" where
  "spec_fields spec =
     bindE (map_err InvalidInvocation (placeholders (pt_tenant (spec_path spec)))) (\<lambda>a.
     bindE (map_err InvalidInvocation (placeholders (pt_bucket (spec_path spec)))) (\<lambda>b.
     bindE (map_err InvalidInvocation (placeholders (pt_path (spec_path spec)))) (\<lambda>c.
     Inr (fold bs_insert c (fold bs_insert b a)))))"

definition resolve_spec ::
    "InvocationContext \<Rightarrow> ProgramInvocation \<Rightarrow> (string, string) btree \<Rightarrow> ResolveState \<Rightarrow> DocumentSpec \<Rightarrow>
       EngineError + ResolveState" where
  "resolve_spec context invocation base s spec =
     (let bs = spec_bindings invocation spec in
      bindE (ensure (cardinality_accepts (spec_cardinality spec) (length bs))
               (InvalidInvocation (''slot `'' @ spec_name spec
                  @ ''` received a number of paths outside its cardinality''))) (\<lambda>_.
      bindE (spec_fields spec) (\<lambda>path_fields.
      foldE (resolve_binding context invocation spec path_fields base) s (enumerate 0 bs))))"

definition resolve_invocation ::
    "EngineLib \<Rightarrow> ProgramDefinition \<Rightarrow> InvocationContext \<Rightarrow> ProgramInvocation \<Rightarrow>
       EngineError + ResolvedInvocation" where
  "resolve_invocation lib d context invocation =
     bindE (validate_invocation_identity invocation) (\<lambda>_.
     bindE (validate_invocation_size lib d invocation) (\<lambda>_.
     bindE (validate_context context) (\<lambda>_.
     bindE (invocation_values context invocation) (\<lambda>base.
     bindE (ensure (\<forall>slot \<in> set (map fst (bindings invocation)). slot \<in> set (map spec_name (documents d)))
              (InvalidInvocation ''binding supplied for unknown document slot'')) (\<lambda>_.
     bindE (foldE (resolve_spec context invocation base)
              \<lparr>rs_documents = [], rs_document_paths = [], rs_by_reference = [], rs_unique_paths = []\<rparr>
              (documents d)) (\<lambda>s.
     bindE (ensure (length (rs_unique_paths s) \<le> unat (max_paths (caps d)))
              (InvalidInvocation ''resolved paths exceed max_paths'')) (\<lambda>_.
     Inr \<lparr>ri_documents = rs_documents s, ri_document_paths = sort (rs_document_paths s),
           ri_by_reference = rs_by_reference s, ri_all_paths = rs_unique_paths s\<rparr>)))))))"

definition expanded_paths ::
    "EngineLib \<Rightarrow> ProgramDefinition \<Rightarrow> InvocationContext \<Rightarrow> ProgramInvocation \<Rightarrow>
       EngineError + ExpandedProgramPath list" where
  "expanded_paths lib d context invocation =
     bindE (resolve_invocation lib d context invocation) (\<lambda>resolved.
     Inr (sort_key ep_path
       (map (\<lambda>document. \<lparr>ep_path = rd_path document, ep_intent = path_intent d (rd_reference document)\<rparr>)
          (ri_documents resolved))))"

definition canonicalize_document ::
    "(ObjectPath, ObjectPath) btree \<Rightarrow> ResolvedDocument list \<times> ObjectPath list \<Rightarrow> ResolvedDocument \<Rightarrow>
       EngineError + ResolvedDocument list \<times> ObjectPath list" where
  "canonicalize_document canonical_paths acc document =
     (let (done_documents, unique) = acc;
          path = (case bt_get canonical_paths (rd_path document) of
                    Some canonical \<Rightarrow> canonical | None \<Rightarrow> rd_path document) in
      bindE (ensure (path \<notin> set unique)
               (InvalidInvocation ''object path is bound more than once after canonical resolution''))
        (\<lambda>_.
      Inr (done_documents @ [document\<lparr>rd_path := path\<rparr>], bs_insert path unique)))"

definition canonicalize_resolved_paths ::
    "ResolvedInvocation \<Rightarrow> (ObjectPath, ObjectPath) btree \<Rightarrow> EngineError + ResolvedInvocation" where
  "canonicalize_resolved_paths resolved canonical_paths =
     bindE (ensure (\<forall>logical \<in> set (map fst canonical_paths). logical \<in> set (ri_document_paths resolved))
              (InvalidInvocation ''canonical path map names an unresolved logical object'')) (\<lambda>_.
     bindE (foldE (canonicalize_document canonical_paths) ([], []) (ri_documents resolved))
       (\<lambda>(docs, unique).
     Inr (resolved\<lparr>ri_documents := docs, ri_document_paths := unique, ri_all_paths := unique\<rparr>)))"

section \<open>Evaluation\<close>

record WorkingDocument =
  wd_reference :: DocumentRef
  wd_path :: ObjectPath
  observed :: ObservedHead
  before :: "StoredValue option"
  current :: "StoredValue option"
  current_content_type :: "string option"
  dirty :: bool

definition working_new :: "ResolvedDocument \<Rightarrow> VersionedDocument option \<Rightarrow> WorkingDocument" where
  "working_new resolved stored =
     (let observed_head = (case stored of None \<Rightarrow> NeverExisted
                           | Some document \<Rightarrow> ObservedVersion (vd_version document));
          old = Option.bind stored vd_value;
          (now, now_content_type, is_dirty) =
            (case old of
               Some v \<Rightarrow> (Some v, Option.bind stored vd_content_type, False)
             | None \<Rightarrow>
                 (case rd_initial_json resolved of
                    Some v \<Rightarrow> (Some (Json v), Some ''application/json'', True)
                  | None \<Rightarrow> (None, None, False))) in
      \<lparr>wd_reference = rd_reference resolved, wd_path = rd_path resolved, observed = observed_head,
       before = old, current = now, current_content_type = now_content_type, dirty = is_dirty\<rparr>)"

definition validate_snapshot :: "ResolvedInvocation \<Rightarrow> ProgramSnapshot \<Rightarrow> EngineError + unit" where
  "validate_snapshot resolved snapshot =
     bindE (ensure (list_all (\<lambda>(path, _). path \<in> set (ri_document_paths resolved)) snapshot)
              (InvalidSnapshot ''unrequested document was returned'')) (\<lambda>_.
     bindE (ensure (list_all (\<lambda>(_, document). vd_version document \<noteq> []) snapshot)
              (InvalidSnapshot ''document has an empty version'')) (\<lambda>_.
     ensure (list_all (\<lambda>(_, document).
               (vd_value document = None) = (vd_content_type document = None)) snapshot)
       (InvalidSnapshot
         ''document must pair a live value with content type or a tombstone with neither'')))"

definition check_expected_head ::
    "ObjectPath \<Rightarrow> ExpectedHead \<Rightarrow> VersionedDocument option \<Rightarrow> EngineError + unit" where
  "check_expected_head path expected stored =
     (case (expected, stored) of
        (HeadAny, _) \<Rightarrow> Inr ()
      | (HeadAbsent, None) \<Rightarrow> Inr ()
      | (HeadAbsent, Some document) \<Rightarrow>
          ensure (vd_value document = None)
            (HeadPrecondition path (''expected absent, found version '' @ vd_version document))
      | (HeadVersion version, None) \<Rightarrow>
          Inl (HeadPrecondition path (''expected version '' @ version @ '', found absent''))
      | (HeadVersion version, Some document) \<Rightarrow>
          ensure (version = vd_version document)
            (HeadPrecondition path (''expected version '' @ version @ '', found version ''
               @ vd_version document)))"

definition working_index :: "DocumentRef \<Rightarrow> ResolvedInvocation \<Rightarrow> string + nat" where
  "working_index reference resolved =
     ok_or ''document reference was not bound'' (bt_get (ri_by_reference resolved) reference)"

definition working_document ::
    "DocumentRef \<Rightarrow> ResolvedInvocation \<Rightarrow> WorkingDocument list \<Rightarrow> string + WorkingDocument" where
  "working_document reference resolved working =
     bindE (working_index reference resolved) (\<lambda>index. Inr (working ! index))"

text \<open>A mutable borrow of one working document: the document is replaced by what the body makes of it.\<close>

definition working_document_mut ::
    "DocumentRef \<Rightarrow> ResolvedInvocation \<Rightarrow> WorkingDocument list \<Rightarrow>
       (WorkingDocument \<Rightarrow> string + WorkingDocument) \<Rightarrow> string + WorkingDocument list" where
  "working_document_mut reference resolved working body =
     bindE (working_index reference resolved) (\<lambda>index.
     bindE (body (working ! index)) (\<lambda>document.
     Inr (working[index := document])))"

definition json_from_stored :: "JsonLib \<Rightarrow> StoredValue option \<Rightarrow> string \<Rightarrow> string + Value" where
  "json_from_stored lib v pointer =
     (case v of
        Some (Json doc) \<Rightarrow> json_select lib doc pointer
      | Some (OpaqueBytes _) \<Rightarrow> Inl ''document contains opaque bytes, not JSON''
      | None \<Rightarrow> Inl ''document is absent'')"

definition document_json_value ::
    "JsonLib \<Rightarrow> DocumentValueRef \<Rightarrow> ResolvedInvocation \<Rightarrow> WorkingDocument list \<Rightarrow> string + Value" where
  "document_json_value lib source resolved working =
     bindE (working_document (jp_document (dv_value source)) resolved working) (\<lambda>document.
     json_from_stored lib
       (case dv_view source of Before \<Rightarrow> before document | Current \<Rightarrow> current document)
       (jp_pointer (dv_value source)))"

definition named_input :: "string \<Rightarrow> ProgramInvocation \<Rightarrow> string + Value" where
  "named_input name invocation =
     ok_or (''JSON input `'' @ name @ ''` is missing'') (bt_get (inputs invocation) name)"

definition input_value :: "InputValue \<Rightarrow> ProgramInvocation \<Rightarrow> string + Value" where
  "input_value source invocation =
     (case source of InputLiteral v \<Rightarrow> Inr v | InputNamed name \<Rightarrow> named_input name invocation)"

definition value_source ::
    "JsonLib \<Rightarrow> ValueSource \<Rightarrow> ProgramInvocation \<Rightarrow> ResolvedInvocation \<Rightarrow> WorkingDocument list \<Rightarrow>
       string + Value" where
  "value_source lib source invocation resolved working =
     (case source of
        SourceLiteral v \<Rightarrow> Inr v
      | SourceInput name \<Rightarrow> named_input name invocation
      | SourceDocument d \<Rightarrow> document_json_value lib d resolved working)"

definition current_json_mut :: "WorkingDocument \<Rightarrow> string + Value" where
  "current_json_mut document =
     (case current document of
        Some (Json v) \<Rightarrow> Inr v
      | Some (OpaqueBytes _) \<Rightarrow> Inl ''document contains opaque bytes, not JSON''
      | None \<Rightarrow> Inl ''document is absent'')"

subsection \<open>Integers\<close>

definition exact_i64 :: "Value \<Rightarrow> string + int" where
  "exact_i64 v = ok_or ''value must be an exact JSON i64 integer'' (as_i64 v)"

definition check_i64_bounds :: "int \<Rightarrow> int option \<Rightarrow> int option \<Rightarrow> string + unit" where
  "check_i64_bounds v lo hi =
     ensure (\<not> ((case lo of Some m \<Rightarrow> v < m | None \<Rightarrow> False)
               \<or> (case hi of Some m \<Rightarrow> v > m | None \<Rightarrow> False)))
       ''i64 value is outside configured bounds''"

definition checked_i64 :: "Value \<Rightarrow> int option \<Rightarrow> int option \<Rightarrow> string + int" where
  "checked_i64 v lo hi =
     bindE (exact_i64 v) (\<lambda>i. bindE (check_i64_bounds i lo hi) (\<lambda>_. Inr i))"

definition check_u64_bounds :: "u64 \<Rightarrow> u64 option \<Rightarrow> u64 option \<Rightarrow> string + unit" where
  "check_u64_bounds v lo hi =
     ensure (\<not> ((case lo of Some m \<Rightarrow> v < m | None \<Rightarrow> False)
               \<or> (case hi of Some m \<Rightarrow> v > m | None \<Rightarrow> False)))
       ''u64 value is outside configured bounds''"

definition checked_u64 :: "Value \<Rightarrow> u64 option \<Rightarrow> u64 option \<Rightarrow> string + u64" where
  "checked_u64 v lo hi =
     bindE (ok_or ''value must be an exact JSON u64 integer'' (as_u64 v)) (\<lambda>i.
     bindE (check_u64_bounds i lo hi) (\<lambda>_. Inr i))"

text \<open>\<^verbatim>\<open>i64::checked_add\<close>.\<close>

definition i64_checked_add :: "int \<Rightarrow> int \<Rightarrow> int option" where
  "i64_checked_add a b = (if - (2 ^ 63) \<le> a + b \<and> a + b < 2 ^ 63 then Some (a + b) else None)"

definition add_u64_delta :: "u64 \<Rightarrow> Value \<Rightarrow> string + u64" where
  "add_u64_delta now delta =
     (case as_i64 delta of
        Some delta_i64 \<Rightarrow>
          if delta_i64 < 0
          then ok_or ''u64 subtraction underflowed'' (checked_sub now (word_of_int (- delta_i64)))
          else ok_or ''u64 addition overflowed'' (checked_add now (word_of_int delta_i64))
      | None \<Rightarrow>
          bindE (ok_or ''u64 delta must be an exact JSON integer'' (as_u64 delta)) (\<lambda>delta_u64.
          ok_or ''u64 addition overflowed'' (checked_add now delta_u64)))"

definition compare_ord :: "'a::linorder \<Rightarrow> 'a \<Rightarrow> Comparison \<Rightarrow> bool" where
  "compare_ord actual expected comparison =
     (case comparison of
        CmpEq \<Rightarrow> actual = expected | CmpNe \<Rightarrow> actual \<noteq> expected
      | CmpLt \<Rightarrow> actual < expected | CmpLe \<Rightarrow> actual \<le> expected
      | CmpGt \<Rightarrow> actual > expected | CmpGe \<Rightarrow> actual \<ge> expected)"

subsection \<open>Assertions and operations\<close>

definition evaluate_assertion ::
    "JsonLib \<Rightarrow> ProgramInvocation \<Rightarrow> ResolvedInvocation \<Rightarrow> WorkingDocument list \<Rightarrow> Assertion \<Rightarrow>
       string + unit" where
  "evaluate_assertion lib invocation resolved working assertion =
     (case assertion of
        Exists reference \<Rightarrow>
          bindE (working_document reference resolved working) (\<lambda>document.
          ensure (before document \<noteq> None) ''document is absent'')
      | Absent reference \<Rightarrow>
          bindE (working_document reference resolved working) (\<lambda>document.
          ensure (before document = None) ''document exists'')
      | JsonEqual actual expected \<Rightarrow>
          bindE (working_document (jp_document actual) resolved working) (\<lambda>document.
          bindE (json_from_stored lib (before document) (jp_pointer actual)) (\<lambda>found.
          bindE (input_value expected invocation) (\<lambda>wanted.
          ensure (json_eq found wanted) ''JSON values are not equal'')))
      | IntegerCompare actual comparison expected numeric_type \<Rightarrow>
          bindE (working_document (jp_document actual) resolved working) (\<lambda>document.
          bindE (json_from_stored lib (before document) (jp_pointer actual)) (\<lambda>found.
          bindE (input_value expected invocation) (\<lambda>wanted.
          bindE (case numeric_type of
                   I64 lo hi \<Rightarrow>
                     bindE (checked_i64 found lo hi) (\<lambda>a.
                     bindE (checked_i64 wanted lo hi) (\<lambda>b. Inr (compare_ord a b comparison)))
                 | U64 lo hi \<Rightarrow>
                     bindE (checked_u64 found lo hi) (\<lambda>a.
                     bindE (checked_u64 wanted lo hi) (\<lambda>b. Inr (compare_ord a b comparison))))
            (\<lambda>holds. ensure holds ''integer comparison is false'')))))"

definition set_document_json ::
    "JsonPointerRef \<Rightarrow> Value \<Rightarrow> ResolvedInvocation \<Rightarrow> WorkingDocument list \<Rightarrow>
       string + WorkingDocument list" where
  "set_document_json target replacement resolved working =
     working_document_mut (jp_document target) resolved working (\<lambda>document.
       if jp_pointer target = []
       then Inr (document\<lparr>current := Some (Json replacement),
                          current_content_type := Some ''application/json'', dirty := True\<rparr>)
       else bindE (current_json_mut document) (\<lambda>v.
            bindE (json_set v (jp_pointer target) replacement) (\<lambda>v'.
            Inr (document\<lparr>current := Some (Json v'), dirty := True\<rparr>))))"

definition remove_document_json ::
    "JsonPointerRef \<Rightarrow> ResolvedInvocation \<Rightarrow> WorkingDocument list \<Rightarrow> string + WorkingDocument list" where
  "remove_document_json target resolved working =
     working_document_mut (jp_document target) resolved working (\<lambda>document.
       if jp_pointer target = []
       then Inr (document\<lparr>current := None, current_content_type := None, dirty := True\<rparr>)
       else bindE (current_json_mut document) (\<lambda>v.
            bindE (json_remove v (jp_pointer target)) (\<lambda>v'.
            Inr (document\<lparr>current := Some (Json v'), dirty := True\<rparr>))))"

definition integer_sum :: "IntegerType \<Rightarrow> Value \<Rightarrow> Value \<Rightarrow> string + Value" where
  "integer_sum numeric_type now delta =
     (case numeric_type of
        I64 lo hi \<Rightarrow>
          bindE (checked_i64 now lo hi) (\<lambda>a.
          bindE (exact_i64 delta) (\<lambda>b.
          bindE (ok_or ''i64 addition overflowed'' (i64_checked_add a b)) (\<lambda>result.
          bindE (check_i64_bounds result lo hi) (\<lambda>_.
          Inr (Number (Integer result))))))
      | U64 lo hi \<Rightarrow>
          bindE (checked_u64 now lo hi) (\<lambda>a.
          bindE (add_u64_delta a delta) (\<lambda>result.
          bindE (check_u64_bounds result lo hi) (\<lambda>_.
          Inr (Number (Integer (uint result)))))))"

definition add_document_json ::
    "JsonLib \<Rightarrow> JsonPointerRef \<Rightarrow> Value \<Rightarrow> IntegerType \<Rightarrow> ResolvedInvocation \<Rightarrow> WorkingDocument list \<Rightarrow>
       string + WorkingDocument list" where
  "add_document_json lib target delta numeric_type resolved working =
     working_document_mut (jp_document target) resolved working (\<lambda>document.
       bindE (current_json_mut document) (\<lambda>v.
       bindE (json_select lib v (jp_pointer target)) (\<lambda>now.
       bindE (integer_sum numeric_type now delta) (\<lambda>replacement.
       bindE (json_set v (jp_pointer target) replacement) (\<lambda>v'.
       Inr (document\<lparr>current := Some (Json v'), dirty := True\<rparr>))))))"

definition evaluate_operation ::
    "JsonLib \<Rightarrow> ProgramInvocation \<Rightarrow> ResolvedInvocation \<Rightarrow> WorkingDocument list \<Rightarrow> Operation \<Rightarrow>
       string + WorkingDocument list" where
  "evaluate_operation lib invocation resolved working operation =
     (case operation of
        SetValue target source \<Rightarrow>
          bindE (value_source lib source invocation resolved working) (\<lambda>v.
          set_document_json target v resolved working)
      | RemoveValue target \<Rightarrow> remove_document_json target resolved working
      | CheckedIntegerAdd target delta numeric_type \<Rightarrow>
          bindE (input_value delta invocation) (\<lambda>d.
          add_document_json lib target d numeric_type resolved working)
      | CopyValue source target \<Rightarrow>
          bindE (document_json_value lib source resolved working) (\<lambda>v.
          set_document_json target v resolved working)
      | ReplaceOpaque reference input content_type \<Rightarrow>
          bindE (ok_or (''opaque input `'' @ input @ ''` is missing'') (bt_get (blobs invocation) input))
            (\<lambda>bytes.
          working_document_mut reference resolved working (\<lambda>document.
            Inr (document\<lparr>current := Some (OpaqueBytes bytes),
                          current_content_type := Some content_type, dirty := True\<rparr>))))"

subsection \<open>The whole program\<close>

definition stored_value_size :: "JsonLib \<Rightarrow> StoredValue \<Rightarrow> EngineError + nat" where
  "stored_value_size lib v =
     (case v of
        Json doc \<Rightarrow> map_err LimitExceeded (value_len lib doc)
      | OpaqueBytes bytes \<Rightarrow> Inr (length bytes))"

definition check_document_limits ::
    "JsonLib \<Rightarrow> ProgramCaps \<Rightarrow> WorkingDocument list \<Rightarrow> EngineError + unit" where
  "check_document_limits lib c working =
     forE (\<lambda>document.
       forE (\<lambda>v.
         bindE (stored_value_size lib v) (\<lambda>n.
         ensure (n \<le> unat (max_document_bytes c))
           (LimitExceeded ''document exceeds max_document_bytes'')))
         (List.map_filter id [before document, current document])) working"

definition start_document ::
    "ProgramSnapshot \<Rightarrow> ResolvedDocument \<Rightarrow> EngineError + WorkingDocument" where
  "start_document snapshot document =
     (let stored = bt_get snapshot (rd_path document) in
      bindE (check_expected_head (rd_path document) (rd_expected_head document) stored) (\<lambda>_.
      Inr (working_new document stored)))"

definition run_assertions ::
    "JsonLib \<Rightarrow> ProgramDefinition \<Rightarrow> ProgramInvocation \<Rightarrow> ResolvedInvocation \<Rightarrow> WorkingDocument list \<Rightarrow>
       EngineError + unit" where
  "run_assertions lib d invocation resolved working =
     forE (\<lambda>(index, assertion).
       map_err (AssertionFailed index) (evaluate_assertion lib invocation resolved working assertion))
       (enumerate 0 (assertions d))"

definition run_operations ::
    "JsonLib \<Rightarrow> ProgramDefinition \<Rightarrow> ProgramInvocation \<Rightarrow> ResolvedInvocation \<Rightarrow> WorkingDocument list \<Rightarrow>
       EngineError + WorkingDocument list" where
  "run_operations lib d invocation resolved working =
     foldE (\<lambda>w (index, operation).
       map_err (OperationFailed index) (evaluate_operation lib invocation resolved w operation))
       working (enumerate 0 (operations d))"

definition run_returns ::
    "JsonLib \<Rightarrow> ProgramDefinition \<Rightarrow> ResolvedInvocation \<Rightarrow> WorkingDocument list \<Rightarrow>
       EngineError + (string, Value) btree" where
  "run_returns lib d resolved working =
     foldE (\<lambda>outputs returned.
       bindE (map_err (ReturnFailed (return_name returned))
                (document_json_value lib (return_value returned) resolved working)) (\<lambda>v.
       Inr (bt_insert (return_name returned) v outputs))) [] (returns d)"

definition participant_of :: "WorkingDocument \<Rightarrow> AtomicParticipant" where
  "participant_of document =
     \<lparr>part_path = wd_path document, part_expected = observed document,
      part_write = (if dirty document
                    then Some \<lparr>vw_value = current document,
                               vw_content_type = current_content_type document\<rparr>
                    else None)\<rparr>"

definition evaluate ::
    "JsonLib \<Rightarrow> ProgramDefinition \<Rightarrow> ProgramInvocation \<Rightarrow> ResolvedInvocation \<Rightarrow> ProgramSnapshot \<Rightarrow>
       EngineError + AtomicWriteBundle" where
  "evaluate lib d invocation resolved snapshot =
     bindE (validate_snapshot resolved snapshot) (\<lambda>_.
     bindE (mapE (start_document snapshot) (ri_documents resolved)) (\<lambda>start.
     bindE (check_document_limits lib (caps d) start) (\<lambda>_.
     bindE (run_assertions lib d invocation resolved start) (\<lambda>_.
     bindE (run_operations lib d invocation resolved start) (\<lambda>working.
     bindE (check_document_limits lib (caps d) working) (\<lambda>_.
     bindE (ensure (length (filter dirty working) \<le> unat (max_writes (caps d)))
              (InvalidDefinition ''program produced too many writes'')) (\<lambda>_.
     bindE (run_returns lib d resolved working) (\<lambda>outputs.
     Inr \<lparr>participants = sort_key part_path (map participant_of working),
           receipt = \<lparr>cr_program_path_hash = program_path_hash invocation,
                      cr_command_id = command_id invocation,
                      cr_input_fingerprint = input_fingerprint invocation,
                      cr_outputs = outputs\<rparr>\<rparr>))))))))"

text \<open>
  The state an engine is made from is a definition that validated. \<open>prepare_canonicalized\<close>
  returns the bundle together with the paths its local locks cover.
\<close>

definition engine_new :: "ProgramDefinition \<Rightarrow> EngineError + ProgramDefinition" where
  "engine_new d = bindE (definition_validate d) (\<lambda>_. Inr d)"

definition prepare_canonicalized ::
    "EngineLib \<Rightarrow> (ObjectPath list \<Rightarrow> string + ProgramSnapshot) \<Rightarrow> ProgramDefinition \<Rightarrow>
       InvocationContext \<Rightarrow> ProgramInvocation \<Rightarrow> (ObjectPath, ObjectPath) btree \<Rightarrow>
       EngineError + AtomicWriteBundle \<times> ObjectPath list" where
  "prepare_canonicalized lib reader d context invocation canonical_paths =
     bindE (resolve_invocation lib d context invocation) (\<lambda>logical.
     bindE (canonicalize_resolved_paths logical canonical_paths) (\<lambda>resolved.
     let locks = bs_of_list (ri_all_paths resolved) in
     bindE (map_err ReadFailed (reader (ri_document_paths resolved))) (\<lambda>snapshot.
     bindE (evaluate (json_lib lib) d invocation resolved snapshot) (\<lambda>bundle.
     Inr (bundle, locks)))))"

definition prepare ::
    "EngineLib \<Rightarrow> (ObjectPath list \<Rightarrow> string + ProgramSnapshot) \<Rightarrow> ProgramDefinition \<Rightarrow>
       InvocationContext \<Rightarrow> ProgramInvocation \<Rightarrow> EngineError + AtomicWriteBundle \<times> ObjectPath list" where
  "prepare lib reader d context invocation =
     prepare_canonicalized lib reader d context invocation []"

end
