(* ===== verification/Program_Safety.thy ===== *)
theory Program_Safety
  imports Program_Engine
begin

text \<open>
  What the engine of atomic programs promises: a validated definition can only be refused at run
  time for its invocation or its data; every reference is in range; the bundle names exactly the
  locked and read paths, with the heads that were read; and every write is one the expanded paths
  announced to the authorization check.
\<close>

section \<open>Loops with their history\<close>

lemma foldE_history:
  assumes "foldE f s xs = Inr t" "P [] s"
    "\<And>ys x u v. P ys u \<Longrightarrow> x \<in> set xs \<Longrightarrow> f u x = Inr v \<Longrightarrow> P (ys @ [x]) v"
  shows "P xs t"
  using assms
proof (induction xs arbitrary: t rule: rev_induct)
  case Nil
  then show ?case by simp
next
  case (snoc x xs)
  from snoc.prems(1) obtain u where u: "foldE f s xs = Inr u" "f u x = Inr t"
    by (auto simp: foldE_append)
  have "P xs u"
    by (rule snoc.IH [OF u(1) snoc.prems(2)]) (rule snoc.prems(3), auto)
  then show ?case using snoc.prems(3) [of xs u x t] u(2) by simp
qed

section \<open>The slot table of a validated definition\<close>

definition spec_maximum :: "DocumentSpec \<Rightarrow> nat" where
  "spec_maximum spec = unat (cardinality_maximum (spec_cardinality spec))"

definition writable_specs :: "DocumentSpec list \<Rightarrow> DocumentSpec list" where
  "writable_specs specs = filter (\<lambda>spec. spec_access spec = ReadWrite) specs"

definition slots_ok :: "DocumentSpec list \<Rightarrow> SlotTable \<Rightarrow> bool" where
  "slots_ok specs t \<longleftrightarrow>
     distinct (map spec_name specs) \<and>
     (\<forall>name spec. bt_get (slots t) name = Some spec \<longleftrightarrow> spec \<in> set specs \<and> spec_name spec = name) \<and>
     unat (maximum_paths t) = sum_list (map spec_maximum specs) \<and>
     unat (maximum_writes t) = sum_list (map spec_maximum (writable_specs specs)) \<and>
     (\<forall>spec \<in> set specs. spec_allow_initial_json spec \<longrightarrow> spec_access spec = ReadWrite)"

lemma add_slot_ok: "slots_ok specs t \<Longrightarrow> add_slot t spec = Inr t' \<Longrightarrow> slots_ok (specs @ [spec]) t'"
  unfolding add_slot_def Let_def slots_ok_def
  by (auto simp: bt_get_insert writable_specs_def spec_maximum_def dest!: checked_add_SomeD
      split: if_splits)

lemma slots_ok_start: "slots_ok [] \<lparr>slots = [], maximum_paths = 0, maximum_writes = 0\<rparr>"
  by (simp add: slots_ok_def writable_specs_def)

lemma foldE_add_slot:
  "foldE add_slot \<lparr>slots = [], maximum_paths = 0, maximum_writes = 0\<rparr> specs = Inr t \<Longrightarrow> slots_ok specs t"
  by (erule foldE_history [where P = slots_ok]) (auto intro: slots_ok_start add_slot_ok)

lemma definition_validate_slots:
  assumes "definition_validate d = Inr ()"
  obtains t where "slots_ok (documents d) t"
    "maximum_paths t \<le> max_paths (caps d)" "maximum_writes t \<le> max_writes (caps d)"
    "\<And>a. a \<in> set (assertions d) \<Longrightarrow> validate_assertion (slots t) a = Inr ()"
    "\<And>a. a \<in> set (operations d) \<Longrightarrow> validate_operation (slots t) a = Inr ()"
  using assms unfolding definition_validate_def by (auto dest!: foldE_add_slot)

section \<open>Resolution\<close>

definition document_ok :: "InvocationContext \<Rightarrow> DocumentSpec list \<Rightarrow> ResolvedDocument \<Rightarrow> bool" where
  "document_ok context specs r \<longleftrightarrow>
     op_tenant (rd_path r) = context \<and>
     (\<exists>spec \<in> set specs. spec_name spec = ref_slot (rd_reference r) \<and>
        (rd_initial_json r \<noteq> None \<longrightarrow> spec_allow_initial_json spec \<and> spec_access spec = ReadWrite))"

definition paths_ok :: "InvocationContext \<Rightarrow> DocumentSpec list \<Rightarrow> ResolveState \<Rightarrow> bool" where
  "paths_ok context specs s \<longleftrightarrow>
     rs_document_paths s = map rd_path (rs_documents s) \<and>
     distinct (rs_document_paths s) \<and>
     sorted_wrt (<) (rs_unique_paths s) \<and> set (rs_unique_paths s) = set (rs_document_paths s) \<and>
     (\<forall>r \<in> set (rs_documents s). document_ok context specs r)"

definition index_ok :: "ResolvedDocument list \<Rightarrow> (DocumentRef, nat) btree \<Rightarrow> bool" where
  "index_ok docs table \<longleftrightarrow>
     (\<forall>reference i. bt_get table reference = Some i \<longrightarrow>
        i < length docs \<and> rd_reference (docs ! i) = reference)"

lemma resolve_binding_eq:
  "resolve_binding context invocation spec used base s (i, binding) = Inr s' \<Longrightarrow>
   \<exists>r. rd_reference r = DocumentRef (spec_name spec) i \<and> op_tenant (rd_path r) = context
     \<and> rd_path r = binding_path binding
     \<and> rd_path r \<notin> set (rs_unique_paths s)
     \<and> (rd_initial_json r \<noteq> None \<longrightarrow> spec_allow_initial_json spec \<and> spec_access spec = ReadWrite)
     \<and> s' = \<lparr>rs_documents = rs_documents s @ [r], rs_document_paths = rs_document_paths s @ [rd_path r],
         rs_by_reference = bt_insert (rd_reference r) (length (rs_documents s)) (rs_by_reference s),
         rs_unique_paths = bs_insert (rd_path r) (rs_unique_paths s)\<rparr>"
  unfolding resolve_binding_def ensure_tenant_def Let_def
  by (auto intro!: exI [where x = "\<lparr>rd_reference = DocumentRef (spec_name spec) i,
      rd_path = binding_path binding, rd_expected_head = expected_head binding,
      rd_initial_json = initial_json binding\<rparr>"])

lemma resolve_binding_paths:
  assumes "paths_ok context specs s" "spec \<in> set specs"
    "resolve_binding context invocation spec used base s e = Inr s'"
  shows "paths_ok context specs s'"
proof -
  obtain i binding where e: "e = (i, binding)" by (cases e)
  from resolve_binding_eq [OF assms(3) [unfolded e]] obtain r where
    r: "rd_reference r = DocumentRef (spec_name spec) i" "op_tenant (rd_path r) = context"
    "rd_path r \<notin> set (rs_unique_paths s)"
    "rd_initial_json r \<noteq> None \<longrightarrow> spec_allow_initial_json spec \<and> spec_access spec = ReadWrite"
    "rs_documents s' = rs_documents s @ [r]" "rs_document_paths s' = rs_document_paths s @ [rd_path r]"
    "rs_unique_paths s' = bs_insert (rd_path r) (rs_unique_paths s)" by auto
  have "document_ok context specs r"
    using r(1,2,4) assms(2) unfolding document_ok_def by (intro conjI bexI [of _ spec]) simp_all
  then show ?thesis using assms(1) r(3,5-7) unfolding paths_ok_def by (auto simp: bs_insert_sorted)
qed

lemma index_ok_snoc:
  "index_ok docs table \<Longrightarrow> index_ok (docs @ [r]) (bt_insert (rd_reference r) (length docs) table)"
  by (auto simp: index_ok_def bt_get_insert nth_append less_Suc_eq split: if_splits)

lemma resolve_binding_index:
  assumes "index_ok (rs_documents s) (rs_by_reference s)"
    "resolve_binding context invocation spec used base s e = Inr s'"
  shows "index_ok (rs_documents s') (rs_by_reference s')"
proof -
  obtain i binding where e: "e = (i, binding)" by (cases e)
  from resolve_binding_eq [OF assms(2) [unfolded e]] obtain r where
    "rs_documents s' = rs_documents s @ [r]"
    "rs_by_reference s' = bt_insert (rd_reference r) (length (rs_documents s)) (rs_by_reference s)"
    by auto
  then show ?thesis using index_ok_snoc [OF assms(1), of r] by simp
qed

lemma resolve_spec_keeps:
  assumes "resolve_spec context invocation base s spec = Inr s'" "P s"
    "\<And>used e u v. P u \<Longrightarrow> resolve_binding context invocation spec used base u e = Inr v \<Longrightarrow> P v"
  shows "P s'"
proof -
  from assms(1) obtain used where
    "foldE (resolve_binding context invocation spec used base) s
       (enumerate 0 (spec_bindings invocation spec)) = Inr s'"
    unfolding resolve_spec_def Let_def by auto
  from foldE_history [OF this, where P = "\<lambda>_. P"] assms(2,3) show ?thesis by blast
qed

definition spec_references :: "ProgramInvocation \<Rightarrow> DocumentSpec \<Rightarrow> DocumentRef list" where
  "spec_references invocation spec =
     map (DocumentRef (spec_name spec)) [0..<length (spec_bindings invocation spec)]"

lemma resolve_spec_references:
  assumes "resolve_spec context invocation base s spec = Inr s'"
  shows "map rd_reference (rs_documents s')
           = map rd_reference (rs_documents s) @ spec_references invocation spec
         \<and> length (spec_bindings invocation spec) \<le> spec_maximum spec"
proof -
  from assms obtain used where
    loop: "foldE (resolve_binding context invocation spec used base) s
       (enumerate 0 (spec_bindings invocation spec)) = Inr s'"
    and card: "cardinality_accepts (spec_cardinality spec) (length (spec_bindings invocation spec))"
    unfolding resolve_spec_def Let_def by auto
  have "map rd_reference (rs_documents s') = map rd_reference (rs_documents s)
          @ map (DocumentRef (spec_name spec) \<circ> fst) (enumerate 0 (spec_bindings invocation spec))"
    by (rule foldE_history [OF loop, where P = "\<lambda>ys u. map rd_reference (rs_documents u)
          = map rd_reference (rs_documents s) @ map (DocumentRef (spec_name spec) \<circ> fst) ys"])
      (auto dest!: resolve_binding_eq)
  then have "map rd_reference (rs_documents s') = map rd_reference (rs_documents s)
          @ map (DocumentRef (spec_name spec)) (map fst (enumerate 0 (spec_bindings invocation spec)))"
    by (simp only: map_map)
  then show ?thesis
    using card by (auto simp del: map_map simp: spec_references_def spec_maximum_def cardinality_accepts_def
        cardinality_maximum_def split: Cardinality.splits)
qed

text \<open>What holds of an invocation that resolved, before and after its paths are made canonical.\<close>

definition resolved_ok :: "ProgramDefinition \<Rightarrow> ProgramInvocation \<Rightarrow> ResolvedInvocation \<Rightarrow> bool" where
  "resolved_ok d invocation r \<longleftrightarrow>
     ri_document_paths r = ri_all_paths r \<and> sorted_wrt (<) (ri_all_paths r) \<and>
     distinct (map rd_path (ri_documents r)) \<and>
     set (ri_all_paths r) = set (map rd_path (ri_documents r)) \<and>
     index_ok (ri_documents r) (ri_by_reference r) \<and>
     map rd_reference (ri_documents r) = concat (map (spec_references invocation) (documents d)) \<and>
     (\<forall>spec \<in> set (documents d). length (spec_bindings invocation spec) \<le> spec_maximum spec) \<and>
     (\<forall>doc \<in> set (ri_documents r). rd_initial_json doc \<noteq> None \<longrightarrow>
        (\<exists>spec \<in> set (documents d). spec_name spec = ref_slot (rd_reference doc) \<and>
           spec_allow_initial_json spec))"

lemma sort_distinct_unique:
  fixes xs :: "'a::linorder list"
  assumes "sorted_wrt (<) ys" "set ys = set xs" "distinct xs"
  shows "sort xs = ys"
  using assms by (intro sorted_distinct_set_unique) (auto simp: strict_sorted_iff)

lemma resolve_loop:
  assumes "foldE (resolve_spec context invocation base)
      \<lparr>rs_documents = [], rs_document_paths = [], rs_by_reference = [], rs_unique_paths = []\<rparr> specs
    = Inr s"
  shows "paths_ok context specs s" "index_ok (rs_documents s) (rs_by_reference s)"
    "map rd_reference (rs_documents s) = concat (map (spec_references invocation) specs)"
    "\<forall>spec \<in> set specs. length (spec_bindings invocation spec) \<le> spec_maximum spec"
proof -
  show "paths_ok context specs s"
    by (rule foldE_history [OF assms, where P = "\<lambda>_ u. paths_ok context specs u"])
      (simp add: paths_ok_def, erule (1) resolve_spec_keeps, blast intro: resolve_binding_paths)
  show "index_ok (rs_documents s) (rs_by_reference s)"
    by (rule foldE_history [OF assms, where P = "\<lambda>_ u. index_ok (rs_documents u) (rs_by_reference u)"])
      (simp add: index_ok_def,
        erule resolve_spec_keeps [where P = "\<lambda>u. index_ok (rs_documents u) (rs_by_reference u)"],
        assumption, rule resolve_binding_index)
  have "map rd_reference (rs_documents s) = concat (map (spec_references invocation) specs)
      \<and> (\<forall>spec \<in> set specs. length (spec_bindings invocation spec) \<le> spec_maximum spec)"
    by (rule foldE_history [OF assms, where P = "\<lambda>ys u.
        map rd_reference (rs_documents u) = concat (map (spec_references invocation) ys) \<and>
        (\<forall>spec \<in> set ys. length (spec_bindings invocation spec) \<le> spec_maximum spec)"])
      (auto dest!: resolve_spec_references)
  then show "map rd_reference (rs_documents s) = concat (map (spec_references invocation) specs)"
    "\<forall>spec \<in> set specs. length (spec_bindings invocation spec) \<le> spec_maximum spec"
    by blast+
qed

lemma resolve_ok:
  assumes "resolve_invocation lib d context invocation = Inr r"
  shows "resolved_ok d invocation r"
    "\<forall>doc \<in> set (ri_documents r). op_tenant (rd_path doc) = context"
    "length (ri_all_paths r) \<le> unat (max_paths (caps d))"
proof -
  from assms obtain base s where
    loop: "foldE (resolve_spec context invocation base)
      \<lparr>rs_documents = [], rs_document_paths = [], rs_by_reference = [], rs_unique_paths = []\<rparr>
      (documents d) = Inr s"
    and r: "r = \<lparr>ri_documents = rs_documents s, ri_document_paths = sort (rs_document_paths s),
           ri_by_reference = rs_by_reference s, ri_all_paths = rs_unique_paths s\<rparr>"
    and len: "length (rs_unique_paths s) \<le> unat (max_paths (caps d))"
    unfolding resolve_invocation_def by auto
  note l = resolve_loop [OF loop]
  from l(1) have p: "rs_document_paths s = map rd_path (rs_documents s)" "distinct (rs_document_paths s)"
    "sorted_wrt (<) (rs_unique_paths s)" "set (rs_unique_paths s) = set (rs_document_paths s)"
    "\<forall>r \<in> set (rs_documents s). document_ok context (documents d) r"
    unfolding paths_ok_def by blast+
  have "sort (rs_document_paths s) = rs_unique_paths s"
    by (rule sort_distinct_unique [OF p(3,4,2)])
  then show "resolved_ok d invocation r"
    using l(2-4) p r unfolding resolved_ok_def by (auto simp: document_ok_def)
  show "\<forall>doc \<in> set (ri_documents r). op_tenant (rd_path doc) = context"
    using p(5) r by (simp add: document_ok_def)
  show "length (ri_all_paths r) \<le> unat (max_paths (caps d))" using len r by simp
qed

subsection \<open>Canonical paths\<close>

definition canonical :: "(ObjectPath, ObjectPath) btree \<Rightarrow> ObjectPath \<Rightarrow> ObjectPath" where
  "canonical m path = (case bt_get m path of Some c \<Rightarrow> c | None \<Rightarrow> path)"

lemma canonicalize_loop:
  assumes "foldE (canonicalize_document m) ([], []) docs = Inr (out, unique)"
  shows "out = map (\<lambda>doc. doc\<lparr>rd_path := canonical m (rd_path doc)\<rparr>) docs \<and>
    distinct (map rd_path out) \<and> sorted_wrt (<) unique \<and> set unique = set (map rd_path out)"
proof -
  have "(\<lambda>(o', u). o' = map (\<lambda>doc. doc\<lparr>rd_path := canonical m (rd_path doc)\<rparr>) docs \<and>
      distinct (map (\<lambda>doc. canonical m (rd_path doc)) docs) \<and> sorted_wrt (<) u \<and>
      set u = (\<lambda>doc. canonical m (rd_path doc)) ` set docs) (out, unique)"
    by (rule foldE_history [OF assms, where P = "\<lambda>ys (o', u).
      o' = map (\<lambda>doc. doc\<lparr>rd_path := canonical m (rd_path doc)\<rparr>) ys \<and>
      distinct (map (\<lambda>doc. canonical m (rd_path doc)) ys) \<and> sorted_wrt (<) u \<and>
      set u = (\<lambda>doc. canonical m (rd_path doc)) ` set ys"])
     (auto simp: canonicalize_document_def canonical_def [symmetric] Let_def bs_insert_sorted)
  then show ?thesis by (auto simp: comp_def)
qed

lemma canonicalize_ok:
  assumes "canonicalize_resolved_paths r m = Inr r'" "resolved_ok d invocation r"
  shows "resolved_ok d invocation r'"
    "ri_documents r' = map (\<lambda>doc. doc\<lparr>rd_path := canonical m (rd_path doc)\<rparr>) (ri_documents r)"
proof -
  from assms(1) obtain out unique where
    loop: "foldE (canonicalize_document m) ([], []) (ri_documents r) = Inr (out, unique)"
    and r': "r' = r\<lparr>ri_documents := out, ri_document_paths := unique, ri_all_paths := unique\<rparr>"
    unfolding canonicalize_resolved_paths_def by auto
  note c = canonicalize_loop [OF loop]
  show "ri_documents r' = map (\<lambda>doc. doc\<lparr>rd_path := canonical m (rd_path doc)\<rparr>) (ri_documents r)"
    using c r' by simp
  have "index_ok out (ri_by_reference r)"
    using assms(2) c unfolding resolved_ok_def index_ok_def by simp
  moreover have "map rd_reference out = map rd_reference (ri_documents r)" using c by simp
  moreover have "\<forall>doc \<in> set out. rd_initial_json doc \<noteq> None \<longrightarrow>
        (\<exists>spec \<in> set (documents d). spec_name spec = ref_slot (rd_reference doc) \<and>
           spec_allow_initial_json spec)"
    using assms(2) c unfolding resolved_ok_def by auto
  moreover have "distinct (map rd_path out)" "sorted_wrt (<) unique" "set unique = set (map rd_path out)"
    using c by blast+
  ultimately show "resolved_ok d invocation r'"
    using assms(2) r' unfolding resolved_ok_def by simp
qed

lemma canonical_empty [simp]: "canonical [] = id"
  by (simp add: canonical_def fun_eq_iff)

section \<open>Intents\<close>

fun puts_to :: "DocumentRef \<Rightarrow> Operation \<Rightarrow> bool" where
  "puts_to reference (SetValue target _) \<longleftrightarrow> jp_document target = reference"
| "puts_to reference (CheckedIntegerAdd target _ _) \<longleftrightarrow> jp_document target = reference"
| "puts_to reference (CopyValue _ target) \<longleftrightarrow> jp_document target = reference"
| "puts_to reference (RemoveValue target) \<longleftrightarrow> jp_document target = reference \<and> jp_pointer target \<noteq> []"
| "puts_to reference (ReplaceOpaque document _ _) \<longleftrightarrow> document = reference"

fun deletes :: "DocumentRef \<Rightarrow> Operation \<Rightarrow> bool" where
  "deletes reference (RemoveValue target) \<longleftrightarrow> jp_document target = reference \<and> jp_pointer target = []"
| "deletes reference _ \<longleftrightarrow> False"

lemma operation_intent_simps [simp]:
  "intent_put (operation_intent reference intent operation)
     \<longleftrightarrow> intent_put intent \<or> puts_to reference operation"
  "intent_delete (operation_intent reference intent operation)
     \<longleftrightarrow> intent_delete intent \<or> deletes reference operation"
  "intent_get (operation_intent reference intent operation) \<longleftrightarrow> intent_get intent"
  by (cases operation; simp)+

lemma foldl_operation_intent:
  "intent_put (foldl (operation_intent reference) intent operations')
     \<longleftrightarrow> intent_put intent \<or> list_ex (puts_to reference) operations'"
  "intent_delete (foldl (operation_intent reference) intent operations')
     \<longleftrightarrow> intent_delete intent \<or> list_ex (deletes reference) operations'"
  "intent_get (foldl (operation_intent reference) intent operations') \<longleftrightarrow> intent_get intent"
  by (induction operations' arbitrary: intent) auto

lemma path_intent_eq:
  "intent_get (path_intent d reference)"
  "intent_put (path_intent d reference) \<longleftrightarrow>
     (case find (\<lambda>document. spec_name document = ref_slot reference) (documents d) of
        Some document \<Rightarrow> spec_allow_initial_json document | None \<Rightarrow> False)
     \<or> list_ex (puts_to reference) (operations d)"
  "intent_delete (path_intent d reference) \<longleftrightarrow> list_ex (deletes reference) (operations d)"
  unfolding path_intent_def by (simp_all add: foldl_operation_intent)

lemma find_spec:
  "distinct (map spec_name specs) \<Longrightarrow> spec \<in> set specs \<Longrightarrow> spec_name spec = name \<Longrightarrow>
   find (\<lambda>document. spec_name document = name) specs = Some spec"
  by (induction specs) auto

definition writable_slot :: "ProgramDefinition \<Rightarrow> string \<Rightarrow> bool" where
  "writable_slot d name \<longleftrightarrow>
     (\<exists>spec \<in> set (documents d). spec_name spec = name \<and> spec_access spec = ReadWrite)"

lemma check_reference_writable:
  "slots_ok (documents d) t \<Longrightarrow> check_reference (slots t) reference True = Inr () \<Longrightarrow>
   writable_slot d (ref_slot reference)"
  by (auto simp: check_reference_def slots_ok_def writable_slot_def)

lemma validate_operation_writable:
  assumes "slots_ok (documents d) t" "validate_operation (slots t) operation = Inr ()"
    "puts_to reference operation \<or> deletes reference operation"
  shows "writable_slot d (ref_slot reference)"
  using assms check_reference_writable [OF assms(1)]
  by (cases operation) (auto simp: validate_operation_def check_pointer_ref_def)

lemma intent_writable:
  assumes "definition_validate d = Inr ()"
    "intent_put (path_intent d reference) \<or> intent_delete (path_intent d reference)"
  shows "writable_slot d (ref_slot reference)"
proof -
  from definition_validate_slots [OF assms(1)] obtain t where
    t: "slots_ok (documents d) t"
    "\<And>a. a \<in> set (operations d) \<Longrightarrow> validate_operation (slots t) a = Inr ()" by metis
  consider (initial) spec where
      "find (\<lambda>document. spec_name document = ref_slot reference) (documents d) = Some spec"
      "spec_allow_initial_json spec"
    | (operation) operation where "operation \<in> set (operations d)"
      "puts_to reference operation \<or> deletes reference operation"
    using assms(2) unfolding path_intent_eq by (auto simp: list_ex_iff split: option.splits)
  then show ?thesis
  proof cases
    case initial
    then have "spec \<in> set (documents d)" "spec_name spec = ref_slot reference"
      by (auto simp: find_Some_iff)
    then show ?thesis using initial(2) t(1) by (auto simp: slots_ok_def writable_slot_def)
  next
    case operation
    then show ?thesis using validate_operation_writable [OF t(1) t(2)] by blast
  qed
qed

section \<open>Evaluation\<close>

definition snapshot_head :: "ProgramSnapshot \<Rightarrow> ObjectPath \<Rightarrow> ObservedHead" where
  "snapshot_head snapshot path =
     (case bt_get snapshot path of
        None \<Rightarrow> NeverExisted | Some document \<Rightarrow> ObservedVersion (vd_version document))"

text \<open>A working document belongs to a resolved one, and is dirty only as its intent allows.\<close>

definition tracks ::
    "ProgramDefinition \<Rightarrow> ProgramSnapshot \<Rightarrow> ResolvedDocument \<Rightarrow> WorkingDocument \<Rightarrow> bool" where
  "tracks d snapshot doc w \<longleftrightarrow>
     wd_reference w = rd_reference doc \<and> wd_path w = rd_path doc \<and>
     observed w = snapshot_head snapshot (rd_path doc) \<and>
     (dirty w \<longrightarrow> (if current w = None then intent_delete (path_intent d (rd_reference doc))
                    else intent_put (path_intent d (rd_reference doc))))"

lemma start_tracks:
  assumes "start_document snapshot doc = Inr w"
    "rd_initial_json doc \<noteq> None \<longrightarrow> intent_put (path_intent d (rd_reference doc))"
  shows "tracks d snapshot doc w"
  using assms unfolding start_document_def Let_def working_new_def tracks_def snapshot_head_def
  by (auto split: option.splits)

lemma list_all2_update_body:
  assumes "list_all2 R docs ws" "i < length docs" "R (docs ! i) w"
  shows "list_all2 R docs (ws[i := w])"
  using assms by (auto simp: list_all2_conv_all_nth nth_list_update)

lemma working_document_mut_tracks:
  assumes "working_document_mut reference r ws body = Inr ws'"
    "index_ok (ri_documents r) (ri_by_reference r)"
    "list_all2 (tracks d snapshot) (ri_documents r) ws"
    "\<And>doc w w'. tracks d snapshot doc w \<Longrightarrow> rd_reference doc = reference \<Longrightarrow> body w = Inr w' \<Longrightarrow>
       tracks d snapshot doc w'"
  shows "list_all2 (tracks d snapshot) (ri_documents r) ws'"
proof -
  from assms(1) obtain i w' where i: "bt_get (ri_by_reference r) reference = Some i"
    "body (ws ! i) = Inr w'" "ws' = ws[i := w']"
    unfolding working_document_mut_def working_index_def by auto
  with assms(2) have n: "i < length (ri_documents r)" "rd_reference (ri_documents r ! i) = reference"
    by (auto simp: index_ok_def)
  have "tracks d snapshot (ri_documents r ! i) (ws ! i)" using assms(3) n(1) by (rule list_all2_nthD)
  then have "tracks d snapshot (ri_documents r ! i) w'" using n(2) i(2) by (rule assms(4))
  then show ?thesis unfolding i(3) by (rule list_all2_update_body [OF assms(3) n(1)])
qed

lemma set_document_json_tracks:
  assumes "set_document_json target v r ws = Inr ws'"
    "index_ok (ri_documents r) (ri_by_reference r)"
    "list_all2 (tracks d snapshot) (ri_documents r) ws"
    "intent_put (path_intent d (jp_document target))"
  shows "list_all2 (tracks d snapshot) (ri_documents r) ws'"
  using assms(4)
  by (intro working_document_mut_tracks [OF assms(1) [unfolded set_document_json_def] assms(2,3)])
    (auto simp: tracks_def split: if_splits)

lemma remove_document_json_tracks:
  assumes "remove_document_json target r ws = Inr ws'"
    "index_ok (ri_documents r) (ri_by_reference r)"
    "list_all2 (tracks d snapshot) (ri_documents r) ws"
    "if jp_pointer target = [] then intent_delete (path_intent d (jp_document target))
     else intent_put (path_intent d (jp_document target))"
  shows "list_all2 (tracks d snapshot) (ri_documents r) ws'"
  using assms(4)
  by (intro working_document_mut_tracks [OF assms(1) [unfolded remove_document_json_def] assms(2,3)])
    (auto simp: tracks_def split: if_splits)

lemma add_document_json_tracks:
  assumes "add_document_json lib target v numeric_type r ws = Inr ws'"
    "index_ok (ri_documents r) (ri_by_reference r)"
    "list_all2 (tracks d snapshot) (ri_documents r) ws"
    "intent_put (path_intent d (jp_document target))"
  shows "list_all2 (tracks d snapshot) (ri_documents r) ws'"
  using assms(4)
  by (intro working_document_mut_tracks [OF assms(1) [unfolded add_document_json_def] assms(2,3)])
    (auto simp: tracks_def)

lemma evaluate_operation_tracks:
  assumes "evaluate_operation lib invocation r ws operation = Inr ws'" "operation \<in> set (operations d)"
    "index_ok (ri_documents r) (ri_by_reference r)"
    "list_all2 (tracks d snapshot) (ri_documents r) ws"
  shows "list_all2 (tracks d snapshot) (ri_documents r) ws'"
proof -
  have put: "puts_to reference operation \<Longrightarrow> intent_put (path_intent d reference)"
    and del: "deletes reference operation \<Longrightarrow> intent_delete (path_intent d reference)" for reference
    using assms(2) by (auto simp: path_intent_eq list_ex_iff)
  show ?thesis
  proof (cases operation)
    case (SetValue target source)
    then obtain v where "set_document_json target v r ws = Inr ws'"
      using assms(1) by (auto simp: evaluate_operation_def)
    then show ?thesis using assms(3,4) by (rule set_document_json_tracks) (simp add: put SetValue)
  next
    case (RemoveValue target)
    then have "remove_document_json target r ws = Inr ws'"
      using assms(1) by (simp add: evaluate_operation_def)
    then show ?thesis using assms(3,4)
      by (rule remove_document_json_tracks) (simp add: put del RemoveValue)
  next
    case (CheckedIntegerAdd target delta numeric_type)
    then obtain v where "add_document_json lib target v numeric_type r ws = Inr ws'"
      using assms(1) by (auto simp: evaluate_operation_def)
    then show ?thesis using assms(3,4)
      by (rule add_document_json_tracks) (simp add: put CheckedIntegerAdd)
  next
    case (CopyValue source target)
    then obtain v where "set_document_json target v r ws = Inr ws'"
      using assms(1) by (auto simp: evaluate_operation_def)
    then show ?thesis using assms(3,4) by (rule set_document_json_tracks) (simp add: put CopyValue)
  next
    case (ReplaceOpaque reference input content_type)
    then obtain bytes where "working_document_mut reference r ws (\<lambda>document.
            Inr (document\<lparr>current := Some (OpaqueBytes bytes),
                          current_content_type := Some content_type, dirty := True\<rparr>)) = Inr ws'"
      using assms(1) by (auto simp: evaluate_operation_def)
    then show ?thesis using assms(3,4)
      by (rule working_document_mut_tracks) (auto simp: tracks_def put ReplaceOpaque)
  qed
qed

lemma run_operations_tracks:
  assumes "run_operations lib d invocation r ws = Inr ws'"
    "index_ok (ri_documents r) (ri_by_reference r)"
    "list_all2 (tracks d snapshot) (ri_documents r) ws"
  shows "list_all2 (tracks d snapshot) (ri_documents r) ws'"
proof (rule foldE_history [OF assms(1) [unfolded run_operations_def],
      where P = "\<lambda>_ ws. list_all2 (tracks d snapshot) (ri_documents r) ws"])
  show "list_all2 (tracks d snapshot) (ri_documents r) ws" by (rule assms(3))
next
  fix ys e u v
  assume u: "list_all2 (tracks d snapshot) (ri_documents r) u" and e: "e \<in> set (enumerate 0 (operations d))"
    and step: "(case e of (index, operation) \<Rightarrow> map_err (OperationFailed index)
      (evaluate_operation lib invocation r u operation)) = Inr v"
  obtain index operation where eq: "e = (index, operation)" by (cases e)
  have "operation \<in> set (operations d)" using e eq by (auto simp: enumerate_eq_zip dest: set_zip_rightD)
  then show "list_all2 (tracks d snapshot) (ri_documents r) v"
    using step eq u by (auto intro: evaluate_operation_tracks [OF _ _ assms(2)])
qed

lemma initial_intent:
  assumes "definition_validate d = Inr ()" "resolved_ok d invocation r" "doc \<in> set (ri_documents r)"
    "rd_initial_json doc \<noteq> None"
  shows "intent_put (path_intent d (rd_reference doc))"
proof -
  from definition_validate_slots [OF assms(1)] obtain t where "slots_ok (documents d) t" by metis
  then have "distinct (map spec_name (documents d))" by (simp add: slots_ok_def)
  moreover obtain spec where "spec \<in> set (documents d)" "spec_name spec = ref_slot (rd_reference doc)"
    "spec_allow_initial_json spec"
    using assms(2-4) unfolding resolved_ok_def by blast
  ultimately show ?thesis
    using find_spec [of "documents d" spec "ref_slot (rd_reference doc)"] by (simp add: path_intent_eq)
qed

lemma start_all_tracks:
  assumes "definition_validate d = Inr ()" "resolved_ok d invocation r"
    "mapE (start_document snapshot) (ri_documents r) = Inr ws"
  shows "list_all2 (tracks d snapshot) (ri_documents r) ws"
  using assms(3) unfolding mapE_eq_Inr
  by (rule list.rel_mono_strong) (blast intro: start_tracks initial_intent [OF assms(1,2)])

lemma evaluate_tracks:
  assumes "definition_validate d = Inr ()" "resolved_ok d invocation r"
    "evaluate lib d invocation r snapshot = Inr bundle"
  obtains ws where "list_all2 (tracks d snapshot) (ri_documents r) ws"
    "participants bundle = sort_key part_path (map participant_of ws)"
proof -
  from assms(3) obtain start ws where
    "mapE (start_document snapshot) (ri_documents r) = Inr start"
    "run_operations lib d invocation r start = Inr ws"
    "participants bundle = sort_key part_path (map participant_of ws)"
    unfolding evaluate_def by auto
  moreover have "index_ok (ri_documents r) (ri_by_reference r)"
    using assms(2) by (simp add: resolved_ok_def)
  ultimately show thesis
    using that run_operations_tracks start_all_tracks [OF assms(1,2)] by blast
qed

section \<open>The number of writes\<close>

lemma writable_slot_spec:
  "distinct (map spec_name (documents d)) \<Longrightarrow> spec \<in> set (documents d) \<Longrightarrow>
   writable_slot d (spec_name spec) \<longleftrightarrow> spec_access spec = ReadWrite"
  unfolding writable_slot_def by (metis find_spec option.inject)

lemma length_filter_references:
  assumes "\<forall>spec \<in> set specs. (P (spec_name spec) \<longleftrightarrow> spec_access spec = ReadWrite)"
    "\<forall>spec \<in> set specs. length (spec_bindings invocation spec) \<le> spec_maximum spec"
  shows "length (filter (\<lambda>reference. P (ref_slot reference))
           (concat (map (spec_references invocation) specs)))
         \<le> sum_list (map spec_maximum (writable_specs specs))"
  using assms
proof (induction specs)
  case (Cons spec specs)
  have "filter (\<lambda>reference. P (ref_slot reference)) (spec_references invocation spec)
      = (if P (spec_name spec) then spec_references invocation spec else [])"
    by (simp add: spec_references_def filter_map comp_def)
  then show ?case using Cons by (auto simp: writable_specs_def spec_references_def add_mono)
qed (simp add: writable_specs_def)

lemma dirty_bound:
  assumes "definition_validate d = Inr ()" "resolved_ok d invocation r"
    "list_all2 (tracks d snapshot) (ri_documents r) ws"
  shows "length (filter dirty ws) \<le> unat (max_writes (caps d))"
proof -
  from definition_validate_slots [OF assms(1)] obtain t where
    t: "slots_ok (documents d) t" "maximum_writes t \<le> max_writes (caps d)" by metis
  have "length (filter dirty ws) \<le> length (filter (\<lambda>w. writable_slot d (ref_slot (wd_reference w))) ws)"
  proof -
    have "w \<in> set ws \<Longrightarrow> dirty w \<Longrightarrow> writable_slot d (ref_slot (wd_reference w))" for w
      using assms(3) intent_writable [OF assms(1)]
      by (auto simp: tracks_def in_set_conv_nth list_all2_conv_all_nth split: if_splits)
    then show ?thesis by (induction ws) auto
  qed
  also have "\<dots> = length (filter (\<lambda>reference. writable_slot d (ref_slot reference)) (map wd_reference ws))"
    by (simp add: filter_map comp_def)
  also have "map wd_reference ws = map rd_reference (ri_documents r)"
    using assms(3) by (auto simp: tracks_def list_all2_conv_all_nth intro!: nth_equalityI)
  also have "\<dots> = concat (map (spec_references invocation) (documents d))"
    using assms(2) by (simp add: resolved_ok_def)
  also have "length (filter (\<lambda>reference. writable_slot d (ref_slot reference)) \<dots>)
      \<le> sum_list (map spec_maximum (writable_specs (documents d)))"
    using t(1) assms(2) by (intro length_filter_references)
      (auto simp: slots_ok_def resolved_ok_def writable_slot_spec)
  also have "\<dots> = unat (maximum_writes t)" using t(1) by (simp add: slots_ok_def)
  also have "\<dots> \<le> unat (max_writes (caps d))" using t(2) by (simp add: word_le_nat_alt)
  finally show ?thesis .
qed

section \<open>Errors\<close>

text \<open>A result that does not put the blame on the definition.\<close>

definition blameless :: "EngineError + 'a \<Rightarrow> bool" where
  "blameless r \<longleftrightarrow> (\<forall>m. r \<noteq> Inl (InvalidDefinition m))"

lemma blameless_Inr [simp]: "blameless (Inr x)"
  by (simp add: blameless_def)

lemma blameless_Inl [simp]: "blameless (Inl e) \<longleftrightarrow> (\<forall>m. e \<noteq> InvalidDefinition m)"
  by (simp add: blameless_def)

lemma blameless_bind: "blameless r \<Longrightarrow> (\<And>x. r = Inr x \<Longrightarrow> blameless (f x)) \<Longrightarrow> blameless (bindE r f)"
  by (cases r) (auto simp: blameless_def)

lemma blameless_ensure: "b \<or> (\<forall>m. e \<noteq> InvalidDefinition m) \<Longrightarrow> blameless (ensure b e)"
  by (cases b) (auto simp: ensure_def)

lemma blameless_map_err: "(\<And>x m. f x \<noteq> InvalidDefinition m) \<Longrightarrow> blameless (map_err f r)"
  by (cases r) (auto simp: map_err_def)

lemma blameless_forE: "(\<And>x. x \<in> set xs \<Longrightarrow> blameless (f x)) \<Longrightarrow> blameless (forE f xs)"
  by (induction xs) (auto intro: blameless_bind)

lemma blameless_foldE: "(\<And>s x. blameless (f s x)) \<Longrightarrow> blameless (foldE f s xs)"
  by (induction xs arbitrary: s) (auto intro: blameless_bind)

lemma blameless_mapE: "(\<And>x. blameless (f x)) \<Longrightarrow> blameless (mapE f xs)"
  by (induction xs) (auto intro!: blameless_bind)

lemmas blameless_rules =
  blameless_bind blameless_ensure blameless_map_err blameless_forE blameless_foldE blameless_mapE

lemma resolve_binding_blameless: "blameless (resolve_binding context invocation spec used base s e)"
  unfolding resolve_binding_def binding_values_def ensure_tenant_def validate_expected_head_def Let_def
    case_prod_beta
  by (intro blameless_rules) (auto intro!: blameless_rules)

lemma resolve_spec_blameless: "blameless (resolve_spec context invocation base s spec)"
  unfolding resolve_spec_def spec_fields_def Let_def
  by (intro blameless_rules resolve_binding_blameless) (auto intro!: blameless_rules)

lemma resolve_blameless: "blameless (resolve_invocation lib d context invocation)"
  unfolding resolve_invocation_def validate_invocation_identity_def validate_invocation_size_def
    validate_context_def invocation_values_def
  by (intro blameless_rules resolve_spec_blameless) auto

lemma canonicalize_blameless: "blameless (canonicalize_resolved_paths r m)"
  unfolding canonicalize_resolved_paths_def canonicalize_document_def Let_def case_prod_beta
  by (intro blameless_rules) auto

lemma limits_blameless: "blameless (check_document_limits lib c ws)"
  unfolding check_document_limits_def stored_value_size_def
  by (intro blameless_rules) (auto intro!: blameless_rules split: StoredValue.splits)

lemma start_blameless: "blameless (start_document snapshot doc)"
  unfolding start_document_def check_expected_head_def Let_def
  by (intro blameless_rules) (auto intro!: blameless_rules split: ExpectedHead.splits option.splits)

lemma evaluate_blameless:
  assumes "definition_validate d = Inr ()" "resolved_ok d invocation r"
  shows "blameless (evaluate lib d invocation r snapshot)"
proof -
  have idx: "index_ok (ri_documents r) (ri_by_reference r)"
    using assms(2) by (simp add: resolved_ok_def)
  show ?thesis
    unfolding evaluate_def
  proof (intro blameless_bind)
    show "blameless (validate_snapshot r snapshot)"
      unfolding validate_snapshot_def by (intro blameless_rules) auto
    show "blameless (mapE (start_document snapshot) (ri_documents r))"
      by (intro blameless_mapE start_blameless)
    fix start ws
    assume start: "mapE (start_document snapshot) (ri_documents r) = Inr start"
    show "blameless (run_assertions lib d invocation r start)"
      unfolding run_assertions_def case_prod_beta by (intro blameless_rules) auto
    show "blameless (run_operations lib d invocation r start)"
      unfolding run_operations_def case_prod_beta by (intro blameless_rules) auto
    assume "run_operations lib d invocation r start = Inr ws"
    then have "list_all2 (tracks d snapshot) (ri_documents r) ws"
      using idx start_all_tracks [OF assms start] by (rule run_operations_tracks)
    then show "blameless (ensure (length (filter dirty ws) \<le> unat (max_writes (caps d)))
              (InvalidDefinition ''program produced too many writes''))"
      using dirty_bound [OF assms] by (intro blameless_ensure) blast
    show "blameless (run_returns lib d r ws)"
      unfolding run_returns_def by (intro blameless_rules) auto
  qed (auto intro: limits_blameless)
qed

section \<open>A transfer into an account\<close>

definition ex_account :: DocumentRef where "ex_account = DocumentRef ''account'' 0"

definition ex_balance :: JsonPointerRef where
  "ex_balance = \<lparr>jp_document = ex_account, jp_pointer = ''/b''\<rparr>"

definition ex_program :: ProgramDefinition where
  "ex_program = \<lparr>schema_version = 1,
     documents = [\<lparr>spec_name = ''account'',
       spec_path = \<lparr>pt_tenant = ''{tenant}'', pt_bucket = ''bank'', pt_path = ''a/{id}''\<rparr>,
       spec_cardinality = One, spec_access = ReadWrite, spec_allow_initial_json = False\<rparr>],
     assertions = [Exists ex_account],
     operations = [CheckedIntegerAdd ex_balance (InputNamed ''delta'') (I64 (Some 0) None)],
     returns = [\<lparr>return_name = ''b'', return_value = \<lparr>dv_value = ex_balance, dv_view = Current\<rparr>\<rparr>],
     caps = \<lparr>max_paths = 2, max_writes = 1, max_operations = 4, max_input_bytes = 8,
       max_document_bytes = 8\<rparr>\<rparr>"

definition ex_path :: ObjectPath where "ex_path = ObjectPath ''t'' ''bank'' ''a/x''"

definition ex_invocation :: ProgramInvocation where
  "ex_invocation = \<lparr>program_path_hash = 1, command_id = ''c'', input_fingerprint = replicate 64 CHR ''0'',
     arguments = [(''id'', ''x'')], inputs = [(''delta'', Number (Integer 5))], blobs = [],
     bindings = [(''account'', [\<lparr>binding_path = ex_path, template_values = [],
       expected_head = HeadVersion ''v1'', initial_json = None\<rparr>])]\<rparr>"

definition ex_engine_lib :: EngineLib where
  "ex_engine_lib = \<lparr>json_lib = ex_json_lib, invocation_len = (\<lambda>_. Inr 5)\<rparr>"

definition ex_document :: VersionedDocument where
  "ex_document = \<lparr>vd_version = ''v1'', vd_value = Some (Json (Object [(''b'', Number (Integer 2))])),
     vd_content_type = Some ''application/json''\<rparr>"

definition ex_reader :: "ObjectPath list \<Rightarrow> string + ProgramSnapshot" where
  "ex_reader paths = Inr (if ex_path \<in> set paths then [(ex_path, ex_document)] else [])"

definition ex_bundle :: AtomicWriteBundle where
  "ex_bundle = \<lparr>participants = [\<lparr>part_path = ex_path, part_expected = ObservedVersion ''v1'',
      part_write = Some \<lparr>vw_value = Some (Json (Object [(''b'', Number (Integer 7))])),
        vw_content_type = Some ''application/json''\<rparr>\<rparr>],
    receipt = \<lparr>cr_program_path_hash = 1, cr_command_id = ''c'',
      cr_input_fingerprint = replicate 64 CHR ''0'', cr_outputs = [(''b'', Number (Integer 7))]\<rparr>\<rparr>"

lemma ex_program_valid: "definition_validate ex_program = Inr ()"
  unfolding not_isl_unit [symmetric] by code_simp

lemma ex_prepared:
  "prepare_canonicalized ex_engine_lib ex_reader ex_program ''t'' ex_invocation [] = Inr (ex_bundle, [ex_path])"
  by code_simp

definition ex_resolved :: ResolvedInvocation where
  "ex_resolved = \<lparr>ri_documents = [\<lparr>rd_reference = ex_account, rd_path = ex_path,
      rd_expected_head = HeadVersion ''v1'', rd_initial_json = None\<rparr>],
    ri_document_paths = [ex_path], ri_by_reference = [(ex_account, 0)], ri_all_paths = [ex_path]\<rparr>"

definition ex_working :: "WorkingDocument list" where
  "ex_working = [\<lparr>wd_reference = ex_account, wd_path = ex_path, observed = ObservedVersion ''v1'',
     before = vd_value ex_document, current = Some (Json (Object [(''b'', Number (Integer 7))])),
     current_content_type = Some ''application/json'', dirty = True\<rparr>]"

lemma ex_resolution: "resolve_invocation ex_engine_lib ex_program ''t'' ex_invocation = Inr ex_resolved"
  by code_simp

lemma ex_canonical: "canonicalize_resolved_paths ex_resolved [] = Inr ex_resolved"
  by code_simp

lemma ex_started:
  "mapE (start_document [(ex_path, ex_document)]) (ri_documents ex_resolved)
     = Inr (map (\<lambda>w. w\<lparr>current := before w, dirty := False\<rparr>) ex_working)"
  by code_simp

lemma ex_ran:
  "run_operations (json_lib ex_engine_lib) ex_program ex_invocation ex_resolved
     (map (\<lambda>w. w\<lparr>current := before w, dirty := False\<rparr>) ex_working) = Inr ex_working"
  by code_simp

lemma ex_index: "working_index ex_account ex_resolved = Inr 0"
  by code_simp

section \<open>The bundle\<close>

lemma prepare_cases:
  assumes "prepare_canonicalized lib reader d context invocation m = Inr (bundle, locks)"
  obtains logical r snapshot where "resolve_invocation lib d context invocation = Inr logical"
    "canonicalize_resolved_paths logical m = Inr r" "locks = bs_of_list (ri_all_paths r)"
    "reader (ri_document_paths r) = Inr snapshot"
    "evaluate (json_lib lib) d invocation r snapshot = Inr bundle"
  using assms unfolding prepare_canonicalized_def Let_def by auto

lemma bs_of_list_sorted:
  fixes xs :: "'a::linorder list"
  assumes "sorted_wrt (<) xs" shows "bs_of_list xs = xs"
  using assms sorted_bs_of_list [of xs]
  by (intro sorted_distinct_set_unique) (auto simp: strict_sorted_iff)

lemma sort_key_paths:
  assumes "sorted_wrt (<) ys" "set ys = set (map f xs)" "distinct (map f xs)"
  shows "map f (sort_key f xs) = (ys :: 'a::linorder list)"
proof (rule sorted_distinct_set_unique)
  show "sorted (map f (sort_key f xs))" by (rule sorted_sort_key)
  show "distinct (map f (sort_key f xs))" using assms(3) by (simp add: distinct_map)
  show "sorted ys" "distinct ys" using assms(1) by (simp_all add: strict_sorted_iff)
  show "set (map f (sort_key f xs)) = set ys" using assms(2) by simp
qed

lemma tracks_paths:
  "list_all2 (tracks d snapshot) docs ws \<Longrightarrow> map wd_path ws = map rd_path docs"
  by (auto simp: tracks_def list_all2_conv_all_nth intro!: nth_equalityI)

lemma tracks_memD:
  assumes "list_all2 (tracks d snapshot) docs ws" "w \<in> set ws"
  shows "\<exists>doc \<in> set docs. tracks d snapshot doc w"
  using assms by (induction rule: list_all2_induct) auto

lemma part_path_participant [simp]: "part_path (participant_of w) = wd_path w"
  by (simp add: participant_of_def)

lemma participants_paths:
  assumes "resolved_ok d invocation r" "list_all2 (tracks d snapshot) (ri_documents r) ws"
  shows "map part_path (sort_key part_path (map participant_of ws)) = ri_all_paths r"
  using assms(1) tracks_paths [OF assms(2)]
  by (intro sort_key_paths) (auto simp: resolved_ok_def comp_def simp flip: set_map)

lemma expansion_paths:
  assumes "resolved_ok d invocation r"
    "map (f \<circ> rd_path) docs = map rd_path (ri_documents r)"
  shows "sort (map (f \<circ> ep_path)
           (sort_key ep_path (map (\<lambda>doc. \<lparr>ep_path = rd_path doc, ep_intent = g doc\<rparr>) docs)))
         = ri_all_paths r"
proof (rule sort_distinct_unique)
  have d: "distinct (map (f \<circ> rd_path) docs)" using assms by (simp add: resolved_ok_def)
  show "sorted_wrt (<) (ri_all_paths r)" using assms(1) by (simp add: resolved_ok_def)
  have "set (ri_all_paths r) = set (map (f \<circ> rd_path) docs)"
    using assms by (simp add: resolved_ok_def)
  then show "set (ri_all_paths r) = set (map (f \<circ> ep_path)
      (sort_key ep_path (map (\<lambda>doc. \<lparr>ep_path = rd_path doc, ep_intent = g doc\<rparr>) docs)))"
    by (simp add: image_image)
  show "distinct (map (f \<circ> ep_path)
      (sort_key ep_path (map (\<lambda>doc. \<lparr>ep_path = rd_path doc, ep_intent = g doc\<rparr>) docs)))"
    using d by (auto simp: distinct_map inj_on_def)
qed

text \<open>C21. A successful preparation returns a bundle whose participants are exactly the locked paths, in
  strictly increasing order and at most \<^verbatim>\<open>max_paths\<close> of them; the one bulk read asked for the same
  paths, and the head each participant must still have at commit is the one that read returned.
\<close>

theorem bundle_is_read_set:
  assumes "definition_validate d = Inr ()"
    "prepare_canonicalized lib reader d context invocation m = Inr (bundle, locks)"
  shows "map part_path (participants bundle) = locks \<and> sorted_wrt (<) locks \<and>
    length locks \<le> unat (max_paths (caps d)) \<and>
    (\<exists>snapshot. reader locks = Inr snapshot \<and>
       (\<forall>p \<in> set (participants bundle). part_expected p = snapshot_head snapshot (part_path p)))"
proof -
  from prepare_cases [OF assms(2)] obtain logical r snapshot where
    c: "resolve_invocation lib d context invocation = Inr logical"
    "canonicalize_resolved_paths logical m = Inr r" "locks = bs_of_list (ri_all_paths r)"
    "reader (ri_document_paths r) = Inr snapshot"
    "evaluate (json_lib lib) d invocation r snapshot = Inr bundle" .
  note l = resolve_ok [OF c(1)] and r = canonicalize_ok [OF c(2) resolve_ok(1) [OF c(1)]]
  obtain ws where ws: "list_all2 (tracks d snapshot) (ri_documents r) ws"
    "participants bundle = sort_key part_path (map participant_of ws)"
    by (rule evaluate_tracks [OF assms(1) r(1) c(5)])
  have locks: "locks = ri_all_paths r" "ri_document_paths r = locks" "sorted_wrt (<) locks"
    using r(1) c(3) by (auto simp: resolved_ok_def bs_of_list_sorted)
  have "length locks = length (ri_documents r)"
    using r(1) locks(1) distinct_card [of locks] distinct_card [of "map rd_path (ri_documents r)"]
    by (simp add: resolved_ok_def strict_sorted_iff)
  also have "\<dots> = length (ri_all_paths logical)"
    using l(1) r(2) distinct_card [of "ri_all_paths logical"]
      distinct_card [of "map rd_path (ri_documents logical)"]
    by (simp add: resolved_ok_def strict_sorted_iff)
  finally have "length locks \<le> unat (max_paths (caps d))" using l(3) by simp
  moreover have "map part_path (participants bundle) = locks"
    using participants_paths [OF r(1) ws(1)] ws(2) locks(1) by simp
  moreover have "\<forall>p \<in> set (participants bundle). part_expected p = snapshot_head snapshot (part_path p)"
    using ws tracks_memD [OF ws(1)] by (fastforce simp: participant_of_def tracks_def)
  ultimately show ?thesis using locks c(4) by auto
qed

theorem bundle_is_read_set_witness:
  "map part_path (participants ex_bundle) = [ex_path] \<and> length [ex_path] \<le> unat (max_paths (caps ex_program)) \<and>
   (\<exists>snapshot. ex_reader [ex_path] = Inr snapshot \<and>
      (\<forall>p \<in> set (participants ex_bundle). part_expected p = snapshot_head snapshot (part_path p)))"
  using bundle_is_read_set [OF ex_program_valid ex_prepared] by blast

text \<open>C20. Every write of a prepared bundle was announced to the authorization check: the expansion of
  the same invocation lists, within the tenant of the request, exactly the paths of the bundle
  before they are made canonical; every one of them with the get intent, one that is written with
  the put intent, and one that is deleted with the delete intent.
\<close>

theorem writes_authorized:
  assumes "definition_validate d = Inr ()"
    "prepare_canonicalized lib reader d context invocation m = Inr (bundle, locks)"
  shows "\<exists>paths. expanded_paths lib d context invocation = Inr paths \<and>
    (\<forall>e \<in> set paths. op_tenant (ep_path e) = context) \<and>
    sort (map (canonical m \<circ> ep_path) paths) = map part_path (participants bundle) \<and>
    (\<forall>p \<in> set (participants bundle). \<exists>e \<in> set paths. part_path p = canonical m (ep_path e) \<and>
       intent_get (ep_intent e) \<and>
       (\<forall>w. part_write p = Some w \<longrightarrow>
          (if vw_value w = None then intent_delete (ep_intent e) else intent_put (ep_intent e))))"
proof -
  from prepare_cases [OF assms(2)] obtain logical r snapshot where
    c: "resolve_invocation lib d context invocation = Inr logical"
    "canonicalize_resolved_paths logical m = Inr r"
    "evaluate (json_lib lib) d invocation r snapshot = Inr bundle" by metis
  note l = resolve_ok [OF c(1)] and r = canonicalize_ok [OF c(2) resolve_ok(1) [OF c(1)]]
  obtain ws where ws: "list_all2 (tracks d snapshot) (ri_documents r) ws"
    "participants bundle = sort_key part_path (map participant_of ws)"
    by (rule evaluate_tracks [OF assms(1) r(1) c(3)])
  let ?entry = "\<lambda>doc. \<lparr>ep_path = rd_path doc, ep_intent = path_intent d (rd_reference doc)\<rparr>"
  let ?paths = "sort_key ep_path (map ?entry (ri_documents logical))"
  have "map (canonical m \<circ> rd_path) (ri_documents logical) = map rd_path (ri_documents r)"
    using r(2) by (simp add: comp_def)
  then have "sort (map (canonical m \<circ> ep_path) ?paths) = map part_path (participants bundle)"
    using expansion_paths [OF r(1)] participants_paths [OF r(1) ws(1)] ws(2) by simp
  moreover have "\<exists>e \<in> set ?paths. part_path p = canonical m (ep_path e) \<and> intent_get (ep_intent e) \<and>
      (\<forall>w. part_write p = Some w \<longrightarrow>
        (if vw_value w = None then intent_delete (ep_intent e) else intent_put (ep_intent e)))"
    if "p \<in> set (participants bundle)" for p
  proof -
    from that ws(2) obtain w where w: "w \<in> set ws" "p = participant_of w" by auto
    with tracks_memD [OF ws(1)] obtain doc where "doc \<in> set (ri_documents r)" "tracks d snapshot doc w"
      by blast
    moreover from this(1) r(2) obtain orig where "orig \<in> set (ri_documents logical)"
      "doc = orig\<lparr>rd_path := canonical m (rd_path orig)\<rparr>" by auto
    ultimately show ?thesis using w(2)
      by (intro bexI [of _ "?entry orig"]) (auto simp: tracks_def participant_of_def path_intent_eq(1))
  qed
  ultimately show ?thesis using l(2) c(1) by (intro exI [of _ ?paths]) (auto simp: expanded_paths_def)
qed

theorem writes_authorized_witness:
  "\<exists>paths. expanded_paths ex_engine_lib ex_program ''t'' ex_invocation = Inr paths \<and>
    (\<exists>e \<in> set paths. ex_path = ep_path e \<and> intent_put (ep_intent e))"
  using writes_authorized [OF ex_program_valid ex_prepared] by (auto simp: ex_bundle_def)

text \<open>C22. A program whose definition was validated is never refused at run time for its definition: in
  particular the count of writes that the evaluation checks again stays within \<^verbatim>\<open>max_writes\<close>.
\<close>

theorem validated_never_blamed:
  assumes "definition_validate d = Inr ()"
  shows "prepare_canonicalized lib reader d context invocation m \<noteq> Inl (InvalidDefinition reason)"
proof -
  have "blameless (prepare_canonicalized lib reader d context invocation m)"
    unfolding prepare_canonicalized_def Let_def
    by (intro blameless_bind resolve_blameless canonicalize_blameless blameless_map_err
        evaluate_blameless [OF assms]) (auto intro: canonicalize_ok(1) resolve_ok(1))
  then show ?thesis by (simp add: blameless_def)
qed

theorem validated_never_blamed_witness:
  "prepare_canonicalized ex_engine_lib (\<lambda>_. Inl ''down'') ex_program ''t'' ex_invocation []
     \<noteq> Inl (InvalidDefinition ''program produced too many writes'')"
  by (rule validated_never_blamed [OF ex_program_valid])

text \<open>C23. No reference leaves the array of working documents: once the operations have run the
  position a reference resolves to is in range and holds the document with that reference.
\<close>

theorem references_in_range:
  assumes "definition_validate d = Inr ()"
    "resolve_invocation lib d context invocation = Inr logical"
    "canonicalize_resolved_paths logical m = Inr r"
    "mapE (start_document snapshot) (ri_documents r) = Inr start"
    "run_operations (json_lib lib) d invocation r start = Inr ws"
    "working_index reference r = Inr i"
  shows "i < length ws \<and> wd_reference (ws ! i) = reference"
proof -
  have ok: "resolved_ok d invocation r"
    using canonicalize_ok(1) [OF assms(3) resolve_ok(1) [OF assms(2)]] .
  then have idx: "index_ok (ri_documents r) (ri_by_reference r)" by (simp add: resolved_ok_def)
  have "list_all2 (tracks d snapshot) (ri_documents r) ws"
    using assms(5) idx start_all_tracks [OF assms(1) ok assms(4)] by (rule run_operations_tracks)
  then show ?thesis using idx assms(6)
    by (auto simp: working_index_def index_ok_def tracks_def list_all2_conv_all_nth)
qed

theorem references_in_range_witness:
  "working_index ex_account ex_resolved = Inr 0 \<and> (0::nat) < length ex_working \<and>
   wd_reference (ex_working ! 0) = ex_account"
  using references_in_range [OF ex_program_valid ex_resolution ex_canonical ex_started ex_ran ex_index]
    ex_index by blast

section \<open>Exact addition\<close>

fun type_has :: "IntegerType \<Rightarrow> int \<Rightarrow> bool" where
  "type_has (I64 lo hi) n \<longleftrightarrow> - (2 ^ 63) \<le> n \<and> n < 2 ^ 63 \<and>
     (case lo of Some m \<Rightarrow> m \<le> n | None \<Rightarrow> True) \<and> (case hi of Some m \<Rightarrow> n \<le> m | None \<Rightarrow> True)"
| "type_has (U64 lo hi) n \<longleftrightarrow> 0 \<le> n \<and> n < 2 ^ 64 \<and>
     (case lo of Some m \<Rightarrow> uint m \<le> n | None \<Rightarrow> True) \<and> (case hi of Some m \<Rightarrow> n \<le> uint m | None \<Rightarrow> True)"

fun delta_fits :: "IntegerType \<Rightarrow> int \<Rightarrow> bool" where
  "delta_fits (I64 _ _) n \<longleftrightarrow> n < 2 ^ 63"
| "delta_fits (U64 _ _) n \<longleftrightarrow> True"

lemma exact_i64_eq: "exact_i64 (Number (Integer n)) = Inr i \<longleftrightarrow> - (2 ^ 63) \<le> n \<and> n < 2 ^ 63 \<and> i = n"
  by (auto simp: exact_i64_def as_i64_def)

lemma check_i64_bounds_eq:
  "check_i64_bounds n lo hi = Inr u \<longleftrightarrow>
     (case lo of Some m \<Rightarrow> m \<le> n | None \<Rightarrow> True) \<and> (case hi of Some m \<Rightarrow> n \<le> m | None \<Rightarrow> True)"
  by (auto simp: check_i64_bounds_def not_less split: option.splits)

lemma checked_i64_eq:
  "checked_i64 (Number (Integer n)) lo hi = Inr i \<longleftrightarrow> type_has (I64 lo hi) n \<and> i = n"
  by (auto simp: checked_i64_def exact_i64_eq check_i64_bounds_eq)

lemma check_u64_bounds_eq:
  "check_u64_bounds w lo hi = Inr u \<longleftrightarrow>
     (case lo of Some m \<Rightarrow> uint m \<le> uint w | None \<Rightarrow> True) \<and>
     (case hi of Some m \<Rightarrow> uint w \<le> uint m | None \<Rightarrow> True)"
  by (auto simp: check_u64_bounds_def not_less word_le_def split: option.splits)

lemma uint_of_u64: "0 \<le> n \<Longrightarrow> n < 2 ^ 64 \<Longrightarrow> uint (word_of_int n :: u64) = n"
  by (simp add: unsigned_of_int take_bit_int_eq_self)

lemma checked_u64_eq:
  "checked_u64 (Number (Integer n)) lo hi = Inr w \<longleftrightarrow> type_has (U64 lo hi) n \<and> w = word_of_int n"
  by (auto simp: checked_u64_def as_u64_def check_u64_bounds_eq uint_of_u64 split: option.splits)

lemma u64_sum:
  fixes w :: u64
  assumes "0 \<le> b" "b < 2 ^ 64"
  shows "checked_add w (word_of_int b) = Some x \<longleftrightarrow> uint w + b < 2 ^ 64 \<and> uint x = uint w + b"
proof -
  have "uint (w + word_of_int b) = uint w + b" if "uint w + b < 2 ^ 64"
    using that assms uint_of_u64 [OF assms] by (subst uint_add_lem [THEN iffD1]) simp_all
  then show ?thesis
    unfolding checked_add_code using uint_of_u64 [OF assms] by (auto simp: word_uint_eq_iff)
qed

lemma u64_difference:
  fixes w :: u64
  assumes "0 \<le> b" "b < 2 ^ 64"
  shows "checked_sub w (word_of_int b) = Some x \<longleftrightarrow> b \<le> uint w \<and> uint x = uint w - b"
proof -
  have "uint (w - word_of_int b) = uint w - b" if "b \<le> uint w"
    using that uint_of_u64 [OF assms] by (subst uint_sub_lem [THEN iffD1]) simp_all
  then show ?thesis
    unfolding checked_sub_def using uint_of_u64 [OF assms] by (auto simp: word_uint_eq_iff word_le_def)
qed

lemma add_u64_delta_eq:
  assumes "- (2 ^ 63) \<le> b" "b < 2 ^ 64"
  shows "add_u64_delta w (Number (Integer b)) = Inr x \<longleftrightarrow>
    0 \<le> uint w + b \<and> uint w + b < 2 ^ 64 \<and> uint x = uint w + b"
proof (cases "b < 0")
  case True
  have "uint w < 2 ^ 64" using uint_bounded [of w] by simp
  then show ?thesis using True assms u64_difference [of "- b" w x]
    by (auto simp: add_u64_delta_def as_i64_def)
next
  case False
  have "0 \<le> uint w" by simp
  then show ?thesis using False assms u64_sum [of b w x]
    by (auto simp: add_u64_delta_def as_i64_def as_u64_def)
qed

lemma add_u64_delta_sum:
  assumes "- (2 ^ 63) \<le> b" "b < 2 ^ 64"
  shows "add_u64_delta w (Number (Integer b)) = Inr x \<longleftrightarrow>
    0 \<le> uint w + b \<and> uint w + b < 2 ^ 64 \<and> x = word_of_int (uint w + b)"
  unfolding add_u64_delta_eq [OF assms] by (auto simp: word_uint_eq_iff uint_of_u64 simp del: of_int_add)

text \<open>C24. A checked addition is exact: on integers that JSON can hold it succeeds precisely when the
  old value and the mathematical sum are both values of the type within its bounds (and, for
  \<^verbatim>\<open>i64\<close>, the delta is an \<^verbatim>\<open>i64\<close>), and then it stores the sum.
\<close>

theorem integer_sum_exact:
  assumes "- (2 ^ 63) \<le> b" "b < 2 ^ 64"
  shows "integer_sum numeric_type (Number (Integer a)) (Number (Integer b)) = Inr v \<longleftrightarrow>
    type_has numeric_type a \<and> delta_fits numeric_type b \<and> type_has numeric_type (a + b) \<and>
    v = Number (Integer (a + b))"
proof (cases numeric_type)
  case (I64 lo hi)
  then show ?thesis using assms
    by (auto simp: integer_sum_def checked_i64_eq exact_i64_eq i64_checked_add_def check_i64_bounds_eq)
next
  case (U64 lo hi)
  then show ?thesis
    by (cases lo; cases hi) (auto simp: integer_sum_def checked_u64_eq check_u64_bounds_eq uint_of_u64
        add_u64_delta_sum [OF assms] simp del: of_int_add)
qed

theorem integer_sum_exact_witness:
  "integer_sum (U64 None (Some 10)) (Number (Integer 7)) (Number (Integer (- 3)))
     = Inr (Number (Integer 4))"
  using integer_sum_exact [of "- 3" "U64 None (Some 10)" 7 "Number (Integer 4)"] by simp

end
