(* ===== verification/Program_Locks.thy ===== *)
theory Program_Locks
  imports Program_Engine
begin

text \<open>
  The executor's local lock table, \<^verbatim>\<open>keldra-atomic-program/src/locks.rs\<close>. The table maps a path to a
  weak pointer; a lock is alive as long as some request owns it, which is from the moment
  \<^verbatim>\<open>acquire\<close> looked it up until its guard, or the cancelled future, is dropped. A lock is a number,
  a request belongs to a task, and the locks of a request are awaited one after the other. The
  waiting order of one mutex is left open: any waiter may get a free lock.
\<close>

section \<open>State\<close>

record LockRequest =
  req_paths :: "ObjectPath list"
  req_locks :: "nat list"
  req_guards :: nat

record LocalLockManager =
  lock_table :: "(ObjectPath, nat) btree"
  next_lock :: nat
  requests :: "(nat, LockRequest) btree"

definition lock_manager_default :: LocalLockManager where
  "lock_manager_default = \<lparr>lock_table = [], next_lock = 0, requests = []\<rparr>"

definition strong_count :: "LocalLockManager \<Rightarrow> nat \<Rightarrow> nat" where
  "strong_count s lock = length (filter (\<lambda>(_, r). lock \<in> set (req_locks r)) (requests s))"

definition guarded :: "LockRequest \<Rightarrow> nat list" where
  "guarded r = take (req_guards r) (req_locks r)"

definition locked :: "LocalLockManager \<Rightarrow> nat \<Rightarrow> bool" where
  "locked s lock \<longleftrightarrow> list_ex (\<lambda>(_, r). lock \<in> set (guarded r)) (requests s)"

definition complete :: "LockRequest \<Rightarrow> bool" where
  "complete r \<longleftrightarrow> req_guards r = length (req_locks r)"

section \<open>Operations\<close>

text \<open>One path of the loop under the table's mutex: the living lock of the path, or a new one.\<close>

definition lookup_lock ::
    "LocalLockManager \<Rightarrow> (ObjectPath, nat) btree \<times> nat \<times> nat list \<Rightarrow> ObjectPath \<Rightarrow>
       (ObjectPath, nat) btree \<times> nat \<times> nat list" where
  "lookup_lock s acc path =
     (let (table, fresh, locks) = acc in
      case bt_get table path of
        Some lock \<Rightarrow>
          if 0 < strong_count s lock then (table, fresh, locks @ [lock])
          else (bt_insert path fresh table, fresh + 1, locks @ [fresh])
      | None \<Rightarrow> (bt_insert path fresh table, fresh + 1, locks @ [fresh]))"

definition acquire_start :: "nat \<Rightarrow> ObjectPath list \<Rightarrow> LocalLockManager \<Rightarrow> LocalLockManager" where
  "acquire_start task paths s =
     (let ordered = bs_of_list paths;
          living = filter (\<lambda>(_, lock). 0 < strong_count s lock) (lock_table s);
          (table, fresh, locks) = foldl (lookup_lock s) (living, next_lock s, []) ordered in
      \<lparr>lock_table = table, next_lock = fresh,
       requests = bt_insert task \<lparr>req_paths = ordered, req_locks = locks, req_guards = 0\<rparr> (requests s)\<rparr>)"

text \<open>One \<^verbatim>\<open>lock_owned().await\<close> that returns.\<close>

definition acquire_next :: "nat \<Rightarrow> LocalLockManager \<Rightarrow> LocalLockManager option" where
  "acquire_next task s =
     (case bt_get (requests s) task of
        Some r \<Rightarrow>
          if \<not> complete r \<and> \<not> locked s (req_locks r ! req_guards r)
          then Some (s\<lparr>requests := bt_insert task (r\<lparr>req_guards := req_guards r + 1\<rparr>) (requests s)\<rparr>)
          else None
      | None \<Rightarrow> None)"

definition drop_guard :: "nat \<Rightarrow> LocalLockManager \<Rightarrow> LocalLockManager" where
  "drop_guard task s = s\<lparr>requests := bt_remove task (requests s)\<rparr>"

inductive progress :: "LocalLockManager \<Rightarrow> LocalLockManager \<Rightarrow> bool" where
  granted: "acquire_next task s = Some s' \<Longrightarrow> progress s s'"
| released: "bt_get (requests s) task = Some r \<Longrightarrow> complete r \<Longrightarrow> progress s (drop_guard task s)"

inductive lock_step :: "LocalLockManager \<Rightarrow> LocalLockManager \<Rightarrow> bool" where
  requested: "\<not> bt_contains_key (requests s) task \<Longrightarrow> lock_step s (acquire_start task paths s)"
| progressed: "progress s s' \<Longrightarrow> lock_step s s'"
| cancelled: "bt_contains_key (requests s) task \<Longrightarrow> lock_step s (drop_guard task s)"

abbreviation reachable_locks :: "LocalLockManager \<Rightarrow> bool" where
  "reachable_locks s \<equiv> lock_step\<^sup>*\<^sup>* lock_manager_default s"

inductive_cases progress_cases: "progress s s'"
inductive_cases lock_step_cases: "lock_step s s'"

section \<open>Invariant\<close>

definition request_ok :: "(ObjectPath, nat) btree \<Rightarrow> LockRequest \<Rightarrow> bool" where
  "request_ok table r \<longleftrightarrow>
     sorted_wrt (<) (req_paths r) \<and> length (req_locks r) = length (req_paths r) \<and>
     req_guards r \<le> length (req_locks r) \<and>
     (\<forall>i < length (req_paths r). bt_get table (req_paths r ! i) = Some (req_locks r ! i))"

definition table_ok :: "(ObjectPath, nat) btree \<Rightarrow> nat \<Rightarrow> bool" where
  "table_ok table fresh \<longleftrightarrow>
     (\<forall>path lock. bt_get table path = Some lock \<longrightarrow> lock < fresh) \<and>
     (\<forall>p q lock. bt_get table p = Some lock \<longrightarrow> bt_get table q = Some lock \<longrightarrow> p = q)"

definition locks_ok :: "LocalLockManager \<Rightarrow> bool" where
  "locks_ok s \<longleftrightarrow>
     bt_wf (requests s) \<and> bt_wf (lock_table s) \<and> table_ok (lock_table s) (next_lock s) \<and>
     (\<forall>task r. bt_get (requests s) task = Some r \<longrightarrow> request_ok (lock_table s) r) \<and>
     (\<forall>t t' r r' lock. bt_get (requests s) t = Some r \<longrightarrow> bt_get (requests s) t' = Some r' \<longrightarrow>
        lock \<in> set (guarded r) \<longrightarrow> lock \<in> set (guarded r') \<longrightarrow> t = t')"

lemma strong_count_pos:
  "bt_wf (requests s) \<Longrightarrow>
   0 < strong_count s lock \<longleftrightarrow> (\<exists>task r. bt_get (requests s) task = Some r \<and> lock \<in> set (req_locks r))"
  by (auto simp: strong_count_def length_greater_0_conv filter_empty_conv bt_get_iff [symmetric])

lemma locked_iff:
  "bt_wf (requests s) \<Longrightarrow>
   locked s lock \<longleftrightarrow> (\<exists>task r. bt_get (requests s) task = Some r \<and> lock \<in> set (guarded r))"
  by (auto simp: locked_def list_ex_iff bt_get_iff [symmetric])

text \<open>The loop of \<open>acquire_start\<close>: old living entries stay, new ones are fresh.\<close>

lemma table_ok_insert: "table_ok table fresh \<Longrightarrow> table_ok (bt_insert path fresh table) (fresh + 1)"
  by (fastforce simp: table_ok_def bt_get_insert split: if_splits)

lemma table_ok_mono: "table_ok table n \<Longrightarrow> (\<And>p l. bt_get table' p = Some l \<Longrightarrow> bt_get table p = Some l) \<Longrightarrow>
    table_ok table' n"
  unfolding table_ok_def by metis

definition loop_ok ::
    "(ObjectPath, nat) btree \<Rightarrow> ObjectPath list \<Rightarrow> (ObjectPath, nat) btree \<times> nat \<times> nat list \<Rightarrow> bool" where
  "loop_ok living done_paths acc \<longleftrightarrow>
     (let (table, fresh, locks) = acc in
      table_ok table fresh \<and> length locks = length done_paths \<and>
      (\<forall>i < length done_paths. bt_get table (done_paths ! i) = Some (locks ! i)) \<and>
      (\<forall>path lock. bt_get living path = Some lock \<longrightarrow> bt_get table path = Some lock) \<and>
      (\<forall>path. path \<notin> set done_paths \<longrightarrow> bt_get table path = bt_get living path))"

lemma lookup_lock_ok:
  assumes "loop_ok living ys acc" "path \<notin> set ys"
    "\<And>p l. bt_get living p = Some l \<Longrightarrow> 0 < strong_count s l"
  shows "loop_ok living (ys @ [path]) (lookup_lock s acc path)"
proof -
  obtain table fresh locks where acc: "acc = (table, fresh, locks)" by (cases acc) auto
  from assms(1) have l: "table_ok table fresh" "length locks = length ys"
    "\<And>i. i < length ys \<Longrightarrow> bt_get table (ys ! i) = Some (locks ! i)"
    "\<And>p k. bt_get living p = Some k \<Longrightarrow> bt_get table p = Some k"
    "\<And>p. p \<notin> set ys \<Longrightarrow> bt_get table p = bt_get living p"
    unfolding loop_ok_def acc Let_def by auto
  show ?thesis
  proof (cases "bt_get table path")
    case None
    have "ys ! i \<noteq> path" if "i < length ys" for i using assms(2) that by (auto simp: in_set_conv_nth)
    moreover have "p \<noteq> path" if "bt_get living p = Some k" for p k using l(4) [OF that] None by auto
    ultimately show ?thesis
      using None l table_ok_insert [OF l(1), of path]
      by (auto simp: loop_ok_def acc lookup_lock_def bt_get_insert nth_append less_Suc_eq)
  next
    case (Some lock)
    then have "0 < strong_count s lock" using l(5) [OF assms(2)] assms(3) by simp
    then show ?thesis using Some l
      by (auto simp: loop_ok_def acc lookup_lock_def nth_append less_Suc_eq)
  qed
qed

lemma foldl_lookup_ok:
  assumes "distinct paths" "table_ok living fresh"
    "\<And>p l. bt_get living p = Some l \<Longrightarrow> 0 < strong_count s l"
  shows "loop_ok living paths (foldl (lookup_lock s) (living, fresh, []) paths)"
  using assms(1)
proof (induction paths rule: rev_induct)
  case Nil
  then show ?case using assms(2) by (simp add: loop_ok_def)
next
  case (snoc path paths)
  then show ?case using lookup_lock_ok [OF _ _ assms(3)] by simp
qed

lemma bt_get_filter:
  assumes "bt_wf m"
  shows "bt_get (filter (\<lambda>(_, v). Q v) m) k = Some v \<longleftrightarrow> bt_get m k = Some v \<and> Q v"
proof -
  have "bt_wf (filter (\<lambda>(_, v). Q v) m)"
    using assms unfolding bt_wf_def by (simp add: sorted_wrt_map sorted_wrt_filter)
  from bt_get_iff [OF this, of k v] bt_get_iff [OF assms, of k v] show ?thesis by simp
qed

lemma lookup_lock_wf: "bt_wf (fst acc) \<Longrightarrow> bt_wf (fst (lookup_lock s acc path))"
  by (auto simp: lookup_lock_def split: prod.splits option.splits)

lemma foldl_lookup_wf: "bt_wf (fst acc) \<Longrightarrow> bt_wf (fst (foldl (lookup_lock s) acc paths))"
  by (induction paths arbitrary: acc) (simp_all add: lookup_lock_wf)

lemma request_ok_table:
  "request_ok table r \<Longrightarrow> (\<And>i. i < length (req_paths r) \<Longrightarrow> bt_get table (req_paths r ! i) = Some (req_locks r ! i) \<Longrightarrow>
     bt_get table' (req_paths r ! i) = Some (req_locks r ! i)) \<Longrightarrow> request_ok table' r"
  by (simp add: request_ok_def)

lemma locks_okD:
  assumes "locks_ok s"
  shows "bt_wf (requests s)" "bt_wf (lock_table s)" "table_ok (lock_table s) (next_lock s)"
    "bt_get (requests s) task = Some r \<Longrightarrow> request_ok (lock_table s) r"
    "bt_get (requests s) t = Some r \<Longrightarrow> bt_get (requests s) t' = Some r' \<Longrightarrow>
       lock \<in> set (guarded r) \<Longrightarrow> lock \<in> set (guarded r') \<Longrightarrow> t = t'"
  using assms unfolding locks_ok_def by blast+

lemma guarded_start [simp]: "guarded \<lparr>req_paths = ps, req_locks = ls, req_guards = 0\<rparr> = []"
  by (simp add: guarded_def)

lemma acquire_start_ok:
  assumes "locks_ok s"
  shows "locks_ok (acquire_start task paths s)"
proof -
  define living where "living = filter (\<lambda>(_, lock). 0 < strong_count s lock) (lock_table s)"
  define ordered where "ordered = bs_of_list paths"
  obtain table fresh locks where
    f: "foldl (lookup_lock s) (living, next_lock s, []) ordered = (table, fresh, locks)"
    by (metis prod_cases3)
  note ok = locks_okD [OF assms]
  have living: "bt_get living p = Some l \<longleftrightarrow> bt_get (lock_table s) p = Some l \<and> 0 < strong_count s l" for p l
    unfolding living_def by (rule bt_get_filter [OF ok(2)])
  have wf: "bt_wf living"
    unfolding living_def using ok(2) by (simp add: bt_wf_def sorted_wrt_map sorted_wrt_filter)
  have sorted: "sorted_wrt (<) ordered" unfolding ordered_def by (rule sorted_bs_of_list)
  have "loop_ok living ordered (table, fresh, locks)"
    unfolding f [symmetric] using sorted living table_ok_mono [OF ok(3), of living]
    by (intro foldl_lookup_ok) (auto simp: strict_sorted_iff)
  then have l: "table_ok table fresh" "length locks = length ordered"
    "\<And>i. i < length ordered \<Longrightarrow> bt_get table (ordered ! i) = Some (locks ! i)"
    "\<And>p k. bt_get living p = Some k \<Longrightarrow> bt_get table p = Some k"
    by (auto simp: loop_ok_def)
  have old: "request_ok table r" if "bt_get (requests s) t = Some r" for t r
  proof (rule request_ok_table [OF ok(4) [OF that]])
    fix i assume i: "i < length (req_paths r)" "bt_get (lock_table s) (req_paths r ! i) = Some (req_locks r ! i)"
    have "req_locks r ! i \<in> set (req_locks r)" using i(1) ok(4) [OF that] by (simp add: request_ok_def)
    then have "0 < strong_count s (req_locks r ! i)" using that strong_count_pos [OF ok(1)] by blast
    then show "bt_get table (req_paths r ! i) = Some (req_locks r ! i)" using i(2) by (intro l(4)) (simp add: living)
  qed
  have new: "request_ok table \<lparr>req_paths = ordered, req_locks = locks, req_guards = 0\<rparr>"
    using sorted l(2,3) by (simp add: request_ok_def)
  have wf': "bt_wf table" using foldl_lookup_wf [of "(living, next_lock s, [])" s ordered] wf f by simp
  have eq: "acquire_start task paths s = \<lparr>lock_table = table, next_lock = fresh,
      requests = bt_insert task \<lparr>req_paths = ordered, req_locks = locks, req_guards = 0\<rparr> (requests s)\<rparr>"
    using f unfolding acquire_start_def living_def ordered_def Let_def by simp
  show ?thesis
    unfolding locks_ok_def eq
    using ok(1) wf' l(1) old new ok(5) by (auto simp: bt_get_insert split: if_splits)
qed

lemma guarded_next:
  "\<not> complete r \<Longrightarrow> req_guards r \<le> length (req_locks r) \<Longrightarrow>
   guarded (r\<lparr>req_guards := req_guards r + 1\<rparr>) = guarded r @ [req_locks r ! req_guards r]"
  by (simp add: guarded_def complete_def take_Suc_conv_app_nth)

lemma acquire_nextD:
  assumes "acquire_next task s = Some s'"
  obtains r where "bt_get (requests s) task = Some r" "\<not> complete r"
    "\<not> locked s (req_locks r ! req_guards r)"
    "s' = s\<lparr>requests := bt_insert task (r\<lparr>req_guards := req_guards r + 1\<rparr>) (requests s)\<rparr>"
  using assms unfolding acquire_next_def by (auto split: option.splits if_splits)

lemma acquire_next_ok:
  assumes "locks_ok s" "acquire_next task s = Some s'"
  shows "locks_ok s'"
proof -
  from assms(2) obtain r where r: "bt_get (requests s) task = Some r" "\<not> complete r"
    "\<not> locked s (req_locks r ! req_guards r)"
    "s' = s\<lparr>requests := bt_insert task (r\<lparr>req_guards := req_guards r + 1\<rparr>) (requests s)\<rparr>"
    by (rule acquire_nextD)
  note ok = locks_okD [OF assms(1)]
  have rok: "request_ok (lock_table s) r" by (rule ok(4) [OF r(1)])
  then have new: "request_ok (lock_table s) (r\<lparr>req_guards := req_guards r + 1\<rparr>)"
    using r(2) by (simp add: request_ok_def complete_def)
  have g: "guarded (r\<lparr>req_guards := req_guards r + 1\<rparr>) = guarded r @ [req_locks r ! req_guards r]"
    using r(2) rok by (intro guarded_next) (simp_all add: request_ok_def)
  have free: "req_locks r ! req_guards r \<notin> set (guarded r')" if "bt_get (requests s) t = Some r'" for t r'
    using r(3) that unfolding locked_iff [OF ok(1)] by blast
  have other: "False" if "bt_get (requests s) t = Some a" "t \<noteq> task"
    "lock \<in> set (guarded a)" "lock \<in> set (guarded (r\<lparr>req_guards := req_guards r + 1\<rparr>))" for t a lock
    using that(4) free [OF that(1)] that(2,3) ok(5) [OF that(1) r(1) that(3)] unfolding g by auto
  have excl: "t = t'" if "bt_get (requests s') t = Some a" "bt_get (requests s') t' = Some b"
    "lock \<in> set (guarded a)" "lock \<in> set (guarded b)" for t t' a b lock
  proof (rule ccontr)
    assume "t \<noteq> t'"
    then consider "t = task" "t' \<noteq> task" | "t \<noteq> task" "t' = task" | "t \<noteq> task" "t' \<noteq> task" by blast
    then show False
      using that \<open>t \<noteq> t'\<close> other [of t' b lock] other [of t a lock] ok(5) [of t a t' b lock]
      by cases (simp_all add: r(4) bt_get_insert)
  qed
  have get: "bt_get (requests s') t = (if t = task then Some (r\<lparr>req_guards := req_guards r + 1\<rparr>)
      else bt_get (requests s) t)" for t
    by (simp add: r(4) bt_get_insert)
  have "lock_table s' = lock_table s" by (simp add: r(4))
  then have "\<forall>t a. bt_get (requests s') t = Some a \<longrightarrow> request_ok (lock_table s') a"
    using new by (auto simp: get split: if_splits dest: ok(4))
  moreover have "bt_wf (requests s')" "bt_wf (lock_table s')" "table_ok (lock_table s') (next_lock s')"
    using ok(1-3) by (simp_all add: r(4))
  ultimately show ?thesis unfolding locks_ok_def using excl by blast
qed

lemma drop_guard_ok: "locks_ok s \<Longrightarrow> locks_ok (drop_guard task s)"
  unfolding locks_ok_def drop_guard_def by (auto simp: bt_get_remove split: if_splits)

lemma progress_ok: "progress s s' \<Longrightarrow> locks_ok s \<Longrightarrow> locks_ok s'"
  by (erule progress.cases) (auto intro: acquire_next_ok drop_guard_ok)

lemma reachable_locks_ok: "reachable_locks s \<Longrightarrow> locks_ok s"
proof (induction rule: rtranclp_induct)
  case base
  then show ?case by (simp add: locks_ok_def lock_manager_default_def table_ok_def)
next
  case (step s s')
  from step.hyps(2) step.IH show ?case
    by (cases rule: lock_step.cases) (auto intro: acquire_start_ok progress_ok drop_guard_ok)
qed

section \<open>Progress\<close>

definition wanted :: "LockRequest \<Rightarrow> ObjectPath" where
  "wanted r = req_paths r ! req_guards r"

text \<open>A lock that an unfinished request waits for and another holds is smaller than what that one wants.\<close>

lemma held_below_wanted:
  assumes "locks_ok s" "bt_get (requests s) t = Some r" "bt_get (requests s) t' = Some r'"
    "\<not> complete r" "\<not> complete r'" "req_locks r ! req_guards r \<in> set (guarded r')"
  shows "wanted r < wanted r'"
proof -
  note ok = locks_okD [OF assms(1)]
  note r = ok(4) [OF assms(2)] and r' = ok(4) [OF assms(3)]
  from assms(6) obtain j where j: "j < req_guards r'" "req_locks r' ! j = req_locks r ! req_guards r"
    "j < length (req_locks r')" by (auto simp: guarded_def in_set_conv_nth)
  have "bt_get (lock_table s) (wanted r) = Some (req_locks r ! req_guards r)"
    using r assms(4) by (simp add: request_ok_def complete_def wanted_def)
  moreover have "bt_get (lock_table s) (req_paths r' ! j) = Some (req_locks r ! req_guards r)"
    using r' j by (simp add: request_ok_def)
  ultimately have "wanted r = req_paths r' ! j" using ok(3) unfolding table_ok_def by blast
  also have "\<dots> < wanted r'"
    using r' j(1) assms(5) unfolding request_ok_def complete_def wanted_def
    by (auto simp: sorted_wrt_iff_nth_less)
  finally show ?thesis .
qed

lemma progress_possible:
  assumes "locks_ok s" "requests s \<noteq> []"
  shows "\<exists>s'. progress s s'"
proof (rule ccontr)
  assume stuck: "\<not> ?thesis"
  note ok = locks_okD [OF assms(1)]
  have pending: "\<not> complete r" if "bt_get (requests s) t = Some r" for t r
    using stuck that released by blast
  have blocked: "\<exists>t' r'. bt_get (requests s) t' = Some r' \<and> req_locks r ! req_guards r \<in> set (guarded r')"
    if "bt_get (requests s) t = Some r" for t r
  proof -
    have "acquire_next t s = None" using stuck granted by (metis not_None_eq)
    then have "locked s (req_locks r ! req_guards r)"
      using that pending [OF that] by (simp add: acquire_next_def split: if_splits)
    then show ?thesis using locked_iff [OF ok(1)] by simp
  qed
  let ?W = "wanted ` {r. \<exists>t. bt_get (requests s) t = Some r}"
  have "finite {r. \<exists>t. bt_get (requests s) t = Some r}"
    by (rule finite_subset [of _ "snd ` set (requests s)"]) (auto dest!: bt_get_mem intro: rev_image_eqI)
  then have fin: "finite ?W" by simp
  obtain t r where "(t, r) \<in> set (requests s)" using assms(2) by (cases "requests s") auto
  then have ne: "?W \<noteq> {}" using bt_get_iff [OF ok(1)] by blast
  from Max_in [OF fin ne] obtain t r where r: "bt_get (requests s) t = Some r" "wanted r = Max ?W" by auto
  from blocked [OF r(1)] obtain t' r' where r': "bt_get (requests s) t' = Some r'"
    "req_locks r ! req_guards r \<in> set (guarded r')" by blast
  have "wanted r < wanted r'"
    by (rule held_below_wanted [OF assms(1) r(1) r'(1) pending [OF r(1)] pending [OF r'(1)] r'(2)])
  moreover have "wanted r' \<le> Max ?W" using fin r'(1) by (intro Max_ge) auto
  ultimately show False using r(2) by simp
qed

text \<open>What is left to do: the locks still awaited, and one drop of every guard.\<close>

definition request_work :: "LockRequest \<Rightarrow> nat" where
  "request_work r = length (req_locks r) - req_guards r + 1"

definition lock_work :: "LocalLockManager \<Rightarrow> nat" where
  "lock_work s = sum_list (map (\<lambda>e. request_work (snd e)) (requests s))"

lemma bt_wf_Cons: "bt_wf ((k, v) # m) \<longleftrightarrow> bt_wf m \<and> (\<forall>k' \<in> fst ` set m. k < k')"
  by (auto simp: bt_wf_def)

lemma sum_bt_insert:
  fixes f :: "'v \<Rightarrow> nat"
  assumes "bt_wf m" "bt_get m t = Some r"
  shows "sum_list (map (\<lambda>e. f (snd e)) (bt_insert t r' m)) + f r
    = sum_list (map (\<lambda>e. f (snd e)) m) + f r'"
  using assms
proof (induction m)
  case (Cons e m)
  obtain k v where e: "e = (k, v)" by (cases e)
  show ?case
  proof (cases "t = k")
    case True
    then show ?thesis using Cons.prems e by (simp add: bt_get_def)
  next
    case False
    then have get: "bt_get m t = Some r" using Cons.prems e by (simp add: bt_get_def)
    then have "k < t" using Cons.prems(1) e bt_get_mem [OF get] by (force simp: bt_wf_Cons)
    then show ?thesis using Cons e get by (auto simp: bt_wf_Cons)
  qed
qed simp

lemma bt_remove_absent: "bt_get m t = None \<Longrightarrow> bt_remove t m = m"
  by (auto simp: bt_remove_def bt_get_None_iff intro!: filter_True)

lemma sum_bt_remove:
  fixes f :: "'v \<Rightarrow> nat"
  assumes "bt_wf m" "bt_get m t = Some r"
  shows "sum_list (map (\<lambda>e. f (snd e)) (bt_remove t m)) + f r = sum_list (map (\<lambda>e. f (snd e)) m)"
  using assms
proof (induction m)
  case (Cons e m)
  obtain k v where e: "e = (k, v)" by (cases e)
  show ?case
  proof (cases "t = k")
    case True
    then have "bt_get m t = None" using Cons.prems(1) e by (auto simp: bt_wf_Cons bt_get_None_iff)
    then show ?thesis
      using True Cons.prems(2) e bt_remove_absent [of m t] by (simp add: bt_get_def bt_remove_def)
  next
    case False
    then show ?thesis using Cons e by (auto simp: bt_wf_Cons bt_get_def bt_remove_def)
  qed
qed simp

lemma progress_work:
  assumes "locks_ok s" "progress s s'"
  shows "lock_work s' < lock_work s"
proof -
  note ok = locks_okD [OF assms(1)]
  from assms(2) show ?thesis
  proof (cases rule: progress.cases)
    case (granted task)
    from granted obtain r where r: "bt_get (requests s) task = Some r" "\<not> complete r"
      "s' = s\<lparr>requests := bt_insert task (r\<lparr>req_guards := req_guards r + 1\<rparr>) (requests s)\<rparr>"
      by (rule acquire_nextD)
    have "req_guards r < length (req_locks r)"
      using r(2) ok(4) [OF r(1)] by (auto simp: complete_def request_ok_def)
    then have "request_work (r\<lparr>req_guards := req_guards r + 1\<rparr>) < request_work r"
      by (simp add: request_work_def)
    then show ?thesis
      using sum_bt_insert [OF ok(1) r(1), of request_work "r\<lparr>req_guards := req_guards r + 1\<rparr>"] r(3)
      by (simp add: lock_work_def)
  next
    case (released task r)
    then show ?thesis
      using sum_bt_remove [OF ok(1) released(2), of request_work]
      by (simp add: lock_work_def drop_guard_def request_work_def)
  qed
qed

lemma progress_run_work:
  "(progress ^^ n) s s' \<Longrightarrow> locks_ok s \<Longrightarrow> lock_work s' + n \<le> lock_work s \<and> locks_ok s'"
proof (induction n arbitrary: s')
  case (Suc n)
  from Suc.prems(1) obtain u where u: "(progress ^^ n) s u" "progress u s'" by auto
  with Suc have "lock_work u + n \<le> lock_work s" "locks_ok u" by blast+
  then show ?case using progress_work [of u s'] progress_ok [of u s'] u(2) by auto
qed simp

section \<open>Two tasks\<close>

definition ex_paths :: "ObjectPath list" where
  "ex_paths = [ObjectPath ''t'' ''b'' ''y'', ObjectPath ''t'' ''b'' ''x'']"

definition ex_asked :: LocalLockManager where
  "ex_asked = acquire_start 2 [ObjectPath ''t'' ''b'' ''z''] (acquire_start 1 ex_paths lock_manager_default)"

definition ex_granted :: LocalLockManager where
  "ex_granted = the (acquire_next 1 (the (acquire_next 2 (the (acquire_next 1 ex_asked)))))"

lemma ex_asked_reachable: "reachable_locks ex_asked"
proof -
  have "lock_step lock_manager_default (acquire_start 1 ex_paths lock_manager_default)"
    by (rule requested) code_simp
  moreover have "lock_step (acquire_start 1 ex_paths lock_manager_default) ex_asked"
    unfolding ex_asked_def by (rule requested) code_simp
  ultimately show ?thesis by (meson rtranclp.simps)
qed

lemma acquire_next_step: "acquire_next task s \<noteq> None \<Longrightarrow> lock_step s (the (acquire_next task s))"
  by (metis option.collapse lock_step.progressed progress.granted)

lemma ex_granted_reachable: "reachable_locks ex_granted"
proof -
  have "lock_step ex_asked (the (acquire_next 1 ex_asked))"
    by (rule acquire_next_step) code_simp
  moreover have "lock_step (the (acquire_next 1 ex_asked)) (the (acquire_next 2 (the (acquire_next 1 ex_asked))))"
    by (rule acquire_next_step) code_simp
  moreover have "lock_step (the (acquire_next 2 (the (acquire_next 1 ex_asked)))) ex_granted"
    unfolding ex_granted_def by (rule acquire_next_step) code_simp
  ultimately show ?thesis using ex_asked_reachable by (meson rtranclp.rtrancl_into_rtrancl)
qed

section \<open>Claims\<close>

text \<open>C26. Two guards never cover a common path: in every state the lock table can reach, the
  requests of two tasks that hold all their locks name disjoint sets of paths.\<close>

theorem guards_exclusive:
  assumes "reachable_locks s" "bt_get (requests s) t = Some r" "bt_get (requests s) t' = Some r'"
    "t \<noteq> t'" "complete r" "complete r'"
  shows "set (req_paths r) \<inter> set (req_paths r') = {}"
proof -
  note ok = locks_okD [OF reachable_locks_ok [OF assms(1)]]
  note r = ok(4) [OF assms(2)] and r' = ok(4) [OF assms(3)]
  have False if common: "p \<in> set (req_paths r)" "p \<in> set (req_paths r')" for p
  proof -
    from common obtain i j where ij: "i < length (req_paths r)" "req_paths r ! i = p"
      "j < length (req_paths r')" "req_paths r' ! j = p" by (auto simp: in_set_conv_nth)
    then have eq: "req_locks r ! i = req_locks r' ! j"
      using r r' unfolding request_ok_def by (metis option.inject)
    have "req_locks r ! i \<in> set (guarded r)" "req_locks r' ! j \<in> set (guarded r')"
      using ij(1,3) assms(5,6) r r' by (simp_all add: guarded_def complete_def request_ok_def)
    then have "req_locks r ! i \<in> set (guarded r)" "req_locks r ! i \<in> set (guarded r')"
      unfolding eq .
    then show False using ok(5) [OF assms(2,3)] assms(4) by blast
  qed
  then show ?thesis by blast
qed

theorem guards_exclusive_witness:
  "\<exists>r r'. bt_get (requests ex_granted) 1 = Some r \<and> bt_get (requests ex_granted) 2 = Some r' \<and>
     complete r \<and> complete r' \<and> set (req_paths r) \<inter> set (req_paths r') = {}"
proof -
  have "bt_get (requests ex_granted) 1 \<noteq> None" "bt_get (requests ex_granted) 2 \<noteq> None"
    "complete (the (bt_get (requests ex_granted) 1))" "complete (the (bt_get (requests ex_granted) 2))"
    by code_simp+
  then obtain r r' where "bt_get (requests ex_granted) 1 = Some r" "bt_get (requests ex_granted) 2 = Some r'"
    "complete r" "complete r'" by auto
  then show ?thesis using guards_exclusive [OF ex_granted_reachable, of 1 r 2 r'] by simp
qed

text \<open>C25. Acquiring locks never deadlocks, whatever sets of paths the tasks ask for and in whatever
  order the waiting locks are granted: from every reachable state, granting locks and dropping
  complete guards takes at most \<open>lock_work\<close> steps, and it can stop only when every request has
  been granted and released.\<close>

theorem locks_make_progress:
  assumes "reachable_locks s"
  shows "(\<forall>n s'. (progress ^^ n) s s' \<longrightarrow> n \<le> lock_work s) \<and>
    (\<forall>s'. progress\<^sup>*\<^sup>* s s' \<and> (\<forall>s''. \<not> progress s' s'') \<longrightarrow> requests s' = [])"
proof -
  note ok = reachable_locks_ok [OF assms]
  have "n \<le> lock_work s" if "(progress ^^ n) s s'" for n s'
    using progress_run_work [OF that ok] by linarith
  moreover have "requests s' = []" if "progress\<^sup>*\<^sup>* s s'" "\<forall>s''. \<not> progress s' s''" for s'
  proof -
    from that(1) obtain n where "(progress ^^ n) s s'" by (metis rtranclp_power)
    then have "locks_ok s'" using progress_run_work ok by blast
    then show ?thesis using progress_possible that(2) by blast
  qed
  ultimately show ?thesis by blast
qed

theorem locks_make_progress_witness:
  "\<not> (\<exists>s'. (progress ^^ 6) ex_asked s') \<and>
   \<not> (\<exists>s'. progress\<^sup>*\<^sup>* ex_asked s' \<and> (\<forall>s''. \<not> progress s' s'') \<and> requests s' \<noteq> [])"
proof -
  have "lock_work ex_asked = 5" by code_simp
  then have "\<not> 6 \<le> lock_work ex_asked" by simp
  then show ?thesis using locks_make_progress [OF ex_asked_reachable] by metis
qed

end
