(* ===== verification/Placement.thy ===== *)
theory Placement
  imports Consensus_Types Complex_Main "HOL-Library.Multiset" "HOL-Library.Product_Lexorder"
begin

unbundle bit_operations_syntax

text \<open>
  Weighted rendezvous placement, \<^verbatim>\<open>keldra/src/placement.rs\<close>: the nodes of the cluster ranked for a
  key by \<open>weight / - log2 H\<close>, where \<open>H\<close> is read off a hash of the key and the node. The
  logarithm is computed in 64 rounds of integer squaring. BLAKE3 is an argument. Machine
  arithmetic is kept at its width; the lemmas show that no operation of it wraps.
\<close>

section \<open>Data\<close>

datatype PlacementKind =
    TenantNameClaim | TenantOrBucketRecord | ObjectPlacement | ZanzibarRealm | Credential
  | SmallContent | LargeFragment | FuturePersonalDb | FutureIndex | AccountingMatcher

fun wire_byte :: "PlacementKind \<Rightarrow> u8" where
  "wire_byte TenantNameClaim = 1"
| "wire_byte TenantOrBucketRecord = 2"
| "wire_byte ObjectPlacement = 3"
| "wire_byte ZanzibarRealm = 4"
| "wire_byte Credential = 5"
| "wire_byte SmallContent = 6"
| "wire_byte LargeFragment = 7"
| "wire_byte FuturePersonalDb = 8"
| "wire_byte FutureIndex = 9"
| "wire_byte AccountingMatcher = 10"

record PlacementNode =
  pn_node_id :: NodeId
  weight_millionths :: u32

record ScoredNode =
  scored_node :: PlacementNode
  denominator :: u128

text \<open>BLAKE3 in key-derivation mode: the context string and the bytes hashed give 32 bytes.\<close>

type_synonym DeriveKey = "string \<Rightarrow> u8 list \<Rightarrow> u8 list"

definition HASH_CONTEXT :: string where
  "HASH_CONTEXT = ''keldra.storage/weighted-hrw/v1''"

text \<open>\<^verbatim>\<open>to_be_bytes\<close> and \<^verbatim>\<open>from_be_bytes\<close>.\<close>

definition to_be_bytes :: "nat \<Rightarrow> 'a::len word \<Rightarrow> u8 list" where
  "to_be_bytes n w = map (\<lambda>i. ucast (drop_bit (8 * i) w)) (rev [0..<n])"

definition from_be_bytes :: "u8 list \<Rightarrow> 'a::len word" where
  "from_be_bytes bs = foldl (\<lambda>w b. push_bit 8 w OR ucast b) 0 bs"

section \<open>Scores\<close>

definition hash_midpoint ::
    "DeriveKey \<Rightarrow> PlacementKind \<Rightarrow> ClusterId \<Rightarrow> u8 list \<Rightarrow> NodeId \<Rightarrow> u64" where
  "hash_midpoint blake3 kind cluster key node =
     from_be_bytes (take 8 (blake3 HASH_CONTEXT
       ([wire_byte kind] @ to_be_bytes 16 cluster
        @ to_be_bytes 8 (of_nat (length key) :: u64) @ key @ to_be_bytes 8 node)))"

text \<open>A 256-bit product as four limbs, the least significant first.\<close>

type_synonym product256 = "u64 \<times> u64 \<times> u64 \<times> u64"

definition square_u128 :: "u128 \<Rightarrow> product256" where
  "square_u128 v =
     (let low = ucast v :: u64;
          high = ucast (drop_bit 64 v) :: u64;
          low_square = ucast low * ucast low :: u128;
          cross = ucast low * ucast high :: u128;
          high_square = ucast high * ucast high :: u128;
          limb0 = ucast low_square;
          middle = drop_bit 64 low_square + ucast (ucast cross :: u64) * 2;
          limb1 = ucast middle;
          upper = drop_bit 64 cross * 2 + ucast (ucast high_square :: u64) + drop_bit 64 middle;
          limb2 = ucast upper;
          limb3 = ucast (drop_bit 64 high_square + drop_bit 64 upper)
      in (limb0, limb1, limb2, limb3))"

definition shift_product_right :: "product256 \<Rightarrow> nat \<Rightarrow> u128" where
  "shift_product_right product shift =
     (let (p0, p1, p2, p3) = product;
          within_limb = shift - 64;
          low = drop_bit within_limb p1 OR push_bit (64 - within_limb) p2;
          high = drop_bit within_limb p2 OR push_bit (64 - within_limb) p3
      in push_bit 64 (ucast high) OR ucast low)"

definition leading_zeros :: "'a::len word \<Rightarrow> nat" where
  "leading_zeros w = length (takeWhile (\<lambda>i. \<not> bit w i) (rev [0..<LENGTH('a)]))"

definition log2_round :: "u128 \<times> u64 \<Rightarrow> nat \<Rightarrow> u128 \<times> u64" where
  "log2_round acc output_bit =
     (let (normalized, fractional_log2) = acc;
          square = square_u128 normalized;
          at_least_two = (snd (snd (snd square)) AND push_bit 61 1 \<noteq> 0)
      in (shift_product_right square (if at_least_two then 127 else 126),
          if at_least_two then fractional_log2 OR push_bit output_bit 1 else fractional_log2))"

definition negative_log2_q64 :: "u64 \<Rightarrow> u128" where
  "negative_log2_q64 r =
     (let numerator = push_bit 1 (ucast r :: u128) OR 1;
          significant_bits = 128 - leading_zeros numerator;
          integer_exponent = 66 - significant_bits;
          normalized = push_bit (127 - significant_bits) numerator;
          fractional_log2 = snd (foldl log2_round (normalized, 0) (rev [0..<64]));
          rounded_up = push_bit 64 (of_nat integer_exponent) - ucast fractional_log2;
          rounded_down = (if numerator = 1 then rounded_up else saturating_sub rounded_up 1)
      in max rounded_down 1)"

definition score_denominator ::
    "DeriveKey \<Rightarrow> PlacementKind \<Rightarrow> ClusterId \<Rightarrow> u8 list \<Rightarrow> NodeId \<Rightarrow> u128" where
  "score_denominator blake3 kind cluster key node =
     negative_log2_q64 (hash_midpoint blake3 kind cluster key node)"

section \<open>Ranking\<close>

datatype Ordering = Less | Equal | Greater

definition cmp :: "'a::linorder \<Rightarrow> 'a \<Rightarrow> Ordering" where
  "cmp a b = (if a < b then Less else if a = b then Equal else Greater)"

definition compare_score :: "ScoredNode \<Rightarrow> ScoredNode \<Rightarrow> Ordering" where
  "compare_score left right =
     (let left_cross = ucast (weight_millionths (scored_node left)) * denominator right;
          right_cross = ucast (weight_millionths (scored_node right)) * denominator left :: u128
      in case cmp right_cross left_cross of
           Equal \<Rightarrow> cmp (pn_node_id (scored_node left)) (pn_node_id (scored_node right))
         | o' \<Rightarrow> o')"

text \<open>
  \<^verbatim>\<open>sort_unstable_by\<close> promises some order of the elements in which no element is greater than a
  later one. The model is insertion; on distinct nodes there is only one such order.
\<close>

fun insert_by :: "('a \<Rightarrow> 'a \<Rightarrow> Ordering) \<Rightarrow> 'a \<Rightarrow> 'a list \<Rightarrow> 'a list" where
  "insert_by f x [] = [x]"
| "insert_by f x (y # ys) = (if f x y = Greater then y # insert_by f x ys else x # y # ys)"

definition sort_by :: "('a \<Rightarrow> 'a \<Rightarrow> Ordering) \<Rightarrow> 'a list \<Rightarrow> 'a list" where
  "sort_by f xs = foldr (insert_by f) xs []"

definition rank_nodes ::
    "DeriveKey \<Rightarrow> PlacementKind \<Rightarrow> ClusterId \<Rightarrow> u8 list \<Rightarrow> PlacementNode list \<Rightarrow> PlacementNode list" where
  "rank_nodes blake3 kind cluster key nodes =
     map scored_node (sort_by compare_score
       (map (\<lambda>node. \<lparr>scored_node = node,
                     denominator = score_denominator blake3 kind cluster key (pn_node_id node)\<rparr>)
          nodes))"

section \<open>Wide squares\<close>

definition limbs_value :: "product256 \<Rightarrow> int" where
  "limbs_value p = (case p of (a, b, c, d) \<Rightarrow>
     uint a + 2 ^ 64 * uint b + 2 ^ 128 * uint c + 2 ^ 192 * uint d)"

lemma uint_low: "uint (ucast (v :: u128) :: u64) = uint v mod 2 ^ 64"
  by (simp add: unsigned_ucast_eq take_bit_eq_mod)

lemma uint_high: "uint (drop_bit 64 (v :: u128)) = uint v div 2 ^ 64"
proof -
  have "take_bit 128 (uint v) = uint v" using uint_bounded [of v] by (simp add: take_bit_int_eq_self_iff)
  then show ?thesis by (subst unsigned_drop_bit_eq) (simp add: drop_bit_eq_div)
qed

lemma uint_wide: "uint (ucast (v :: u64) :: u128) = uint v"
  by (rule uint_up_ucast) (simp add: is_up)

lemma u128_mult:
  fixes a b :: u128
  shows "uint a * uint b < 2 ^ 128 \<Longrightarrow> uint (a * b) = uint a * uint b"
  using uint_mult_lem [of a b] by simp

lemma u128_add:
  fixes a b :: u128
  shows "uint a + uint b < 2 ^ 128 \<Longrightarrow> uint (a + b) = uint a + uint b"
  using uint_add_lem [of a b] by simp

lemma product_bound:
  assumes "0 \<le> a" "a < 2 ^ n" "0 \<le> b" "b < (2 ^ m :: int)"
  shows "a * b < 2 ^ (n + m)"
proof -
  have "a * b \<le> (2 ^ n - 1) * (2 ^ m - 1)" using assms by (intro mult_mono) auto
  also have "\<dots> < 2 ^ (n + m)"
  proof -
    have "(1 :: int) \<le> 2 ^ n" "(1 :: int) \<le> 2 ^ m" by simp_all
    then show ?thesis unfolding power_add left_diff_distrib right_diff_distrib by linarith
  qed
  finally show ?thesis .
qed

text \<open>The carries of the limbs add up to the square.\<close>

lemma limbs_sum:
  fixes a c d M :: int
  defines "m \<equiv> a div M + (c mod M) * 2"
  defines "u \<equiv> (c div M) * 2 + d mod M + m div M"
  shows "a mod M + M * (m mod M) + M ^ 2 * (u mod M) + M ^ 3 * (d div M + u div M)
           = a + 2 * M * c + M ^ 2 * d"
proof -
  have a: "a mod M = a - M * (a div M)" and c: "c mod M = c - M * (c div M)"
    and d: "d mod M = d - M * (d div M)" and m: "m mod M = m - M * (m div M)"
    and u: "u mod M = u - M * (u div M)"
    by (simp_all add: minus_mult_div_eq_mod)
  show ?thesis
    unfolding m u a
    unfolding u_def d
    unfolding m_def c
    by (simp add: algebra_simps power2_eq_square power3_eq_cube)
qed

lemma div_2_64: "0 \<le> uint (w :: u128) div 2 ^ 64" "uint (w :: u128) div 2 ^ 64 < 2 ^ 64"
proof -
  show "0 \<le> uint w div 2 ^ 64" by (simp add: pos_imp_zdiv_nonneg_iff)
  have "uint w < 2 ^ 64 * 2 ^ 64" using uint_bounded [of w] by simp
  then show "uint w div 2 ^ 64 < 2 ^ 64" by (simp add: div_less_iff_less_mult)
qed

lemma mod_2_64: "0 \<le> (x :: int) mod 2 ^ 64" "(x :: int) mod 2 ^ 64 < 2 ^ 64"
  by simp_all

lemma uint_halves:
  "uint (ucast (v :: u128) :: u64) = uint v mod 2 ^ 64"
  "uint (ucast (drop_bit 64 (v :: u128)) :: u64) = uint v div 2 ^ 64"
proof -
  show "uint (ucast v :: u64) = uint v mod 2 ^ 64" by (rule uint_low)
  show "uint (ucast (drop_bit 64 v) :: u64) = uint v div 2 ^ 64"
    unfolding uint_low uint_high using div_2_64 [of v] by (intro mod_pos_pos_trivial) simp_all
qed

lemma wide_product: "uint (ucast (x :: u64) * ucast (y :: u64) :: u128) = uint x * uint y"
  using product_bound [of "uint x" 64 "uint y" 64] uint_bounded [of x] uint_bounded [of y]
  by (subst u128_mult) (simp_all add: uint_wide)

lemma uint_double: "uint w < 2 ^ 127 \<Longrightarrow> uint (w * 2 :: u128) = uint w * 2"
  by (subst u128_mult) simp_all

lemma pow_bounds: "(2 :: int) ^ 64 < 2 ^ 127" "4 * (2 :: int) ^ 64 < 2 ^ 128"
  by simp_all

lemma uint_low_wide: "uint (ucast (ucast (w :: u128) :: u64) :: u128) = uint w mod 2 ^ 64"
  by (simp only: uint_wide uint_low)

lemma middle_exact:
  fixes ls cr :: u128
  shows "uint (drop_bit 64 ls + ucast (ucast cr :: u64) * 2 :: u128) = uint ls div 2 ^ 64 + (uint cr mod 2 ^ 64) * 2"
proof -
  note b = pow_bounds div_2_64 [of ls] mod_2_64 [of "uint cr"]
  have "uint (ucast (ucast cr :: u64) :: u128) < 2 ^ 127"
    unfolding uint_low_wide using b by linarith
  note c = uint_double [OF this, unfolded uint_low_wide]
  have "uint (drop_bit 64 ls) + uint (ucast (ucast cr :: u64) * 2 :: u128) < 2 ^ 128"
    unfolding c uint_high using b by linarith
  from u128_add [OF this] show ?thesis unfolding c uint_high .
qed

lemma upper_exact:
  fixes cr hs mw :: u128
  shows "uint (drop_bit 64 cr * 2 + ucast (ucast hs :: u64) + drop_bit 64 mw :: u128)
     = (uint cr div 2 ^ 64) * 2 + uint hs mod 2 ^ 64 + uint mw div 2 ^ 64"
proof -
  note b = pow_bounds div_2_64 [of cr] mod_2_64 [of "uint hs"] div_2_64 [of mw]
  have "uint (drop_bit 64 cr) < 2 ^ 127" unfolding uint_high using b by linarith
  note 1 = uint_double [OF this, unfolded uint_high]
  have "uint (drop_bit 64 cr * 2) + uint (ucast (ucast hs :: u64) :: u128) < 2 ^ 128"
    unfolding 1 uint_low_wide using b by linarith
  note 2 = u128_add [OF this, unfolded 1 uint_low_wide]
  have "uint (drop_bit 64 cr * 2 + ucast (ucast hs :: u64)) + uint (drop_bit 64 mw) < 2 ^ 128"
    unfolding 2 uint_high using b by linarith
  from u128_add [OF this] show ?thesis unfolding 2 uint_high .
qed

lemma square_carries:
  fixes x :: int
  assumes "0 \<le> x" "x < 2 ^ 128"
  defines "l \<equiv> x mod 2 ^ 64" and "h \<equiv> x div 2 ^ 64"
  defines "m \<equiv> (l * l) div 2 ^ 64 + ((l * h) mod 2 ^ 64) * 2"
  defines "u \<equiv> ((l * h) div 2 ^ 64) * 2 + (h * h) mod 2 ^ 64 + m div 2 ^ 64"
  shows "(l * l) mod 2 ^ 64 + 2 ^ 64 * (m mod 2 ^ 64) + (2 ^ 64) ^ 2 * (u mod 2 ^ 64)
      + (2 ^ 64) ^ 3 * ((h * h) div 2 ^ 64 + u div 2 ^ 64) = x\<^sup>2" (is ?sum)
    and "(h * h) div 2 ^ 64 + u div 2 ^ 64 < 2 ^ 64"
proof -
  have "x = l + 2 ^ 64 * h" unfolding l_def h_def by (rule mod_mult_div_eq [symmetric])
  then have "x\<^sup>2 = l * l + 2 * 2 ^ 64 * (l * h) + (2 ^ 64) ^ 2 * (h * h)"
    by (simp only: power2_eq_square) (simp add: algebra_simps)
  then show sum: ?sum
    using limbs_sum [of "l * l" "2 ^ 64" "l * h" "h * h"] unfolding m_def u_def by simp
  have "x\<^sup>2 < 2 ^ (128 + 128)"
    using product_bound [OF assms(1,2) assms(1,2)] by (simp add: power2_eq_square)
  moreover have "0 \<le> (2 ^ 64) ^ 2 * (u mod 2 ^ 64)" "0 \<le> 2 ^ 64 * (m mod 2 ^ 64)"
    "0 \<le> (l * l) mod 2 ^ 64" by simp_all
  moreover have "(2 :: int) ^ (128 + 128) = (2 ^ 64) ^ 3 * 2 ^ 64" by simp
  ultimately have "(2 ^ 64) ^ 3 * ((h * h) div 2 ^ 64 + u div 2 ^ 64) < (2 ^ 64) ^ 3 * (2 ^ 64 :: int)"
    using sum by linarith
  then show "(h * h) div 2 ^ 64 + u div 2 ^ 64 < 2 ^ 64"
    by (rule mult_less_cancel_left_pos [THEN iffD1, rotated]) simp
qed

lemma square_exact: "limbs_value (square_u128 v) = (uint v)\<^sup>2"
proof -
  define l h where "l = uint v mod 2 ^ 64" and "h = uint v div 2 ^ 64"
  define m where "m = (l * l) div 2 ^ 64 + ((l * h) mod 2 ^ 64) * 2"
  define u where "u = ((l * h) div 2 ^ 64) * 2 + (h * h) mod 2 ^ 64 + m div 2 ^ 64"
  have v: "0 \<le> uint v" "uint v < 2 ^ 128" using uint_bounded [of v] by simp_all
  note carries = square_carries [OF v, folded l_def h_def, folded m_def, folded u_def]
  define lw hw :: u64 where "lw = ucast v" and "hw = ucast (drop_bit 64 v)"
  define ls cr hs :: u128 where "ls = ucast lw * ucast lw" and "cr = ucast lw * ucast hw"
    and "hs = ucast hw * ucast hw"
  define mw where "mw = drop_bit 64 ls + ucast (ucast cr :: u64) * 2"
  define uw where "uw = drop_bit 64 cr * 2 + ucast (ucast hs :: u64) + drop_bit 64 mw"
  have lw: "uint lw = l" unfolding lw_def l_def by (rule uint_halves(1))
  have hw: "uint hw = h" unfolding hw_def h_def by (rule uint_halves(2))
  have w: "uint ls = l * l" "uint cr = l * h" "uint hs = h * h"
    unfolding ls_def cr_def hs_def wide_product lw hw by (rule refl)+
  have mw: "uint mw = m" unfolding mw_def middle_exact w m_def ..
  have uw: "uint uw = u" unfolding uw_def upper_exact w mw u_def ..
  have sq: "square_u128 v = (ucast ls, ucast mw, ucast uw, ucast (drop_bit 64 hs + drop_bit 64 uw))"
    unfolding square_u128_def Let_def lw_def hw_def ls_def cr_def hs_def mw_def uw_def ..
  have "uint (drop_bit 64 hs) + uint (drop_bit 64 uw) < 2 ^ 128"
    unfolding uint_high using div_2_64 [of hs] div_2_64 [of uw] pow_bounds by linarith
  note hi = u128_add [OF this, unfolded uint_high w uw]
  have "((h * h) div 2 ^ 64 + u div 2 ^ 64) mod 2 ^ 64 = (h * h) div 2 ^ 64 + u div 2 ^ 64"
    using carries(2) div_2_64(1) [of hs] div_2_64(1) [of uw] unfolding w uw
    by (intro mod_pos_pos_trivial) linarith+
  then show ?thesis
    unfolding sq limbs_value_def case_prod_conv uint_low hi w mw uw carries(1) [symmetric] by simp
qed

section \<open>Shifting a product\<close>

lemma limbs_concat:
  "limbs_value (a, b, c, d) =
     concat_bit 64 (uint a) (concat_bit 64 (uint b) (concat_bit 64 (uint c) (uint d)))"
proof -
  have "take_bit 64 (uint w) = uint w" for w :: u64
    using uint_bounded [of w] by (simp add: take_bit_int_eq_self_iff)
  then show ?thesis
    unfolding limbs_value_def case_prod_conv concat_bit_eq push_bit_eq_mult by (simp add: algebra_simps)
qed

lemma bit_limbs:
  "bit (limbs_value (a, b, c, d)) k \<longleftrightarrow>
     (if k < 64 then bit a k else if k < 128 then bit b (k - 64)
      else if k < 192 then bit c (k - 128) else bit d (k - 192))"
  unfolding limbs_concat by (simp add: bit_concat_bit_iff bit_uint_iff diff_less_mono2) (auto dest: bit_imp_le_length)

lemma bit_beyond: "64 \<le> k \<Longrightarrow> \<not> bit (x :: u64) k"
  using bit_imp_le_length [of x k] by auto

lemma bit_shift_low:
  assumes "w < 64" "n < 64"
  shows "bit (shift_product_right (a, b, c, d) (64 + w)) n
    \<longleftrightarrow> (if w + n < 64 then bit b (w + n) else bit c (w + n - 64))"
proof (cases "w + n < 64")
  case True
  then have "\<not> 64 - w \<le> n" by linarith
  then show ?thesis using assms True
    by (simp add: shift_product_right_def Let_def bit_or_iff bit_push_bit_iff bit_drop_bit_eq bit_unsigned_iff)
next
  case False
  then have "64 - w \<le> n" "n - (64 - w) = w + n - 64" using assms by linarith+
  then show ?thesis using assms False
    by (simp add: shift_product_right_def Let_def bit_or_iff bit_push_bit_iff bit_drop_bit_eq
        bit_unsigned_iff bit_beyond)
qed

lemma bit_shift_high:
  assumes "w < 64" "n < 64"
  shows "bit (shift_product_right (a, b, c, d) (64 + w)) (64 + n)
    \<longleftrightarrow> (if w + n < 64 then bit c (w + n) else bit d (w + n - 64))"
proof (cases "w + n < 64")
  case True
  then have "\<not> 64 - w \<le> n" by linarith
  then show ?thesis using assms True
    by (simp add: shift_product_right_def Let_def bit_or_iff bit_push_bit_iff bit_drop_bit_eq
        bit_unsigned_iff bit_beyond)
next
  case False
  then have "64 - w \<le> n" "n - (64 - w) = w + n - 64" using assms by linarith+
  then show ?thesis using assms False
    by (simp add: shift_product_right_def Let_def bit_or_iff bit_push_bit_iff bit_drop_bit_eq
        bit_unsigned_iff bit_beyond)
qed

lemma shift_exact:
  assumes "w < 64"
  shows "uint (shift_product_right p (64 + w)) = take_bit 128 (drop_bit (64 + w) (limbs_value p))"
proof (rule bit_eqI)
  fix n
  obtain a b c d where p: "p = (a, b, c, d)" by (cases p) auto
  show "bit (uint (shift_product_right p (64 + w))) n
      \<longleftrightarrow> bit (take_bit 128 (drop_bit (64 + w) (limbs_value p))) n"
  proof (cases "n < 64")
    case True
    then have "w + n < 128" using assms by linarith
    then show ?thesis using assms True unfolding p
      by (simp add: bit_uint_iff bit_take_bit_iff bit_drop_bit_eq bit_shift_low bit_limbs)
  next
    case False
    then obtain k where k: "n = 64 + k" by (metis not_less le_Suc_ex)
    show ?thesis
    proof (cases "k < 64")
      case True
      then have "w + k < 128" using assms by linarith
      then show ?thesis using assms True k unfolding p
        by (simp add: bit_uint_iff bit_take_bit_iff bit_drop_bit_eq bit_shift_high bit_limbs)
    next
      case False
      then show ?thesis using k by (simp add: bit_uint_iff bit_take_bit_iff)
    qed
  qed
qed

section \<open>Normalisation\<close>

lemma length_takeWhile_rev:
  assumes "k \<le> n" "\<And>i. k \<le> i \<Longrightarrow> i < n \<Longrightarrow> \<not> P i" "k = 0 \<or> P (k - 1)"
  shows "length (takeWhile (\<lambda>i. \<not> P i) (rev [0..<n])) = n - k"
  using assms
proof (induction n)
  case (Suc n)
  show ?case
  proof (cases "k = Suc n")
    case True
    then show ?thesis using Suc.prems(3) by simp
  next
    case False
    then have "k \<le> n" using Suc.prems(1) by simp
    then show ?thesis using Suc by (simp add: Suc_diff_le)
  qed
qed simp

lemma top_bit_int:
  fixes x :: int
  assumes "2 ^ k \<le> x" "x < 2 ^ Suc k"
  shows "bit x k" "k < i \<Longrightarrow> \<not> bit x i"
proof -
  have "x div 2 ^ k = 1"
    using assms by (intro div_pos_geq [THEN trans]) (simp_all add: div_pos_pos_trivial)
  then show "bit x k" by (simp add: bit_iff_odd)
  assume "k < i"
  then have "(2 :: int) ^ Suc k \<le> 2 ^ i" by (intro power_increasing) simp_all
  then have "0 \<le> x" "x < 2 ^ i" using assms zero_le_power [of "2 :: int" k] by linarith+
  then show "\<not> bit x i" by (simp add: bit_iff_odd)
qed

lemma leading_zeros_eq:
  fixes w :: "'a::len word"
  assumes "2 ^ k \<le> uint w" "uint w < 2 ^ Suc k"
  shows "leading_zeros w = LENGTH('a) - Suc k" "k < LENGTH('a)"
proof -
  have "(2 :: int) ^ k < 2 ^ LENGTH('a)" using assms(1) uint_bounded [of w] by linarith
  then show k: "k < LENGTH('a)" by simp
  note b = top_bit_int [OF assms]
  have "bit w k" "\<And>i. Suc k \<le> i \<Longrightarrow> i < LENGTH('a) \<Longrightarrow> \<not> bit w i"
    using b k by (auto simp: bit_uint_iff Suc_le_eq)
  then show "leading_zeros w = LENGTH('a) - Suc k"
    unfolding leading_zeros_def using k by (intro length_takeWhile_rev) auto
qed

lemma power_interval:
  fixes x :: int
  assumes "1 \<le> x"
  obtains k where "2 ^ k \<le> x" "x < 2 ^ Suc k"
proof -
  have "1 \<le> nat x" using assms by simp
  from ex_power_ivl1 [OF _ this, of 2] obtain k where "2 ^ k \<le> nat x" "nat x < 2 ^ (k + 1)" by auto
  then have "int (2 ^ k) \<le> int (nat x)" "int (nat x) < int (2 ^ (k + 1))"
    by (simp_all only: of_nat_le_iff of_nat_less_iff)
  then show thesis using that [of k] assms by simp
qed

section \<open>One round of the logarithm\<close>

lemma test_bit_mask: "(w :: u64) AND push_bit 61 1 \<noteq> 0 \<longleftrightarrow> bit w 61"
  using and_exp_eq_0_iff_not_bit [of w 61] by (simp add: push_bit_of_1)

lemma square_range:
  fixes x :: int
  assumes "2 ^ 126 \<le> x" "x < 2 ^ 127"
  shows "2 ^ 252 \<le> x\<^sup>2" "x\<^sup>2 < 2 ^ 254"
proof -
  have "2 ^ 126 * 2 ^ 126 \<le> x * x" using assms by (intro mult_mono) simp_all
  then show "2 ^ 252 \<le> x\<^sup>2" by (simp add: power2_eq_square)
  have "x * x < 2 ^ (127 + 127)" using assms by (intro product_bound) simp_all
  then show "x\<^sup>2 < 2 ^ 254" by (simp add: power2_eq_square)
qed

lemma bit_253:
  fixes S :: int
  assumes "0 \<le> S" "S < 2 ^ 254"
  shows "bit S 253 \<longleftrightarrow> 2 ^ 253 \<le> S"
proof (cases "2 ^ 253 \<le> S")
  case True
  then show ?thesis using top_bit_int(1) [of 253 S] assms by simp
next
  case False
  then show ?thesis using assms by (simp add: bit_iff_odd)
qed

lemma div_below:
  fixes S k D :: int
  assumes "S < k * D" "0 < D"
  shows "S div D < k"
proof -
  have "D * (S div D) + S mod D = S" "0 \<le> S mod D" using assms(2) by (simp_all add: mult_div_mod_eq)
  then have "D * (S div D) < D * k" using assms(1) by (simp only: mult.commute [of D k])
  then show ?thesis using assms(2) by simp
qed

lemma div_above: "k * D \<le> S \<Longrightarrow> 0 < D \<Longrightarrow> k \<le> S div (D :: int)"
  using zdiv_mono1 [of "k * D" S D] by simp

lemma shift_square:
  fixes n :: u128
  assumes "w < 64" "(uint n)\<^sup>2 < 2 ^ (192 + w)"
  shows "uint (shift_product_right (square_u128 n) (64 + w)) = (uint n)\<^sup>2 div 2 ^ (64 + w)"
proof -
  have "(2 :: int) ^ (192 + w) = 2 ^ 128 * 2 ^ (64 + w)" by (simp add: power_add)
  then have "(uint n)\<^sup>2 < 2 ^ 128 * 2 ^ (64 + w)" using assms(2) by linarith
  then have "(uint n)\<^sup>2 div 2 ^ (64 + w) < 2 ^ 128" by (rule div_below) simp
  then have "take_bit 128 ((uint n)\<^sup>2 div 2 ^ (64 + w)) = (uint n)\<^sup>2 div 2 ^ (64 + w)"
    by (simp add: take_bit_int_eq_self_iff pos_imp_zdiv_nonneg_iff)
  then show ?thesis
    unfolding shift_exact [OF assms(1)] square_exact drop_bit_eq_div by simp
qed

definition twice :: "u128 \<Rightarrow> bool" where
  "twice n \<longleftrightarrow> 2 ^ 253 \<le> (uint n)\<^sup>2"

lemma log2_round_exact:
  assumes "2 ^ 126 \<le> uint n" "uint n < 2 ^ 127" "log2_round (n, f) b = (n', f')"
  shows "uint n' = (uint n)\<^sup>2 div 2 ^ (if twice n then 127 else 126)"
    "f' = (if twice n then f OR push_bit b 1 else f)"
proof -
  note r = square_range [OF assms(1,2)]
  obtain a b' c d where sq: "square_u128 n = (a, b', c, d)" by (metis prod_cases4)
  have "bit d 61 \<longleftrightarrow> bit (limbs_value (square_u128 n)) 253" by (simp add: sq bit_limbs)
  also have "\<dots> \<longleftrightarrow> twice n"
    unfolding square_exact twice_def using r by (intro bit_253) simp_all
  finally have two: "(snd (snd (snd (square_u128 n))) AND push_bit 61 1 \<noteq> 0) = twice n"
    by (simp only: sq snd_conv test_bit_mask)
  have "f' = (if twice n then f OR push_bit b 1 else f)"
    "n' = shift_product_right (square_u128 n) (if twice n then 127 else 126)"
    using assms(3) two by (auto simp: log2_round_def Let_def split: if_splits)
  moreover have "uint (shift_product_right (square_u128 n) 127) = (uint n)\<^sup>2 div 2 ^ 127"
    using shift_square [of 63 n] r by simp
  moreover have "uint (shift_product_right (square_u128 n) 126) = (uint n)\<^sup>2 div 2 ^ 126"
    using shift_square [of 62 n] r by simp
  ultimately show "uint n' = (uint n)\<^sup>2 div 2 ^ (if twice n then 127 else 126)"
    "f' = (if twice n then f OR push_bit b 1 else f)" by simp_all
qed

lemma div_close:
  fixes S D K :: int
  assumes "0 < D" "0 < K" "K \<le> S div D"
  shows "real_of_int (S div D) \<le> S / D" "S / D \<le> real_of_int (S div D) * (1 + 1 / K)"
proof -
  show "real_of_int (S div D) \<le> S / D" by (rule real_of_int_div4)
  have "S / D \<le> real_of_int (S div D) + 1"
    using assms(1) real_of_int_div3 [of S D] by linarith
  also have "1 \<le> real_of_int (S div D) / K"
    using assms(2,3) by (simp add: field_simps)
  finally show "S / D \<le> real_of_int (S div D) * (1 + 1 / K)" by (simp add: field_simps)
qed

definition mantissa :: "u128 \<Rightarrow> real" where
  "mantissa n = real_of_int (uint n) / 2 ^ 126"

lemma mantissa_nonneg: "0 \<le> mantissa n"
  unfolding mantissa_def by (intro divide_nonneg_pos) (simp_all only: of_int_0_le_iff uint_ge_0, simp)

lemma log2_round_mantissa:
  assumes "2 ^ 126 \<le> uint n" "uint n < 2 ^ 127" "log2_round (n, f) b = (n', f')"
  shows "2 ^ 126 \<le> uint n'" "uint n' < 2 ^ 127"
    "mantissa n' * 2 ^ of_bool (twice n) \<le> (mantissa n)\<^sup>2"
    "(mantissa n)\<^sup>2 \<le> mantissa n' * 2 ^ of_bool (twice n) * (1 + 1 / 2 ^ 126)"
proof -
  define S D where "S = (uint n)\<^sup>2" and "D = (2 :: int) ^ (126 + of_bool (twice n))"
  have r: "2 ^ 252 \<le> S" "S < 2 ^ 254" unfolding S_def by (rule square_range [OF assms(1,2)])+
  have n': "uint n' = S div D"
    unfolding log2_round_exact(1) [OF assms] S_def D_def by simp
  have lower: "2 ^ 126 * D \<le> S" and upper: "S < 2 ^ 127 * D"
    using r by (auto simp: D_def S_def twice_def)
  show range: "2 ^ 126 \<le> uint n'" "uint n' < 2 ^ 127"
    unfolding n' by (rule div_above [OF lower] div_below [OF upper]; simp add: D_def)+
  have close: "real_of_int (S div D) \<le> S / D" "S / D \<le> real_of_int (S div D) * (1 + 1 / 2 ^ 126)"
    using div_close [of D "2 ^ 126" S] range(1) unfolding n' by (simp_all add: D_def)
  have eq: "(mantissa n)\<^sup>2 = S / D / 2 ^ 126 * 2 ^ of_bool (twice n)"
    by (simp add: mantissa_def S_def D_def power2_eq_square power_add)
  show "mantissa n' * 2 ^ of_bool (twice n) \<le> (mantissa n)\<^sup>2"
    unfolding eq unfolding mantissa_def n'
    using close(1) by (intro mult_right_mono divide_right_mono) simp_all
  have "S / D / 2 ^ 126 * 2 ^ of_bool (twice n)
      \<le> real_of_int (S div D) * (1 + 1 / 2 ^ 126) / 2 ^ 126 * 2 ^ of_bool (twice n)"
    using close(2) by (intro mult_right_mono divide_right_mono) simp_all
  then show "(mantissa n)\<^sup>2 \<le> mantissa n' * 2 ^ of_bool (twice n) * (1 + 1 / 2 ^ 126)"
    unfolding eq unfolding mantissa_def n' by (simp add: mult_ac)
qed

lemma add_low_bit:
  fixes f :: u64
  assumes "uint f = F * 2 ^ Suc j" "j < 64"
  shows "uint (f OR push_bit j 1) = (2 * F + 1) * 2 ^ j"
proof -
  have "\<not> bit (uint f) j" unfolding assms(1) by (simp add: bit_iff_odd)
  then have "uint f OR 2 ^ j = uint f + 2 ^ j" using assms
    by (intro disjunctive_add [symmetric]) (auto simp: bit_simps)
  moreover have "uint (push_bit j 1 :: u64) = 2 ^ j" using assms(2)
    by (simp only: unsigned_push_bit_eq) (simp add: push_bit_of_1 take_bit_of_exp)
  ultimately show ?thesis using assms(1) by (simp add: unsigned_or_eq algebra_simps)
qed

section \<open>The logarithm\<close>

lemma square_step:
  fixes m m' Y A :: real
  assumes "0 \<le> m" "1 \<le> A" "m * 2 ^ F \<le> Y" "Y \<le> m * 2 ^ F * A ^ e"
    "m' * 2 ^ b \<le> m\<^sup>2" "m\<^sup>2 \<le> m' * 2 ^ b * A"
  shows "m' * 2 ^ (2 * F + b) \<le> Y\<^sup>2" "Y\<^sup>2 \<le> m' * 2 ^ (2 * F + b) * A ^ (2 * e + 1)"
proof -
  have pos: "0 \<le> m * 2 ^ F" using assms(1) by simp
  have sq: "(m * 2 ^ F)\<^sup>2 = m\<^sup>2 * 2 ^ (2 * F)" by (simp add: power_mult_distrib power_mult [symmetric] mult.commute)
  have "m' * 2 ^ (2 * F + b) = m' * 2 ^ b * 2 ^ (2 * F)" by (simp add: power_add)
  also have "\<dots> \<le> m\<^sup>2 * 2 ^ (2 * F)" using assms(5) by (intro mult_right_mono) simp_all
  also have "\<dots> \<le> Y\<^sup>2" unfolding sq [symmetric] using pos assms(3) by (intro power_mono)
  finally show "m' * 2 ^ (2 * F + b) \<le> Y\<^sup>2" .
  have "Y\<^sup>2 \<le> (m * 2 ^ F * A ^ e)\<^sup>2" using pos assms(3,4) by (intro power_mono) linarith+
  also have "\<dots> = m\<^sup>2 * (2 ^ (2 * F) * A ^ (2 * e))"
    by (simp add: power_mult_distrib power_mult [symmetric] mult.commute)
  also have "\<dots> \<le> m' * 2 ^ b * A * (2 ^ (2 * F) * A ^ (2 * e))"
    using assms(2,6) by (intro mult_right_mono) simp_all
  finally show "Y\<^sup>2 \<le> m' * 2 ^ (2 * F + b) * A ^ (2 * e + 1)" by (simp add: power_add mult_ac)
qed

definition log2_inv :: "real \<Rightarrow> nat \<Rightarrow> u128 \<times> u64 \<Rightarrow> nat \<Rightarrow> bool" where
  "log2_inv X k acc F \<longleftrightarrow>
     2 ^ 126 \<le> uint (fst acc) \<and> uint (fst acc) < 2 ^ 127 \<and>
     uint (snd acc) = int F * 2 ^ (64 - k) \<and>
     mantissa (fst acc) * 2 ^ F \<le> X ^ (2 ^ k) \<and>
     X ^ (2 ^ k) \<le> mantissa (fst acc) * 2 ^ F * (1 + 1 / 2 ^ 126) ^ (2 ^ k - 1)"

lemma log2_inv_step:
  assumes "log2_inv X k acc F" "k < 64"
  shows "log2_inv X (Suc k) (log2_round acc (63 - k)) (2 * F + of_bool (twice (fst acc)))"
proof -
  obtain n f where acc: "acc = (n, f)" by (cases acc)
  obtain n' f' where r: "log2_round (n, f) (63 - k) = (n', f')" by (cases "log2_round (n, f) (63 - k)")
  define A :: real where "A = 1 + 1 / 2 ^ 126"
  define b :: nat where "b = of_bool (twice n)"
  from assms(1) have i: "2 ^ 126 \<le> uint n" "uint n < 2 ^ 127" "uint f = int F * 2 ^ (64 - k)"
    "mantissa n * 2 ^ F \<le> X ^ (2 ^ k)" "X ^ (2 ^ k) \<le> mantissa n * 2 ^ F * A ^ (2 ^ k - 1)"
    unfolding log2_inv_def acc A_def by simp_all
  note m = log2_round_mantissa [OF i(1,2) r]
  have A: "1 \<le> A" by (simp add: A_def)
  have pos: "0 \<le> mantissa n" by (rule mantissa_nonneg)
  have e: "2 * (2 ^ k - 1) + 1 = 2 ^ Suc k - (1 :: nat)"
    by (cases "(2 :: nat) ^ k") simp_all
  have Y: "(X ^ (2 ^ k))\<^sup>2 = X ^ (2 ^ Suc k)" by (simp add: power_mult [symmetric] mult.commute)
  note s = square_step [OF pos A i(4,5) m(3) m(4) [folded A_def], unfolded e Y]
  have j: "64 - k = Suc (63 - k)" "63 - k < 64" "64 - Suc k = 63 - k" using assms(2) by simp_all
  have "uint f' = int (2 * F + b) * 2 ^ (63 - k)"
    unfolding log2_round_exact(2) [OF i(1,2) r] b_def
    using i(3) add_low_bit [of f "int F" "63 - k"] j by simp
  then show ?thesis
    unfolding acc r log2_inv_def A_def [symmetric] using m(1,2) s j(3) by (simp add: b_def)
qed

lemma log2_inv_loop:
  assumes "log2_inv X 0 acc 0" "k \<le> 64"
  shows "\<exists>F. log2_inv X k (foldl log2_round acc (map (\<lambda>i. 63 - i) [0..<k])) F"
  using assms(2)
proof (induction k)
  case 0
  then show ?case using assms(1) by auto
next
  case (Suc k)
  then obtain F where "log2_inv X k (foldl log2_round acc (map (\<lambda>i. 63 - i) [0..<k])) F" by auto
  from log2_inv_step [OF this] Suc.prems show ?case by auto
qed

lemma rounds_order: "rev [0..<64] = map (\<lambda>i. 63 - i) [0..<64]"
  by code_simp

lemma error_bound:
  fixes a :: real
  assumes "0 \<le> a" "a \<le> 1" "real e * a \<le> 1 / 2"
  shows "(1 + a) ^ e \<le> 2"
proof -
  have "1 / 2 \<le> (1 - a) ^ e" using Bernoulli_inequality [of "- a" e] assms by simp
  moreover have "(1 + a) ^ e * (1 - a) ^ e \<le> 1"
  proof -
    have "(1 + a) * (1 - a) \<le> 1" "0 \<le> (1 + a) * (1 - a)" using assms(1,2) by (simp_all add: algebra_simps mult_le_one)
    then show ?thesis unfolding power_mult_distrib [symmetric] by (intro power_le_one)
  qed
  moreover have "0 \<le> (1 + a) ^ e" using assms(1) by simp
  ultimately have "(1 + a) ^ e * (1 / 2) \<le> 1" by (meson mult_left_mono order_trans)
  then show ?thesis by simp
qed

lemma mantissa_range:
  assumes "2 ^ 126 \<le> uint n" "uint n < 2 ^ 127"
  shows "1 \<le> mantissa n" "mantissa n < 2"
proof -
  have "real_of_int (2 ^ 126) \<le> real_of_int (uint n)" "real_of_int (uint n) < real_of_int (2 ^ 127)"
    using assms by (simp_all only: of_int_le_iff of_int_less_iff)
  then show "1 \<le> mantissa n" "mantissa n < 2" unfolding mantissa_def by (simp_all add: field_simps)
qed

lemma log2_of_power:
  assumes "2 ^ F \<le> X ^ N" "X ^ N < (2 :: real) ^ (F + 2)" "0 < X"
  shows "real F \<le> real N * log 2 X" "real N * log 2 X < real F + 2"
proof -
  have "log 2 (X ^ N) = real N * log 2 X" using assms(3) by (simp add: log_nat_power)
  moreover have "log 2 (2 ^ F) \<le> log 2 (X ^ N)" using assms(1,3) by (subst log_le_cancel_iff) simp_all
  moreover have "log 2 (X ^ N) < log 2 (2 ^ (F + 2))" using assms(2,3) by (subst log_less_cancel_iff) simp_all
  moreover have "log 2 (2 ^ F) = real F" "log 2 (2 ^ (F + 2)) = real (F + 2)"
    by (rule log_pow_cancel; simp)+
  ultimately show "real F \<le> real N * log 2 X" "real N * log 2 X < real F + 2" by simp_all
qed

lemma fractional_log2_bound:
  assumes "2 ^ 126 \<le> uint n" "uint n < 2 ^ 127"
  defines "F \<equiv> real_of_int (uint (snd (foldl log2_round (n, 0) (rev [0..<64]))))"
  shows "F \<le> 2 ^ 64 * log 2 (mantissa n)" "2 ^ 64 * log 2 (mantissa n) < F + 2"
proof -
  define a :: real where "a = 1 / 2 ^ 126"
  define N :: nat where "N = 2 ^ 64"
  have "log2_inv (mantissa n) 0 (n, 0) 0" using assms(1,2) by (simp add: log2_inv_def)
  from log2_inv_loop [OF this order_refl] obtain G where
    inv: "log2_inv (mantissa n) 64 (foldl log2_round (n, 0) (rev [0..<64])) G"
    unfolding rounds_order by blast
  define m where "m = fst (foldl log2_round (n, 0) (rev [0..<64]))"
  have G: "F = real G" using inv unfolding log2_inv_def F_def by simp
  have b: "mantissa m * 2 ^ G \<le> mantissa n ^ N" "mantissa n ^ N \<le> mantissa m * 2 ^ G * (1 + a) ^ (N - 1)"
    "2 ^ 126 \<le> uint m" "uint m < 2 ^ 127"
    using inv unfolding log2_inv_def a_def N_def m_def by blast+
  have m: "1 \<le> mantissa m" "mantissa m < 2" by (rule mantissa_range [OF b(3,4)])+
  have "real (N - 1) * a \<le> 1 / 2"
  proof -
    have "real (N - 1) * a \<le> real N * a" by (intro mult_right_mono) (simp_all add: a_def)
    also have "\<dots> \<le> 1 / 2" by (simp add: N_def a_def)
    finally show ?thesis .
  qed
  then have err: "(1 + a) ^ (N - 1) \<le> 2" by (intro error_bound) (simp_all add: a_def)
  have "1 * 2 ^ G \<le> mantissa m * 2 ^ G" using m(1) by (intro mult_right_mono) simp_all
  then have lower: "2 ^ G \<le> mantissa n ^ N" using b(1) by linarith
  have "mantissa m * 2 ^ G * (1 + a) ^ (N - 1) \<le> mantissa m * 2 ^ G * 2"
    using err m(1) by (intro mult_left_mono) simp_all
  also have "\<dots> < 2 * 2 ^ G * 2" using m(2) by simp
  also have "\<dots> = 2 ^ (G + 2)" by (simp add: power_add)
  finally have upper: "mantissa n ^ N < 2 ^ (G + 2)" using b(2) by linarith
  have "0 < mantissa n" using mantissa_range(1) [OF assms(1,2)] by linarith
  from log2_of_power [OF lower upper this]
  show "F \<le> 2 ^ 64 * log 2 (mantissa n)" "2 ^ 64 * log 2 (mantissa n) < F + 2"
    unfolding G N_def by simp_all
qed

section \<open>The denominators\<close>

lemma uint_shift_left:
  fixes x :: u128
  assumes "uint x * 2 ^ n < 2 ^ 128"
  shows "uint (push_bit n x) = uint x * 2 ^ n"
  using assms by (simp only: unsigned_push_bit_eq) (simp add: push_bit_eq_mult take_bit_int_eq_self)

lemma numerator_eq: "uint (push_bit 1 (ucast (r :: u64) :: u128) OR 1) = 2 * uint r + 1"
proof -
  have b: "uint r < 2 ^ 64" using uint_bounded [of r] by simp
  have "uint (push_bit 1 (ucast r :: u128)) = 2 * uint r"
    using b uint_shift_left [of "ucast r" 1] by (simp add: uint_wide)
  then have "uint (push_bit 1 (ucast r :: u128) OR 1) = (2 * uint r) OR 1"
    by (simp add: unsigned_or_eq)
  also have "\<dots> = 2 * uint r + 1" by (simp add: or_one_eq)
  finally show ?thesis .
qed

text \<open>The exact score of a hash value, in units of \<open>2 ^ -64\<close>.\<close>

definition exact_score :: "u64 \<Rightarrow> real" where
  "exact_score r = - log 2 ((2 * real_of_int (uint r) + 1) / 2 ^ 65) * 2 ^ 64"

lemma normalized_eq:
  fixes x :: u128
  assumes "2 ^ k \<le> uint x" "uint x < 2 ^ Suc k" "k \<le> 64"
  shows "uint (push_bit (126 - k) x) = uint x * 2 ^ (126 - k)"
    "2 ^ 126 \<le> uint (push_bit (126 - k) x)" "uint (push_bit (126 - k) x) < 2 ^ 127"
    "mantissa (push_bit (126 - k) x) = real_of_int (uint x) / 2 ^ k"
proof -
  have p: "(2 :: int) ^ k * 2 ^ (126 - k) = 2 ^ 126" "(2 :: int) ^ Suc k * 2 ^ (126 - k) = 2 ^ 127"
    using assms(3) by (simp_all flip: power_add)
  have b: "2 ^ 126 \<le> uint x * 2 ^ (126 - k)" "uint x * 2 ^ (126 - k) < 2 ^ 127"
    using assms(1,2) unfolding p [symmetric] by (intro mult_right_mono mult_strict_right_mono; simp)+
  show e: "uint (push_bit (126 - k) x) = uint x * 2 ^ (126 - k)"
    using b(2) by (intro uint_shift_left) simp
  show "2 ^ 126 \<le> uint (push_bit (126 - k) x)" "uint (push_bit (126 - k) x) < 2 ^ 127"
    using b unfolding e .
  have q: "(2 :: real) ^ 126 = 2 ^ k * 2 ^ (126 - k)" using assms(3) by (simp flip: power_add)
  show "mantissa (push_bit (126 - k) x) = real_of_int (uint x) / 2 ^ k"
    unfolding mantissa_def e q by simp
qed

lemma rounded_up_eq:
  fixes f :: u64
  assumes "1 \<le> e" "e \<le> 65"
  shows "uint (push_bit 64 (of_nat e :: u128) - ucast f) = int e * 2 ^ 64 - uint f"
proof -
  have e: "uint (of_nat e :: u128) = int e" using assms by (simp add: unsigned_of_nat take_bit_nat_eq_self_iff)
  have p: "uint (push_bit 64 (of_nat e :: u128)) = int e * 2 ^ 64"
    using assms uint_shift_left [of "of_nat e" 64] unfolding e by simp
  have "uint f < 2 ^ 64" using uint_bounded [of f] by simp
  then have "uint (ucast f :: u128) \<le> uint (push_bit 64 (of_nat e :: u128))"
    using mult_right_mono [of 1 "int e" "2 ^ 64"] assms(1) unfolding p uint_wide by simp
  then show ?thesis using uint_sub_lem [of "ucast f" "push_bit 64 (of_nat e) :: u128"] p by (simp add: uint_wide)
qed

lemma uint_pred: "1 \<le> uint (w :: u128) \<Longrightarrow> uint (saturating_sub w 1) = uint w - 1"
  unfolding saturating_sub_def word_le_def using uint_sub_lem [of 1 w] by simp

lemma uint_max: "uint (max a b) = max (uint a) (uint (b :: u128))"
  by (simp add: max_def word_le_def)

definition normalized :: "u64 \<Rightarrow> nat \<Rightarrow> u128" where
  "normalized r k = push_bit (126 - k) (push_bit 1 (ucast r) OR 1)"

definition fraction :: "u64 \<Rightarrow> nat \<Rightarrow> u64" where
  "fraction r k = snd (foldl log2_round (normalized r k, 0) (rev [0..<64]))"

lemma numerator_interval:
  obtains k where "2 ^ k \<le> 2 * uint (r :: u64) + 1" "2 * uint r + 1 < 2 ^ Suc k" "k \<le> 64"
proof -
  obtain k where k: "2 ^ k \<le> 2 * uint r + 1" "2 * uint r + 1 < 2 ^ Suc k"
    by (rule power_interval [of "2 * uint r + 1"]) simp
  have "2 * uint r + 1 < 2 ^ 65" using uint_bounded [of r] by simp
  then have "(2 :: int) ^ k < 2 ^ 65" using k(1) by linarith
  from power_less_imp_less_exp [OF _ this] have "k \<le> 64" by simp
  then show thesis by (rule that [OF k])
qed

lemma negative_log2_eq:
  assumes "2 ^ k \<le> 2 * uint r + 1" "2 * uint r + 1 < 2 ^ Suc k" "k \<le> 64"
  defines "U \<equiv> int (65 - k) * 2 ^ 64 - uint (fraction r k)"
  shows "uint (negative_log2_q64 r) = max (if r = 0 then U else U - 1) 1" "1 \<le> U" "U \<le> 65 * 2 ^ 64"
proof -
  define x where "x = push_bit 1 (ucast r :: u128) OR 1"
  define W where "W = push_bit 64 (of_nat (65 - k) :: u128) - ucast (fraction r k)"
  have x: "uint x = 2 * uint r + 1" unfolding x_def by (rule numerator_eq)
  have lz: "128 - leading_zeros x = Suc k"
    using leading_zeros_eq [of k x] assms(1-3) unfolding x by simp
  have d: "66 - Suc k = 65 - k" "127 - Suc k = 126 - k" by simp_all
  have W: "uint W = U" unfolding U_def W_def using assms(3) by (intro rounded_up_eq) auto
  have "0 \<le> uint (fraction r k)" "uint (fraction r k) < 2 ^ 64"
    using uint_bounded [of "fraction r k"] by simp_all
  moreover have "1 * 2 ^ 64 \<le> int (65 - k) * 2 ^ 64" "int (65 - k) * 2 ^ 64 \<le> 65 * 2 ^ 64"
    using assms(3) by (intro mult_right_mono; simp)+
  ultimately show U1: "1 \<le> U" and "U \<le> 65 * 2 ^ 64" unfolding U_def by linarith+
  have one: "x = 1 \<longleftrightarrow> r = 0" using x by (auto simp: word_uint_eq_iff)
  have "negative_log2_q64 r = max (if x = 1 then W else saturating_sub W 1) 1"
    unfolding negative_log2_q64_def Let_def W_def fraction_def normalized_def
    by (simp only: x_def [symmetric] lz d)
  then show "uint (negative_log2_q64 r) = max (if r = 0 then U else U - 1) 1"
    using uint_pred [of W] U1 by (simp add: uint_max one W)
qed

lemma exact_score_eq:
  assumes "2 ^ k \<le> 2 * uint r + 1" "2 * uint r + 1 < 2 ^ Suc k" "k \<le> 64"
  shows "exact_score r = 2 ^ 64 * real (65 - k) - 2 ^ 64 * log 2 (mantissa (normalized r k))"
    "2 ^ 126 \<le> uint (normalized r k)" "uint (normalized r k) < 2 ^ 127"
proof -
  define x where "x = push_bit 1 (ucast r :: u128) OR 1"
  have x: "uint x = 2 * uint r + 1" unfolding x_def by (rule numerator_eq)
  note n = normalized_eq [of k x, unfolded x, OF assms, unfolded x_def, folded normalized_def]
  show "2 ^ 126 \<le> uint (normalized r k)" "uint (normalized r k) < 2 ^ 127" by (rule n(2,3))+
  have pos: "0 < real_of_int (2 * uint r + 1)" using uint_ge_0 [of r] by (simp only: of_int_0_less_iff)
  have "log 2 (real_of_int (2 * uint r + 1) / 2 ^ 65) = log 2 (real_of_int (2 * uint r + 1)) - 65"
    using pos log_pow_cancel [of 2 65] by (simp add: log_divide)
  moreover have "log 2 (mantissa (normalized r k)) = log 2 (real_of_int (2 * uint r + 1)) - real k"
    using pos log_pow_cancel [of 2 k] unfolding n(4) by (simp add: log_divide)
  moreover have "real (65 - k) = 65 - real k" using assms(3) by simp
  moreover have "exact_score r = - log 2 (real_of_int (2 * uint r + 1) / 2 ^ 65) * 2 ^ 64"
    unfolding exact_score_def by simp
  ultimately show "exact_score r = 2 ^ 64 * real (65 - k) - 2 ^ 64 * log 2 (mantissa (normalized r k))"
    by (simp add: algebra_simps)
qed

lemma exact_score_pos: "0 < exact_score r"
proof -
  have "real_of_int (2 * uint r + 1) < real_of_int (2 ^ 65)"
    using uint_bounded [of r] by (simp only: of_int_less_iff) simp
  moreover have "0 < real_of_int (2 * uint r + 1)" using uint_ge_0 [of r] by (simp only: of_int_0_less_iff)
  ultimately show ?thesis unfolding exact_score_def by (simp add: log_less_zero_cancel_iff)
qed

lemma negative_log2_close:
  "exact_score r - 1 \<le> real_of_int (uint (negative_log2_q64 r))"
  "real_of_int (uint (negative_log2_q64 r)) < exact_score r + 1"
proof -
  obtain k where k: "2 ^ k \<le> 2 * uint r + 1" "2 * uint r + 1 < 2 ^ Suc k" "k \<le> 64"
    by (rule numerator_interval)
  define U where "U = int (65 - k) * 2 ^ 64 - uint (fraction r k)"
  note u = negative_log2_eq [OF k, folded U_def] and e = exact_score_eq [OF k]
  note F = fractional_log2_bound [OF e(2,3), folded fraction_def]
  have R: "real_of_int U = 2 ^ 64 * real (65 - k) - real_of_int (uint (fraction r k))"
    unfolding U_def by simp
  have b: "exact_score r \<le> real_of_int U" "real_of_int U - 2 < exact_score r"
    using F unfolding e(1) R by linarith+
  have zero: "U = 65 * 2 ^ 64 \<and> exact_score r = 65 * 2 ^ 64" if "r = 0"
  proof -
    have ex: "exact_score r = 65 * 2 ^ 64"
      unfolding exact_score_def using that log_pow_cancel [of 2 65] by (simp add: log_divide)
    then show ?thesis using b(1) u(3) by simp
  qed
  show "exact_score r - 1 \<le> real_of_int (uint (negative_log2_q64 r))"
    "real_of_int (uint (negative_log2_q64 r)) < exact_score r + 1"
    using b u(1,2) zero exact_score_pos [of r] by (auto simp: max_def split: if_splits)
qed

lemma negative_log2_range:
  "1 \<le> uint (negative_log2_q64 r)" "uint (negative_log2_q64 r) \<le> 65 * 2 ^ 64"
proof -
  obtain k where k: "2 ^ k \<le> 2 * uint r + 1" "2 * uint r + 1 < 2 ^ Suc k" "k \<le> 64"
    by (rule numerator_interval)
  from negative_log2_eq [OF k]
  show "1 \<le> uint (negative_log2_q64 r)" "uint (negative_log2_q64 r) \<le> 65 * 2 ^ 64"
    by (auto simp: max_def split: if_splits)
qed

section \<open>Ranking\<close>

definition proper :: "ScoredNode \<Rightarrow> bool" where
  "proper s \<longleftrightarrow> 1 \<le> uint (denominator s) \<and> uint (denominator s) \<le> 65 * 2 ^ 64"

definition score :: "ScoredNode \<Rightarrow> real" where
  "score s = real_of_int (uint (weight_millionths (scored_node s))) / real_of_int (uint (denominator s))"

definition rank_key :: "ScoredNode \<Rightarrow> real \<times> NodeId" where
  "rank_key s = (- score s, pn_node_id (scored_node s))"

lemma uint_weight: "uint (ucast (w :: u32) :: u128) = uint w"
  by (rule uint_up_ucast) (simp add: is_up)

lemma cross_exact:
  assumes "proper s"
  shows "uint (ucast (w :: u32) * denominator s) = uint w * uint (denominator s)"
proof -
  have "uint w * uint (denominator s) \<le> 2 ^ 32 * (65 * 2 ^ 64)"
    using assms uint_bounded [of w] unfolding proper_def by (intro mult_mono) simp_all
  then show ?thesis by (intro u128_mult [of "ucast w" "denominator s", unfolded uint_weight]) simp
qed

lemma cross_less:
  assumes "proper l" "proper r"
  shows "uint (weight_millionths (scored_node r)) * uint (denominator l)
      < uint (weight_millionths (scored_node l)) * uint (denominator r) \<longleftrightarrow> score r < score l"
proof -
  have "0 < uint (denominator l)" "0 < uint (denominator r)"
    using assms by (auto simp: proper_def)
  then have pos: "0 < real_of_int (uint (denominator l))" "0 < real_of_int (uint (denominator r))"
    by (simp_all only: of_int_0_less_iff)
  have frac: "a / q < b / p \<longleftrightarrow> a * p < b * q" if "0 < p" "0 < q" for a b p q :: real
    using that by (simp add: field_simps)
  have "score r < score l \<longleftrightarrow>
      real_of_int (uint (weight_millionths (scored_node r)) * uint (denominator l))
      < real_of_int (uint (weight_millionths (scored_node l)) * uint (denominator r))"
    unfolding score_def frac [OF pos] of_int_mult ..
  then show ?thesis by (simp only: of_int_less_iff)
qed

lemma compare_score_key:
  assumes "proper l" "proper r"
  shows "compare_score l r = cmp (rank_key l) (rank_key r)"
proof -
  define a where "a = uint (weight_millionths (scored_node l)) * uint (denominator r)"
  define b where "b = uint (weight_millionths (scored_node r)) * uint (denominator l)"
  have less: "b < a \<longleftrightarrow> score r < score l" "a < b \<longleftrightarrow> score l < score r"
    unfolding a_def b_def using cross_less [OF assms] cross_less [OF assms(2,1)] by simp_all
  then have eq: "b = a \<longleftrightarrow> score l = score r" by (metis less_irrefl linorder_neq_iff)
  have "cmp (ucast (weight_millionths (scored_node r)) * denominator l)
      (ucast (weight_millionths (scored_node l)) * denominator r :: u128) = cmp b a"
    unfolding cmp_def word_less_def word_uint_eq_iff cross_exact [OF assms(1)] cross_exact [OF assms(2)]
      a_def b_def ..
  then show ?thesis
    unfolding compare_score_def Let_def by (auto simp: cmp_def rank_key_def less eq)
qed

lemma insert_by_key:
  assumes "\<And>y. y \<in> set ys \<Longrightarrow> f x y = cmp (key x) (key y)"
  shows "insert_by f x ys = insort_key key x ys"
  using assms by (induction ys) (auto simp: cmp_def)

lemma sort_by_key:
  assumes "\<And>x y. x \<in> set xs \<Longrightarrow> y \<in> set xs \<Longrightarrow> f x y = cmp (key x) (key y)"
  shows "sort_by f xs = sort_key key xs"
  using assms
proof (induction xs)
  case (Cons x xs)
  then have "sort_by f xs = sort_key key xs" by simp
  then show ?case
    using Cons.prems insert_by_key [of "sort_key key xs" f x key] by (simp add: sort_by_def)
qed (simp add: sort_by_def)

lemma map_sort_key:
  "sort_key f (map g xs) = map g (sort_key (f \<circ> g) xs)"
proof -
  have "insort_key f (g x) (map g ys) = map g (insort_key (f \<circ> g) x ys)" for x ys
    by (induction ys) simp_all
  then show ?thesis by (induction xs) simp_all
qed

definition node_key ::
    "DeriveKey \<Rightarrow> PlacementKind \<Rightarrow> ClusterId \<Rightarrow> u8 list \<Rightarrow> PlacementNode \<Rightarrow> real \<times> NodeId" where
  "node_key blake3 kind cluster key node = rank_key \<lparr>scored_node = node,
     denominator = score_denominator blake3 kind cluster key (pn_node_id node)\<rparr>"

lemma rank_nodes_sort: "rank_nodes blake3 kind cluster key nodes = sort_key (node_key blake3 kind cluster key) nodes"
proof -
  let ?s = "\<lambda>node. \<lparr>scored_node = node,
     denominator = score_denominator blake3 kind cluster key (pn_node_id node)\<rparr>"
  have "proper (?s node)" for node
    by (simp only: proper_def ScoredNode.select_convs score_denominator_def negative_log2_range simp_thms)
  then have "sort_by compare_score (map ?s nodes) = sort_key rank_key (map ?s nodes)"
    by (intro sort_by_key compare_score_key) auto
  moreover have "rank_key \<circ> ?s = node_key blake3 kind cluster key"
    by (simp add: fun_eq_iff node_key_def)
  ultimately show ?thesis unfolding rank_nodes_def by (simp add: map_sort_key comp_def)
qed

lemma node_key_leD:
  assumes "node_key blake3 kind cluster key a \<le> node_key blake3 kind cluster key b"
  shows "uint (weight_millionths b) * uint (score_denominator blake3 kind cluster key (pn_node_id a))
      < uint (weight_millionths a) * uint (score_denominator blake3 kind cluster key (pn_node_id b)) \<or>
    uint (weight_millionths b) * uint (score_denominator blake3 kind cluster key (pn_node_id a))
      = uint (weight_millionths a) * uint (score_denominator blake3 kind cluster key (pn_node_id b)) \<and>
    pn_node_id a \<le> pn_node_id b"
proof -
  let ?s = "\<lambda>node. \<lparr>scored_node = node,
     denominator = score_denominator blake3 kind cluster key (pn_node_id node)\<rparr>"
  have p: "proper (?s node)" for node
    by (simp only: proper_def ScoredNode.select_convs score_denominator_def negative_log2_range simp_thms)
  note less = cross_less [OF p p, of b a, simplified] cross_less [OF p p, of a b, simplified]
  from assms have "score (?s b) < score (?s a) \<or> score (?s b) = score (?s a) \<and> pn_node_id a \<le> pn_node_id b"
    by (auto simp: node_key_def rank_key_def less_eq_prod_def)
  then show ?thesis unfolding less [symmetric] using less by (metis less_irrefl linorder_neqE)
qed

lemma inj_node_key: "distinct (map pn_node_id nodes) \<Longrightarrow> inj_on (node_key blake3 kind cluster key) (set nodes)"
  unfolding distinct_map by (auto simp: inj_on_def node_key_def rank_key_def)

lemma sort_key_subset:
  assumes "inj_on f (set xs)" "distinct xs" "distinct ys" "set ys \<subseteq> set xs"
  shows "sort_key f ys = filter (\<lambda>x. x \<in> set ys) (sort_key f xs)"
proof -
  let ?zs = "filter (\<lambda>x. x \<in> set ys) (sort_key f xs)"
  have inj: "inj_on f (set ys)" using assms(1,4) by (rule inj_on_subset)
  have set: "set ?zs = set ys" using assms(4) by auto
  have "map f (sort_key f ys) = map f ?zs"
  proof (rule sorted_distinct_set_unique)
    show "sorted (map f (sort_key f ys))" by (rule sorted_sort_key)
    show "distinct (map f (sort_key f ys))" using inj assms(3) by (simp add: distinct_map)
    show "sorted (map f ?zs)" by (intro sorted_filter) simp
    show "distinct (map f ?zs)" using inj assms(2) by (simp add: distinct_map set del: set_filter)
    show "set (map f (sort_key f ys)) = set (map f ?zs)" by (simp add: set del: set_filter)
  qed
  then show ?thesis using inj by (intro map_inj_on [of f]) (simp_all add: set del: set_filter)
qed

section \<open>Claims\<close>

text \<open>C34. Adding or removing nodes never reorders the others: ranking any part of the cluster gives
  the ranking of the whole restricted to that part, in whatever order the nodes are listed. In
  particular every node of the cluster computes the same ranking.\<close>

theorem rank_restricts:
  assumes "distinct (map pn_node_id nodes)" "distinct part" "set part \<subseteq> set nodes"
  shows "rank_nodes blake3 kind cluster key part
    = filter (\<lambda>node. node \<in> set part) (rank_nodes blake3 kind cluster key nodes)"
  unfolding rank_nodes_sort
  using assms inj_node_key by (intro sort_key_subset) (auto simp: distinct_map)

definition ex_node :: "u64 \<Rightarrow> u32 \<Rightarrow> PlacementNode" where
  "ex_node i w = \<lparr>pn_node_id = i, weight_millionths = w\<rparr>"

theorem rank_restricts_witness:
  "rank_nodes (\<lambda>_ bytes. rev bytes) ObjectPlacement 7 [1, 2] [ex_node 3 500000, ex_node 1 1000000]
    = filter (\<lambda>node. node \<in> set [ex_node 3 500000, ex_node 1 1000000])
        (rank_nodes (\<lambda>_ bytes. rev bytes) ObjectPlacement 7 [1, 2]
           [ex_node 1 1000000, ex_node 2 2000000, ex_node 3 500000])"
  by (rule rank_restricts) (simp_all add: ex_node_def)

text \<open>C35. The ranking is by exact weighted scores: it is a permutation of the nodes in which the
  quotient of weight and denominator never increases, compared as mathematical integers, since the
  cross products of the code cannot overflow; nodes with equal scores are in the order of their
  identities.\<close>

theorem rank_by_score:
  "mset (rank_nodes blake3 kind cluster key nodes) = mset nodes \<and>
   sorted_wrt (\<lambda>a b.
     let da = uint (score_denominator blake3 kind cluster key (pn_node_id a));
         db = uint (score_denominator blake3 kind cluster key (pn_node_id b));
         wa = uint (weight_millionths a); wb = uint (weight_millionths b)
     in wb * da < wa * db \<or> (wb * da = wa * db \<and> pn_node_id a \<le> pn_node_id b))
     (rank_nodes blake3 kind cluster key nodes)"
proof
  show "mset (rank_nodes blake3 kind cluster key nodes) = mset nodes"
    unfolding rank_nodes_sort by simp
  have "sorted_wrt (\<lambda>a b. node_key blake3 kind cluster key a \<le> node_key blake3 kind cluster key b)
      (rank_nodes blake3 kind cluster key nodes)"
    using sorted_sort_key [of "node_key blake3 kind cluster key" nodes]
    unfolding rank_nodes_sort sorted_map .
  then show "sorted_wrt (\<lambda>a b.
     let da = uint (score_denominator blake3 kind cluster key (pn_node_id a));
         db = uint (score_denominator blake3 kind cluster key (pn_node_id b));
         wa = uint (weight_millionths a); wb = uint (weight_millionths b)
     in wb * da < wa * db \<or> (wb * da = wa * db \<and> pn_node_id a \<le> pn_node_id b))
     (rank_nodes blake3 kind cluster key nodes)"
    by (rule sorted_wrt_mono_rel [rotated]) (unfold Let_def, rule node_key_leD)
qed

text \<open>C36. The integer logarithm is accurate: the denominator computed in 64 rounds differs from
  \<open>- log2 H\<close>, in units of \<open>2 ^ -64\<close>, by at most one, and it lies between one and
  \<open>65 * 2 ^ 64\<close>, so that it is never zero.\<close>

theorem log_accurate:
  "exact_score r - 1 \<le> real_of_int (uint (negative_log2_q64 r)) \<and>
   real_of_int (uint (negative_log2_q64 r)) < exact_score r + 1 \<and>
   1 \<le> uint (negative_log2_q64 r) \<and> uint (negative_log2_q64 r) \<le> 65 * 2 ^ 64"
  using negative_log2_close negative_log2_range by blast

text \<open>C37. The square of a 128-bit number computed from 64-bit limbs is the mathematical square, and
  the two shifts of it that the logarithm uses are its exact quotients, cut to 128 bits.\<close>

theorem wide_square_exact:
  "limbs_value (square_u128 v) = (uint v)\<^sup>2 \<and>
   uint (shift_product_right (square_u128 v) 126) = (uint v)\<^sup>2 div 2 ^ 126 mod 2 ^ 128 \<and>
   uint (shift_product_right (square_u128 v) 127) = (uint v)\<^sup>2 div 2 ^ 127 mod 2 ^ 128"
  using shift_exact [of 62 "square_u128 v"] shift_exact [of 63 "square_u128 v"]
  by (simp add: square_exact drop_bit_eq_div take_bit_eq_mod)

end
