(* ===== verification/Serving_Lease.thy ===== *)
theory Serving_Lease
  imports Decision_State Complex_Main
begin

text \<open>
  Serving leases, \<^verbatim>\<open>keldra-consensus/src/serving_lease.rs\<close>, with the quorum proof of
  \<^verbatim>\<open>raft.rs\<close> they are issued from. A duration and a reading of the boot clock are nanoseconds;
  every reading of the clock, which may fail, and every answer of OpenRaft is an argument of the
  operation that asks for it. The Tokio locks around an operation make it one step.
\<close>

section \<open>Durations\<close>

type_synonym Duration = nat

definition DURATION_MAX :: Duration where
  "DURATION_MAX = (2 ^ 64 - 1) * 1000000000 + 999999999"

definition duration_checked_add :: "Duration \<Rightarrow> Duration \<Rightarrow> Duration option" where
  "duration_checked_add a b = (if a + b \<le> DURATION_MAX then Some (a + b) else None)"

definition duration_checked_sub :: "Duration \<Rightarrow> Duration \<Rightarrow> Duration option" where
  "duration_checked_sub a b = (if b \<le> a then Some (a - b) else None)"

definition SERVING_LEASE_MAX_LIFETIME :: Duration where
  "SERVING_LEASE_MAX_LIFETIME = 2000000000"

definition SERVING_LEASE_CUTOVER_WAIT :: Duration where
  "SERVING_LEASE_CUTOVER_WAIT = 3000000000"

definition LEADER_QUORUM_PROOF_MAX_AGE :: Duration where
  "LEADER_QUORUM_PROOF_MAX_AGE = 500000000"

section \<open>Data\<close>

datatype DecisionRaftError =
    InvalidNodeId
  | Configuration string
  | Storage string
  | Rejected ApplyError
  | ForwardToLeader "u64 option" "string option"
  | Unavailable string
  | LeaderTimeout
  | SnapshotTimeout
  | StatePoisoned

type_synonym clock_reading = "DecisionRaftError + Duration"

record LeaderQuorumProof =
  proof_raft_term :: u64
  confirmed_at :: Duration

record ServingLeaseRequest =
  req_cluster_id :: ClusterId
  req_placement :: LogId

record ServingLeaseGrant =
  grant_cluster_id :: ClusterId
  grant_raft_term :: u64
  grant_placement :: LogId
  maximum_local_lifetime :: Duration

record PendingServingLeaseRequest =
  pending_request :: ServingLeaseRequest
  requested_at :: Duration

record ServingLease =
  lease_cluster_id :: ClusterId
  lease_raft_term :: u64
  lease_placement :: LogId
  expires_at :: Duration

record ServingLeaseState =
  ls_cluster_id :: ClusterId
  ls_placement :: LogId
  highest_raft_term :: u64
  current_lease :: "ServingLease option"

record ServingLeaseIssuerIdentity =
  id_cluster_id :: ClusterId
  id_raft_term :: u64
  id_placement :: LogId

record ServingLeaseCutover =
  cutover_observed :: "(ServingLeaseIssuerIdentity \<times> Duration) option"

datatype ServingLeaseError =
    Consensus DecisionRaftError
  | LeaseClusterNotInitialized
  | ActivePlacementUnavailable
  | ClusterMismatch ClusterId ClusterId
  | ActivePlacementMismatch LogId LogId
  | GrantLifetimeTooLong Duration
  | RaftTermRegressed u64 u64
  | LeaderQuorumProofStale
  | GrantArrivedAfterExpiry
  | RequestSuperseded
  | CutoverInProgress
  | ClockRangeExceeded

section \<open>Quorum proofs\<close>

definition is_fresh :: "LeaderQuorumProof \<Rightarrow> clock_reading \<Rightarrow> bool" where
  "is_fresh p now =
     (case now of
        Inl _ \<Rightarrow> False
      | Inr t \<Rightarrow>
          (case duration_checked_sub t (confirmed_at p) of
             Some age \<Rightarrow> age \<le> LEADER_QUORUM_PROOF_MAX_AGE
           | None \<Rightarrow> False))"

text \<open>What one confirmation reads: the clock three times, the local leader term twice, the quorum.\<close>

record LeadershipReads =
  reuse_now :: clock_reading
  term_before :: "u64 option"
  started_now :: clock_reading
  linearizable :: "DecisionRaftError + LogId option"
  term_after :: "u64 option"
  checked_now :: clock_reading

definition renew_proof ::
    "LeadershipReads \<Rightarrow> (DecisionRaftError + LeaderQuorumProof) \<times> LeaderQuorumProof option" where
  "renew_proof reads =
     tryS (started_now reads) None (\<lambda>started.
     tryS (linearizable reads) None (\<lambda>read_log_id.
     tryS (ok_or (Unavailable ''leadership changed after quorum confirmation'') (term_after reads)) None
       (\<lambda>current_term.
     let raft_term = (case read_log_id of Some log_id \<Rightarrow> log_term log_id | None \<Rightarrow> current_term);
         p = \<lparr>proof_raft_term = raft_term, confirmed_at = started\<rparr> in
     tryS (ensure (current_term = raft_term)
             (Unavailable ''Raft term changed after quorum confirmation'')) None (\<lambda>_.
     tryS (ensure (is_fresh p (checked_now reads))
             (Unavailable ''leader quorum confirmation exceeded its 500 millisecond reuse window''))
       None (\<lambda>_.
     (Inr p, Some p))))))"

definition confirm_leadership ::
    "LeadershipReads \<Rightarrow> LeaderQuorumProof option \<Rightarrow>
       (DecisionRaftError + LeaderQuorumProof) \<times> LeaderQuorumProof option" where
  "confirm_leadership reads cached =
     (case cached of
        Some p \<Rightarrow>
          if is_fresh p (reuse_now reads) \<and> term_before reads = Some (proof_raft_term p)
          then (Inr p, cached) else renew_proof reads
      | None \<Rightarrow> renew_proof reads)"

section \<open>Recipients\<close>

definition lease_state_new :: "ClusterId \<Rightarrow> LogId \<Rightarrow> ServingLeaseState" where
  "lease_state_new cluster placement =
     \<lparr>ls_cluster_id = cluster, ls_placement = placement,
      highest_raft_term = log_term placement, current_lease = None\<rparr>"

definition begin_request ::
    "clock_reading \<Rightarrow> ServingLeaseState \<Rightarrow> ServingLeaseError + PendingServingLeaseRequest" where
  "begin_request now s =
     bindE (map_err Consensus now) (\<lambda>t.
     Inr \<lparr>pending_request = \<lparr>req_cluster_id = ls_cluster_id s, req_placement = ls_placement s\<rparr>,
           requested_at = t\<rparr>)"

definition set_active_placement :: "LogId \<Rightarrow> ServingLeaseState \<Rightarrow> ServingLeaseState" where
  "set_active_placement placement s =
     (if ls_placement s \<noteq> placement
      then s\<lparr>ls_placement := placement,
             highest_raft_term := max (highest_raft_term s) (log_term placement),
             current_lease := None\<rparr>
      else s)"

definition validate_request ::
    "ServingLeaseRequest \<Rightarrow> ServingLeaseRequest \<Rightarrow> ServingLeaseError + unit" where
  "validate_request received expected =
     bindE (ensure (req_cluster_id received = req_cluster_id expected)
              (ClusterMismatch (req_cluster_id expected) (req_cluster_id received))) (\<lambda>_.
     ensure (req_placement received = req_placement expected)
       (ActivePlacementMismatch (req_placement expected) (req_placement received)))"

definition validate_identity ::
    "ServingLeaseRequest \<Rightarrow> ServingLeaseGrant \<Rightarrow> ServingLeaseError + unit" where
  "validate_identity expected g =
     validate_request \<lparr>req_cluster_id = grant_cluster_id g, req_placement = grant_placement g\<rparr> expected"

definition accept_grant ::
    "clock_reading \<Rightarrow> PendingServingLeaseRequest \<Rightarrow> ServingLeaseGrant \<Rightarrow> ServingLeaseState \<Rightarrow>
       (ServingLeaseError + ServingLease) \<times> ServingLeaseState" where
  "accept_grant now pending g s =
     (let expected_request = \<lparr>req_cluster_id = ls_cluster_id s, req_placement = ls_placement s\<rparr> in
      tryS (ensure (pending_request pending = expected_request) RequestSuperseded) s (\<lambda>_.
      tryS (validate_identity expected_request g) s (\<lambda>_.
      tryS (ensure (maximum_local_lifetime g \<le> SERVING_LEASE_MAX_LIFETIME)
              (GrantLifetimeTooLong (maximum_local_lifetime g))) s (\<lambda>_.
      tryS (ensure (highest_raft_term s \<le> grant_raft_term g)
              (RaftTermRegressed (highest_raft_term s) (grant_raft_term g))) s (\<lambda>_.
      let s1 = (if highest_raft_term s \<noteq> grant_raft_term g
                then s\<lparr>highest_raft_term := grant_raft_term g, current_lease := None\<rparr> else s) in
      tryS (ok_or GrantArrivedAfterExpiry
              (duration_checked_add (requested_at pending) (maximum_local_lifetime g))) s1 (\<lambda>expiry.
      tryS (map_err Consensus now) s1 (\<lambda>t.
      tryS (ensure (t < expiry) GrantArrivedAfterExpiry) s1 (\<lambda>_.
      let candidate = \<lparr>lease_cluster_id = grant_cluster_id g, lease_raft_term = grant_raft_term g,
                       lease_placement = grant_placement g, expires_at = expiry\<rparr>;
          accepted = (case current_lease s1 of
                        Some current \<Rightarrow> if expires_at candidate \<le> expires_at current
                                        then current else candidate
                      | None \<Rightarrow> candidate) in
      (Inr accepted, s1\<lparr>current_lease := Some accepted\<rparr>)))))))))"

definition valid_lease :: "clock_reading \<Rightarrow> ServingLeaseState \<Rightarrow> ServingLease option" where
  "valid_lease now s =
     (case (current_lease s, now) of
        (Some lease, Inr t) \<Rightarrow>
          if lease_cluster_id lease = ls_cluster_id s \<and> lease_placement lease = ls_placement s
             \<and> t < expires_at lease
          then Some lease else None
      | _ \<Rightarrow> None)"

definition has_valid_lease :: "clock_reading \<Rightarrow> ServingLeaseState \<Rightarrow> bool" where
  "has_valid_lease now s \<longleftrightarrow> valid_lease now s \<noteq> None"

definition remaining_lifetime :: "clock_reading \<Rightarrow> ServingLease \<Rightarrow> Duration option" where
  "remaining_lifetime now lease =
     (case now of Inr t \<Rightarrow> duration_checked_sub (expires_at lease) t | Inl _ \<Rightarrow> None)"

section \<open>Issuers\<close>

definition permits ::
    "ServingLeaseIssuerIdentity \<Rightarrow> Duration \<Rightarrow> ServingLeaseCutover \<Rightarrow>
       (ServingLeaseError + bool) \<times> ServingLeaseCutover" where
  "permits identity now c =
     (let start = tryS (ok_or ClockRangeExceeded (duration_checked_add now SERVING_LEASE_CUTOVER_WAIT)) c
                    (\<lambda>ready_at. (Inr False, c\<lparr>cutover_observed := Some (identity, ready_at)\<rparr>)) in
      case cutover_observed c of
        Some (observed_id, ready_at) \<Rightarrow>
          if observed_id = identity then (Inr (ready_at \<le> now), c) else start
      | None \<Rightarrow> start)"

definition grant_from_proof ::
    "clock_reading \<Rightarrow> LeaderQuorumProof \<Rightarrow> ClusterId \<Rightarrow> LogId \<Rightarrow> ServingLeaseError + ServingLeaseGrant" where
  "grant_from_proof now p cluster placement =
     bindE (ensure (is_fresh p now) LeaderQuorumProofStale) (\<lambda>_.
     Inr \<lparr>grant_cluster_id = cluster, grant_raft_term = proof_raft_term p,
          grant_placement = placement, maximum_local_lifetime = SERVING_LEASE_MAX_LIFETIME\<rparr>)"

text \<open>\<open>reads\<close> and \<open>state\<close> are what the node's Raft answers, \<open>now\<close> the clock after it did.\<close>

definition grant_serving_lease ::
    "LeadershipReads \<Rightarrow> (DecisionRaftError + StateMachine) \<Rightarrow> clock_reading \<Rightarrow> ServingLeaseRequest \<Rightarrow>
       LeaderQuorumProof option \<Rightarrow> (ServingLeaseError + ServingLeaseGrant) \<times> LeaderQuorumProof option" where
  "grant_serving_lease reads state now request cached =
     (let (confirmed, cached') = confirm_leadership reads cached in
      (bindE (map_err Consensus confirmed) (\<lambda>p.
       bindE (map_err Consensus state) (\<lambda>s.
       bindE (ok_or LeaseClusterNotInitialized (sm_cluster_id s)) (\<lambda>cluster.
       bindE (ok_or ActivePlacementUnavailable (active_placement_log_id (cluster_control s))) (\<lambda>placement.
       bindE (validate_request request \<lparr>req_cluster_id = cluster, req_placement = placement\<rparr>) (\<lambda>_.
       grant_from_proof now p cluster placement))))), cached'))"

definition grant_identity :: "ServingLeaseGrant \<Rightarrow> ServingLeaseIssuerIdentity" where
  "grant_identity g = \<lparr>id_cluster_id = grant_cluster_id g, id_raft_term = grant_raft_term g,
     id_placement = grant_placement g\<rparr>"

text \<open>\<open>cached\<close> is the quorum proof the node holds when the call confirms its leadership.\<close>

definition issuer_grant ::
    "LeadershipReads \<Rightarrow> (DecisionRaftError + StateMachine) \<Rightarrow> clock_reading \<Rightarrow> clock_reading \<Rightarrow>
       ServingLeaseRequest \<Rightarrow> LeaderQuorumProof option \<Rightarrow> ServingLeaseCutover \<Rightarrow>
       (ServingLeaseError + ServingLeaseGrant) \<times> ServingLeaseCutover" where
  "issuer_grant reads state proof_now issue_now request cached c =
     tryS (fst (grant_serving_lease reads state proof_now request cached)) c (\<lambda>g.
     tryS (map_err Consensus issue_now) c (\<lambda>now.
     let (permitted, c') = permits (grant_identity g) now c in
     tryS permitted c' (\<lambda>ready.
     tryS (ensure ready CutoverInProgress) c' (\<lambda>_.
     (Inr g, c')))))"

section \<open>Runs\<close>

text \<open>
  The calls one issuer serves, in the order in which they take the cutover lock. Calls run
  concurrently up to that lock: each has its own readings, and finds some cached quorum proof.
\<close>

record IssueCall =
  call_reads :: LeadershipReads
  call_state :: "DecisionRaftError + StateMachine"
  call_proof_now :: clock_reading
  call_issue_now :: clock_reading
  call_request :: ServingLeaseRequest
  call_cached :: "LeaderQuorumProof option"

definition quoted :: "IssueCall \<Rightarrow> ServingLeaseError + ServingLeaseGrant" where
  "quoted c = fst (grant_serving_lease (call_reads c) (call_state c) (call_proof_now c) (call_request c)
     (call_cached c))"

definition issue ::
    "IssueCall \<Rightarrow> ServingLeaseCutover \<Rightarrow> (ServingLeaseError + ServingLeaseGrant) \<times> ServingLeaseCutover" where
  "issue c = issuer_grant (call_reads c) (call_state c) (call_proof_now c) (call_issue_now c) (call_request c)
     (call_cached c)"

definition cutover_default :: ServingLeaseCutover where
  "cutover_default = \<lparr>cutover_observed = None\<rparr>"

definition cutover_after :: "IssueCall list \<Rightarrow> ServingLeaseCutover" where
  "cutover_after calls = foldl (\<lambda>s c. snd (issue c s)) cutover_default calls"

definition issued :: "IssueCall list \<Rightarrow> nat \<Rightarrow> ServingLeaseGrant \<Rightarrow> bool" where
  "issued calls i g \<longleftrightarrow> i < length calls \<and> fst (issue (calls ! i) (cutover_after (take i calls))) = Inr g"

datatype RecipientEvent =
    PlacementApplied LogId
  | GrantAccepted clock_reading PendingServingLeaseRequest ServingLeaseGrant

definition recipient_step :: "ServingLeaseState \<Rightarrow> RecipientEvent \<Rightarrow> ServingLeaseState" where
  "recipient_step s e =
     (case e of
        PlacementApplied placement \<Rightarrow> set_active_placement placement s
      | GrantAccepted now pending g \<Rightarrow> snd (accept_grant now pending g s))"

definition recipient_after :: "ClusterId \<Rightarrow> LogId \<Rightarrow> RecipientEvent list \<Rightarrow> ServingLeaseState" where
  "recipient_after cluster placement events =
     foldl recipient_step (lease_state_new cluster placement) events"

section \<open>The cutover\<close>

text \<open>What one call does to the cutover.\<close>

lemma permits_cases:
  assumes "permits identity now c = (r, c')"
  shows "c' = c \<and> (\<forall>ready. cutover_observed c = Some (identity, ready) \<longrightarrow> r = Inr (ready \<le> now))
           \<and> (r = Inr True \<longrightarrow> (\<exists>ready \<le> now. cutover_observed c = Some (identity, ready)))
         \<or> r = Inr False \<and> c' = \<lparr>cutover_observed = Some (identity, now + SERVING_LEASE_CUTOVER_WAIT)\<rparr>"
  using assms unfolding permits_def duration_checked_add_def
  by (auto simp: Let_def split: option.splits if_splits prod.splits)

lemma issue_eq:
  "issue c s = tryS (quoted c) s (\<lambda>g. tryS (map_err Consensus (call_issue_now c)) s (\<lambda>now.
     let (permitted, c') = permits (grant_identity g) now s in
     tryS permitted c' (\<lambda>ready. tryS (ensure ready CutoverInProgress) c' (\<lambda>_. (Inr g, c')))))"
  by (simp add: issue_def issuer_grant_def quoted_def)

lemma issue_cases:
  obtains (kept) "snd (issue c s) = s" "\<And>h. fst (issue c s) \<noteq> Inr h"
  | (permitted) g now q where "quoted c = Inr g" "call_issue_now c = Inr now"
      "permits (grant_identity g) now s = (q, snd (issue c s))"
      "\<And>h. fst (issue c s) = Inr h \<Longrightarrow> h = g \<and> q = Inr True"
proof (cases "quoted c")
  case (Inl e)
  then show thesis by (intro kept) (simp_all add: issue_eq)
next
  case g: (Inr g)
  show thesis
  proof (cases "call_issue_now c")
    case (Inl e)
    then show thesis using g by (intro kept) (simp_all add: issue_eq)
  next
    case now: (Inr now)
    obtain q c' where p: "permits (grant_identity g) now s = (q, c')" by fastforce
    have eq: "issue c s = tryS q c' (\<lambda>ready. tryS (ensure ready CutoverInProgress) c' (\<lambda>_. (Inr g, c')))"
      using p by (simp add: issue_eq g now)
    have "snd (issue c s) = c'" unfolding eq by (cases q) (auto simp: ensure_def)
    moreover have "h = g \<and> q = Inr True" if "fst (issue c s) = Inr h" for h
      using that unfolding eq by (cases q) (auto simp: ensure_def split: if_splits)
    ultimately show thesis using g now p by (intro permitted [of g now q]) simp_all
  qed
qed

text \<open>The identity under observation was quoted by a call that read the clock its wait before.\<close>

lemma cutover_started:
  assumes "cutover_observed (cutover_after calls) = Some (identity, ready)"
  shows "\<exists>k < length calls. \<exists>g now. quoted (calls ! k) = Inr g \<and> grant_identity g = identity \<and>
           call_issue_now (calls ! k) = Inr now \<and> ready = now + SERVING_LEASE_CUTOVER_WAIT"
  using assms
proof (induction calls rule: rev_induct)
  case Nil
  then show ?case by (simp add: cutover_after_def cutover_default_def)
next
  case (snoc c calls)
  have old: ?case if "cutover_observed (cutover_after calls) = Some (identity, ready)"
    using snoc.IH [OF that] by (auto simp: nth_append intro: less_SucI)
  have after: "cutover_after (calls @ [c]) = snd (issue c (cutover_after calls))"
    by (simp add: cutover_after_def)
  show ?case
  proof (cases rule: issue_cases [of c "cutover_after calls"])
    case kept
    then show ?thesis using snoc.prems after old by simp
  next
    case (permitted g now q)
    from permits_cases [OF permitted(3)] show ?thesis
    proof (elim disjE conjE)
      assume "snd (issue c (cutover_after calls)) = cutover_after calls"
      then show ?thesis using snoc.prems after old by simp
    next
      assume "snd (issue c (cutover_after calls)) =
        \<lparr>cutover_observed = Some (grant_identity g, now + SERVING_LEASE_CUTOVER_WAIT)\<rparr>"
      then have "identity = grant_identity g" "ready = now + SERVING_LEASE_CUTOVER_WAIT"
        using snoc.prems after by auto
      then show ?thesis using permitted(1,2) by (intro exI [of _ "length calls"]) simp
    qed
  qed
qed

text \<open>A grant is issued only once its identity has waited since another call quoted it.\<close>

lemma issued_waited:
  assumes "issued calls j h"
  obtains k g now_k now_j where "k < length calls" "quoted (calls ! k) = Inr g"
    "grant_identity g = grant_identity h" "call_issue_now (calls ! k) = Inr now_k"
    "call_issue_now (calls ! j) = Inr now_j" "now_k + SERVING_LEASE_CUTOVER_WAIT \<le> now_j"
proof -
  let ?s = "cutover_after (take j calls)"
  have h: "fst (issue (calls ! j) ?s) = Inr h" "j < length calls" using assms by (simp_all add: issued_def)
  show thesis
  proof (cases rule: issue_cases [of "calls ! j" ?s])
    case kept
    then show ?thesis using kept(2) [of h] h(1) by blast
  next
    case (permitted g now q)
    then have "permits (grant_identity h) now ?s = (Inr True, snd (issue (calls ! j) ?s))" using h by auto
    from permits_cases [OF this] obtain ready where
      ready: "ready \<le> now" "cutover_observed ?s = Some (grant_identity h, ready)" by auto
    from cutover_started [OF ready(2)] h(2) obtain k g' now' where
      "k < j" "quoted (calls ! k) = Inr g'" "grant_identity g' = grant_identity h"
      "call_issue_now (calls ! k) = Inr now'" "ready = now' + SERVING_LEASE_CUTOVER_WAIT" by auto
    with permitted(2) ready(1) h(2) show ?thesis by (intro that [of k g' now' now]) simp_all
  qed
qed

lemma issued_quoted:
  assumes "issued calls i g"
  shows "i < length calls" "quoted (calls ! i) = Inr g"
proof -
  show "i < length calls" using assms by (simp add: issued_def)
  have f: "fst (issue (calls ! i) (cutover_after (take i calls))) = Inr g" using assms by (simp add: issued_def)
  show "quoted (calls ! i) = Inr g"
    by (cases rule: issue_cases [of "calls ! i" "cutover_after (take i calls)"]) (use f in auto)
qed

text \<open>A quoted identity is made of what the call read: a leader term and a state.\<close>

lemma confirm_leadership_term:
  "fst (confirm_leadership reads cached) = Inr p \<Longrightarrow>
   Some (proof_raft_term p) \<in> {term_before reads, term_after reads}"
  unfolding confirm_leadership_def renew_proof_def Let_def
  by (auto simp: result_simps split: option.splits if_splits tryS_splits)

lemma quoted_reads:
  assumes "quoted c = Inr g"
  obtains s where "Some (grant_raft_term g) \<in> {term_before (call_reads c), term_after (call_reads c)}"
    "call_state c = Inr s" "sm_cluster_id s = Some (grant_cluster_id g)"
    "active_placement_log_id (cluster_control s) = Some (grant_placement g)"
proof -
  obtain conf cached' where l: "confirm_leadership (call_reads c) (call_cached c) = (conf, cached')"
    by fastforce
  from assms obtain p s where
    "conf = Inr p" "call_state c = Inr s" "sm_cluster_id s = Some (grant_cluster_id g)"
    "active_placement_log_id (cluster_control s) = Some (grant_placement g)"
    "grant_raft_term g = proof_raft_term p"
    unfolding quoted_def grant_serving_lease_def l Let_def
    by (auto simp: result_simps grant_from_proof_def)
  with confirm_leadership_term [of "call_reads c" "call_cached c" p] l show thesis by (intro that) simp_all
qed

section \<open>Recipients\<close>

definition lease_from :: "PendingServingLeaseRequest \<Rightarrow> ServingLeaseGrant \<Rightarrow> ServingLease \<Rightarrow> bool" where
  "lease_from pending g lease \<longleftrightarrow>
     lease_cluster_id lease = grant_cluster_id g \<and> lease_raft_term lease = grant_raft_term g \<and>
     lease_placement lease = grant_placement g \<and>
     maximum_local_lifetime g \<le> SERVING_LEASE_MAX_LIFETIME \<and>
     expires_at lease = requested_at pending + maximum_local_lifetime g"

lemma accept_grant_lease:
  assumes "current_lease (snd (accept_grant now pending g s)) = Some lease"
  shows "current_lease s = Some lease \<or> lease_from pending g lease"
proof -
  obtain r s' where a: "accept_grant now pending g s = (r, s')" by fastforce
  show ?thesis
    using assms a unfolding accept_grant_def Let_def lease_from_def duration_checked_add_def
    by (auto split: tryS_splits if_splits option.splits)
qed

lemma recipient_leases:
  assumes "current_lease (recipient_after cluster placement events) = Some lease"
  shows "\<exists>now pending g. GrantAccepted now pending g \<in> set events \<and> lease_from pending g lease"
  using assms
proof (induction events rule: rev_induct)
  case Nil
  then show ?case by (simp add: recipient_after_def lease_state_new_def)
next
  case (snoc e events)
  let ?s = "recipient_after cluster placement events"
  have step: "current_lease (recipient_step ?s e) = Some lease"
    using snoc.prems by (simp add: recipient_after_def)
  show ?case
  proof (cases e)
    case (PlacementApplied p)
    then have "current_lease ?s = Some lease"
      using step by (auto simp: recipient_step_def set_active_placement_def split: if_splits)
    then show ?thesis using snoc.IH by auto
  next
    case (GrantAccepted now pending g)
    then have "current_lease ?s = Some lease \<or> lease_from pending g lease"
      using step accept_grant_lease by (simp add: recipient_step_def)
    then show ?thesis using snoc.IH GrantAccepted by auto
  qed
qed

section \<open>Clocks\<close>

text \<open>
  A boot clock read at a real time, in nanoseconds: it drifts from real time by at most ten
  percent, and a reading is off by at most its granularity of one nanosecond.
\<close>

definition drift_bounded :: "(real \<Rightarrow> Duration) \<Rightarrow> bool" where
  "drift_bounded C \<longleftrightarrow>
     (\<forall>s t. 0 \<le> s \<and> s \<le> t \<longrightarrow> 9 / 10 * (t - s) - 1 \<le> real (C t) - real (C s) \<and>
                      real (C t) - real (C s) \<le> 11 / 10 * (t - s) + 1)"

lemma wait_outlasts_lease:
  assumes "drift_bounded issuer" "drift_bounded recipient" "0 \<le> s" "s \<le> a" "a \<le> b" "b \<le> t"
    "issuer a + SERVING_LEASE_CUTOVER_WAIT \<le> issuer b" "lifetime \<le> SERVING_LEASE_MAX_LIFETIME"
  shows "recipient s + lifetime \<le> recipient t"
proof -
  have waited: "x + 3000000000 \<le> y \<Longrightarrow> y - x \<le> 11 / 10 * d + 1 \<Longrightarrow> 2700000000 \<le> d"
    for x y d :: real by simp
  have lasted: "9 / 10 * d - 1 \<le> y - x \<Longrightarrow> 2700000000 \<le> d \<Longrightarrow> x + 2000000000 \<le> y"
    for x y d :: real by simp
  have "real (issuer b) - real (issuer a) \<le> 11 / 10 * (b - a) + 1"
    using assms(1,3,4,5) order_trans [OF assms(3,4)] unfolding drift_bounded_def by blast
  moreover have "real (issuer a) + 3000000000 \<le> real (issuer b)"
    using assms(7) unfolding SERVING_LEASE_CUTOVER_WAIT_def by linarith
  ultimately have "2700000000 \<le> b - a" using waited by blast
  then have "2700000000 \<le> t - s" using assms(4,6) by linarith
  moreover have "9 / 10 * (t - s) - 1 \<le> real (recipient t) - real (recipient s)"
    using assms(2-6) unfolding drift_bounded_def by (meson order_trans)
  ultimately have "real (recipient s) + 2000000000 \<le> real (recipient t)" using lasted by blast
  then have "recipient s + 2000000000 \<le> recipient t" by linarith
  then show ?thesis using assms(8) unfolding SERVING_LEASE_MAX_LIFETIME_def by linarith
qed

lemma drift_bounded_order:
  assumes "drift_bounded C" "0 \<le> b" "C a + SERVING_LEASE_CUTOVER_WAIT \<le> C b"
  shows "a \<le> b"
proof (rule ccontr)
  assume "\<not> a \<le> b"
  then have "9 / 10 * (a - b) - 1 \<le> real (C a) - real (C b)"
    using assms(1,2) unfolding drift_bounded_def by (meson less_imp_le not_le)
  moreover have "0 \<le> 9 / 10 * (a - b)" using \<open>\<not> a \<le> b\<close> by simp
  ultimately have "real (C b) \<le> real (C a) + 1" by linarith
  then have "C b \<le> C a + 1" by linarith
  then show False using assms(3) by (simp add: SERVING_LEASE_CUTOVER_WAIT_def)
qed

text \<open>
  What the issuing node goes through in real time: its leader terms never fall, and an active
  placement that was replaced never comes back. Call \<open>k\<close> arrives at \<open>received k\<close>, reads a term and a
  state at some moments between then and \<open>tick k\<close>, and at \<open>tick k\<close> reads the clock. Nothing is said of
  the order of these moments among different calls.
\<close>

record NodeHistory =
  node_term :: "real \<Rightarrow> u64"
  node_placement :: "real \<Rightarrow> ClusterId option \<times> LogId option"

definition history_ok :: "NodeHistory \<Rightarrow> bool" where
  "history_ok H \<longleftrightarrow> mono (node_term H) \<and>
     (\<forall>a b c. a \<le> b \<and> b \<le> c \<and> node_placement H a = node_placement H c \<longrightarrow>
        node_placement H b = node_placement H a)"

definition call_times ::
    "(real \<Rightarrow> Duration) \<Rightarrow> NodeHistory \<Rightarrow> real \<Rightarrow> real \<Rightarrow> IssueCall \<Rightarrow> bool" where
  "call_times C H start end c \<longleftrightarrow>
     (\<forall>now. call_issue_now c = Inr now \<longrightarrow> now = C end) \<and>
     (\<forall>v. Some v \<in> {term_before (call_reads c), term_after (call_reads c)} \<longrightarrow>
        (\<exists>u. start \<le> u \<and> u \<le> end \<and> v = node_term H u)) \<and>
     (\<forall>s. call_state c = Inr s \<longrightarrow>
        (\<exists>u. start \<le> u \<and> u \<le> end \<and>
           (sm_cluster_id s, active_placement_log_id (cluster_control s)) = node_placement H u))"

definition issuer_times ::
    "(real \<Rightarrow> Duration) \<Rightarrow> NodeHistory \<Rightarrow> (nat \<Rightarrow> real) \<Rightarrow> (nat \<Rightarrow> real) \<Rightarrow> IssueCall list \<Rightarrow> bool" where
  "issuer_times C H received tick calls \<longleftrightarrow> drift_bounded C \<and> history_ok H \<and>
     (\<forall>k < length calls. call_times C H (received k) (tick k) (calls ! k))"

text \<open>A recipient reads its clock before it sends a request; a grant is accepted after it was issued.\<close>

definition grants_delivered ::
    "(real \<Rightarrow> Duration) \<Rightarrow> (nat \<Rightarrow> real) \<Rightarrow> (nat \<Rightarrow> real) \<Rightarrow> IssueCall list \<Rightarrow> real \<Rightarrow>
       RecipientEvent list \<Rightarrow> bool" where
  "grants_delivered C received tick calls t events \<longleftrightarrow> drift_bounded C \<and>
     (\<forall>now pending g. GrantAccepted now pending g \<in> set events \<longrightarrow>
        (\<exists>i s. issued calls i g \<and> 0 \<le> s \<and> s \<le> received i \<and> tick i \<le> t \<and> requested_at pending = C s))"

definition lease_identity :: "ServingLease \<Rightarrow> ServingLeaseIssuerIdentity" where
  "lease_identity lease = \<lparr>id_cluster_id = lease_cluster_id lease, id_raft_term = lease_raft_term lease,
     id_placement = lease_placement lease\<rparr>"

section \<open>The order of identities\<close>

lemma quoted_times:
  assumes "issuer_times C H received tick calls" "k < length calls" "quoted (calls ! k) = Inr g"
  obtains u v where "received k \<le> u" "u \<le> tick k" "grant_raft_term g = node_term H u"
    "received k \<le> v" "v \<le> tick k" "(Some (grant_cluster_id g), Some (grant_placement g)) = node_placement H v"
proof -
  have c: "call_times C H (received k) (tick k) (calls ! k)" using assms(1,2) by (simp add: issuer_times_def)
  from assms(3) obtain s where
    s: "Some (grant_raft_term g) \<in> {term_before (call_reads (calls ! k)), term_after (call_reads (calls ! k))}"
    "call_state (calls ! k) = Inr s" "sm_cluster_id s = Some (grant_cluster_id g)"
    "active_placement_log_id (cluster_control s) = Some (grant_placement g)" by (rule quoted_reads)
  from c s(1) obtain u where "received k \<le> u" "u \<le> tick k" "grant_raft_term g = node_term H u"
    unfolding call_times_def by blast
  moreover from c s(2) obtain v where "received k \<le> v" "v \<le> tick k"
    "(sm_cluster_id s, active_placement_log_id (cluster_control s)) = node_placement H v"
    unfolding call_times_def by blast
  ultimately show thesis using s(3,4) by (intro that) simp_all
qed

text \<open>Every call that quotes \<open>x\<close> was received before any call that quotes \<open>y\<close> reads its clock.\<close>

definition precedes ::
    "IssueCall list \<Rightarrow> (nat \<Rightarrow> real) \<Rightarrow> (nat \<Rightarrow> real) \<Rightarrow> ServingLeaseIssuerIdentity \<Rightarrow>
       ServingLeaseIssuerIdentity \<Rightarrow> bool" where
  "precedes calls received tick x y \<longleftrightarrow>
     (\<forall>i k g h. i < length calls \<and> k < length calls \<and> quoted (calls ! i) = Inr g \<and> grant_identity g = x \<and>
        quoted (calls ! k) = Inr h \<and> grant_identity h = y \<longrightarrow> received i \<le> tick k)"

lemma precedes_term:
  assumes "issuer_times C H received tick calls" "id_raft_term x < id_raft_term y"
  shows "precedes calls received tick x y"
  unfolding precedes_def
proof (intro allI impI, elim conjE)
  fix i k g h
  assume i: "i < length calls" "quoted (calls ! i) = Inr g" "grant_identity g = x"
    and k: "k < length calls" "quoted (calls ! k) = Inr h" "grant_identity h = y"
  from assms(1) i(1,2) obtain u where u: "received i \<le> u" "grant_raft_term g = node_term H u"
    by (rule quoted_times)
  from assms(1) k(1,2) obtain v where v: "v \<le> tick k" "grant_raft_term h = node_term H v"
    by (rule quoted_times)
  have "mono (node_term H)" using assms(1) by (simp add: issuer_times_def history_ok_def)
  moreover have "node_term H u < node_term H v"
    using assms(2) i(3) k(3) u(2) v(2) by (auto simp: grant_identity_def)
  ultimately have "u \<le> v" by (meson monoD not_le order_less_imp_le)
  then show "received i \<le> tick k" using u(1) v(1) by linarith
qed

lemma precedes_placement:
  assumes "issuer_times C H received tick calls"
    "(id_cluster_id x, id_placement x) \<noteq> (id_cluster_id y, id_placement y)"
  shows "precedes calls received tick x y \<or> precedes calls received tick y x"
proof (rule ccontr)
  assume "\<not> ?thesis"
  then obtain i k g h i' k' g' h' where
    a: "i < length calls" "quoted (calls ! i) = Inr g" "grant_identity g = x"
    "k < length calls" "quoted (calls ! k) = Inr h" "grant_identity h = y" "tick k < received i"
    and b: "i' < length calls" "quoted (calls ! i') = Inr g'" "grant_identity g' = x"
    "k' < length calls" "quoted (calls ! k') = Inr h'" "grant_identity h' = y" "tick i' < received k'"
    unfolding precedes_def not_le by (metis not_le)
  let ?P = "node_placement H"
  let ?x = "(Some (id_cluster_id x), Some (id_placement x))"
  let ?y = "(Some (id_cluster_id y), Some (id_placement y))"
  from assms(1) a(1,2) obtain u where "received i \<le> u" "?x = ?P u"
    by (rule quoted_times) (use a(3) in \<open>auto simp: grant_identity_def\<close>)
  moreover from assms(1) a(4,5) obtain v where "v \<le> tick k" "?y = ?P v"
    by (rule quoted_times) (use a(6) in \<open>auto simp: grant_identity_def\<close>)
  moreover from assms(1) b(1,2) obtain u' where "u' \<le> tick i'" "?x = ?P u'"
    by (rule quoted_times) (use b(3) in \<open>auto simp: grant_identity_def\<close>)
  moreover from assms(1) b(4,5) obtain v' where "received k' \<le> v'" "?y = ?P v'"
    by (rule quoted_times) (use b(6) in \<open>auto simp: grant_identity_def\<close>)
  ultimately have o': "v \<le> u" "u' \<le> v'" "?P u = ?x" "?P v = ?y" "?P u' = ?x" "?P v' = ?y"
    using a(7) b(7) by auto
  have never: "?P q = ?P p" if "p \<le> q" "q \<le> r" "?P p = ?P r" for p q r
    using assms(1) that unfolding issuer_times_def history_ok_def by blast
  have "?x \<noteq> ?y" using assms(2) by auto
  then show False
    using never [of u' v u] never [of v u' v'] o' by (cases "u' \<le> v") auto
qed

lemma identities_ordered:
  assumes "issuer_times C H received tick calls" "x \<noteq> y"
  shows "precedes calls received tick x y \<or> precedes calls received tick y x"
proof (cases "id_raft_term x = id_raft_term y")
  case True
  then have "(id_cluster_id x, id_placement x) \<noteq> (id_cluster_id y, id_placement y)" using assms(2) by auto
  then show ?thesis by (rule precedes_placement [OF assms(1)])
next
  case False
  then show ?thesis using precedes_term [OF assms(1)] by (meson linorder_neqE)
qed

section \<open>Exclusion\<close>

lemma valid_lease_backed:
  assumes "valid_lease (Inr (C t)) (recipient_after cluster placement events) = Some lease"
    "grants_delivered C received tick calls t events"
  obtains i g s where "issued calls i g" "0 \<le> s" "s \<le> received i" "tick i \<le> t"
    "lease_identity lease = grant_identity g" "C t < C s + maximum_local_lifetime g"
    "maximum_local_lifetime g \<le> SERVING_LEASE_MAX_LIFETIME"
proof -
  have "current_lease (recipient_after cluster placement events) = Some lease" "C t < expires_at lease"
    using assms(1) by (auto simp: valid_lease_def split: option.splits if_splits)
  with recipient_leases [of cluster placement events lease] obtain now pending g where
    e: "GrantAccepted now pending g \<in> set events" "lease_from pending g lease" by blast
  then obtain i s where "issued calls i g" "0 \<le> s" "s \<le> received i" "tick i \<le> t" "requested_at pending = C s"
    using assms(2) unfolding grants_delivered_def by blast
  with e(2) \<open>C t < expires_at lease\<close> show thesis
    by (intro that [of i g s]) (simp_all add: lease_from_def lease_identity_def grant_identity_def)
qed

lemma earlier_expired:
  assumes "issuer_times C H received tick calls" "drift_bounded R"
    "precedes calls received tick (grant_identity g) (grant_identity h)"
    "issued calls i g" "issued calls j h" "0 \<le> s" "s \<le> received i" "0 \<le> received j" "tick j \<le> t"
    "maximum_local_lifetime g \<le> SERVING_LEASE_MAX_LIFETIME"
  shows "R s + maximum_local_lifetime g \<le> R t"
proof -
  from assms(5) obtain k g' now_k now_j where k: "k < length calls" "quoted (calls ! k) = Inr g'"
    "grant_identity g' = grant_identity h" "call_issue_now (calls ! k) = Inr now_k"
    "call_issue_now (calls ! j) = Inr now_j" "now_k + SERVING_LEASE_CUTOVER_WAIT \<le> now_j"
    by (rule issued_waited)
  have C: "drift_bounded C" using assms(1) by (simp add: issuer_times_def)
  have "now_k = C (tick k)" "now_j = C (tick j)"
    using assms(1) k(1,4,5) issued_quoted(1) [OF assms(5)] by (auto simp: issuer_times_def call_times_def)
  with k(6) have wait: "C (tick k) + SERVING_LEASE_CUTOVER_WAIT \<le> C (tick j)" by simp
  have "received i \<le> tick k"
    using assms(3) issued_quoted [OF assms(4)] k(1-3) unfolding precedes_def by blast
  then have s: "s \<le> tick k" using assms(7) by linarith
  from assms(1) issued_quoted [OF assms(5)] obtain u where "received j \<le> u" "u \<le> tick j"
    by (rule quoted_times)
  then have "0 \<le> tick j" using assms(8) by linarith
  then have "tick k \<le> tick j" by (rule drift_bounded_order [OF C _ wait])
  then show ?thesis by (rule wait_outlasts_lease [OF C assms(2,6) s _ assms(9) wait assms(10)])
qed

text \<open>C29. Serving leases of two different identities (cluster, Raft term, active placement) issued by
  one process are never valid at the same moment. If two recipients hold valid leases at the same
  real time, each backed by any grants of that issuer they accepted, if the three boot clocks drift
  from real time by at most ten percent and if the issuing node's term never falls and its placement
  never comes back, then the leases carry the same identity. The calls may run concurrently: no
  order is assumed between a call's clock reading and those of the calls that lock the cutover
  before it.\<close>

theorem leases_exclusive:
  assumes "issuer_times C H received tick calls"
    "grants_delivered R1 received tick calls t events1" "grants_delivered R2 received tick calls t events2"
    "valid_lease (Inr (R1 t)) (recipient_after cluster1 placement1 events1) = Some lease1"
    "valid_lease (Inr (R2 t)) (recipient_after cluster2 placement2 events2) = Some lease2"
  shows "lease_identity lease1 = lease_identity lease2"
proof (rule ccontr)
  assume differ: "lease_identity lease1 \<noteq> lease_identity lease2"
  from assms(4,2) obtain i g s where g: "issued calls i g" "0 \<le> s" "s \<le> received i" "tick i \<le> t"
    "lease_identity lease1 = grant_identity g" "R1 t < R1 s + maximum_local_lifetime g"
    "maximum_local_lifetime g \<le> SERVING_LEASE_MAX_LIFETIME" by (rule valid_lease_backed)
  from assms(5,3) obtain j h u where h: "issued calls j h" "0 \<le> u" "u \<le> received j" "tick j \<le> t"
    "lease_identity lease2 = grant_identity h" "R2 t < R2 u + maximum_local_lifetime h"
    "maximum_local_lifetime h \<le> SERVING_LEASE_MAX_LIFETIME" by (rule valid_lease_backed)
  have d: "drift_bounded R1" "drift_bounded R2" using assms(2,3) by (auto simp: grants_delivered_def)
  have pos: "0 \<le> received i" "0 \<le> received j" using g(2,3) h(2,3) by linarith+
  from differ g(5) h(5) identities_ordered [OF assms(1), of "grant_identity g" "grant_identity h"]
  consider "precedes calls received tick (grant_identity g) (grant_identity h)"
    | "precedes calls received tick (grant_identity h) (grant_identity g)" by auto
  then show False
  proof cases
    case 1
    from earlier_expired [OF assms(1) d(1) 1 g(1) h(1) g(2,3) pos(2) h(4) g(7)] g(6) show False by simp
  next
    case 2
    from earlier_expired [OF assms(1) d(2) 2 h(1) g(1) h(2,3) pos(1) g(4) h(7)] h(6) show False by simp
  qed
qed

text \<open>
  A run with a change of placement: the issuer grants leases of placement 5 at 3 s, observes
  placement 9 at 3.5 s and grants leases of it at 6.5 s.
\<close>

definition sample_placement :: "u64 \<Rightarrow> LogId" where
  "sample_placement i = \<lparr>log_term = 1, log_leader_node = 1, log_index = i\<rparr>"

definition sample_state :: "u64 \<Rightarrow> StateMachine" where
  "sample_state i =
     \<lparr>max_commit_entries = 8, max_commit_bytes = 1024, sm_cluster_id = Some 7,
      system_bootstrap = BootstrapMissing,
      cluster_control = cluster_control_default\<lparr>active_placement_log_id := Some (sample_placement i)\<rparr>,
      sm_executor = None, preparing_batch = None, committed_invocations = [],
      committed_invocation_bytes = 8, last_commit_cursor = None, finalized_through = None\<rparr>"

definition sample_call :: "Duration \<Rightarrow> u64 \<Rightarrow> IssueCall" where
  "sample_call now i =
     \<lparr>call_reads = \<lparr>reuse_now = Inr now, term_before = Some 2, started_now = Inr now,
                    linearizable = Inr (Some \<lparr>log_term = 2, log_leader_node = 1, log_index = 20\<rparr>),
                    term_after = Some 2, checked_now = Inr now\<rparr>,
      call_state = Inr (sample_state i), call_proof_now = Inr now, call_issue_now = Inr now,
      call_request = \<lparr>req_cluster_id = 7, req_placement = sample_placement i\<rparr>,
      call_cached = None\<rparr>"

definition sample_calls :: "IssueCall list" where
  "sample_calls = [sample_call 0 5, sample_call 3000000000 5, sample_call 3500000000 9,
     sample_call 6500000000 9]"

definition sample_tick :: "nat \<Rightarrow> real" where
  "sample_tick k = (if k = 0 then 0 else if k = 1 then 3000000000 else if k = 2 then 3500000000
     else 6500000000)"

definition sample_history :: NodeHistory where
  "sample_history = \<lparr>node_term = (\<lambda>_. 2),
     node_placement = (\<lambda>u. (Some 7, Some (sample_placement (if u \<le> 3200000000 then 5 else 9))))\<rparr>"

definition sample_grant :: "u64 \<Rightarrow> ServingLeaseGrant" where
  "sample_grant i = \<lparr>grant_cluster_id = 7, grant_raft_term = 2, grant_placement = sample_placement i,
     maximum_local_lifetime = SERVING_LEASE_MAX_LIFETIME\<rparr>"

definition sample_accepted :: "Duration \<Rightarrow> u64 \<Rightarrow> RecipientEvent" where
  "sample_accepted requested i =
     GrantAccepted (Inr (requested + 200000000))
       \<lparr>pending_request = \<lparr>req_cluster_id = 7, req_placement = sample_placement i\<rparr>,
        requested_at = requested\<rparr> (sample_grant i)"

definition sample_events :: "RecipientEvent list" where
  "sample_events = [sample_accepted 2900000000 5, PlacementApplied (sample_placement 9),
     sample_accepted 6400000000 9]"

definition sample_events' :: "RecipientEvent list" where
  "sample_events' = [sample_accepted 6450000000 9]"

definition sample_clock :: "real \<Rightarrow> Duration" where
  "sample_clock t = nat \<lfloor>t\<rfloor>"

lemma sample_clock_drift: "drift_bounded sample_clock"
  unfolding drift_bounded_def
proof (intro allI impI)
  fix s t :: real
  assume st: "0 \<le> s \<and> s \<le> t"
  have bounds: "9 / 10 * (t - s) - 1 \<le> y - x \<and> y - x \<le> 11 / 10 * (t - s) + 1"
    if "s \<le> t" "s \<le> x + 1" "x \<le> s" "t \<le> y + 1" "y \<le> t" for x y :: real
    using that by (intro conjI; argo)
  have near: "x \<le> real (sample_clock x) + 1" "real (sample_clock x) \<le> x" if "0 \<le> x" for x
    using that floor_correct [of x] by (simp_all add: sample_clock_def)
  show "9 / 10 * (t - s) - 1 \<le> real (sample_clock t) - real (sample_clock s) \<and>
    real (sample_clock t) - real (sample_clock s) \<le> 11 / 10 * (t - s) + 1"
    using st near [of s] near [of t] by (intro bounds) simp_all
qed

lemmas sample_defs = sample_calls_def sample_call_def sample_state_def sample_placement_def
  sample_grant_def sample_events_def sample_events'_def sample_accepted_def cluster_control_default_def

lemmas issue_defs = issue_def issuer_grant_def grant_serving_lease_def confirm_leadership_def
  renew_proof_def is_fresh_def duration_checked_sub_def duration_checked_add_def validate_request_def
  grant_from_proof_def permits_def grant_identity_def cutover_default_def cutover_after_def Let_def
  LEADER_QUORUM_PROOF_MAX_AGE_def SERVING_LEASE_CUTOVER_WAIT_def SERVING_LEASE_MAX_LIFETIME_def
  DURATION_MAX_def

lemma sample_issued: "issued sample_calls 1 (sample_grant 5)" "issued sample_calls 3 (sample_grant 9)"
  by (simp_all add: issued_def sample_defs issue_defs)

lemma sample_history_ok: "history_ok sample_history"
  by (auto simp: history_ok_def sample_history_def sample_placement_def mono_def)

lemma call_times_now:
  "call_issue_now c = Inr (C u) \<Longrightarrow> term_before (call_reads c) = Some (node_term H u) \<Longrightarrow>
   term_after (call_reads c) = Some (node_term H u) \<Longrightarrow> call_state c = Inr s \<Longrightarrow>
   (sm_cluster_id s, active_placement_log_id (cluster_control s)) = node_placement H u \<Longrightarrow>
   call_times C H u u c"
  by (auto simp: call_times_def)

lemma sample_issuer: "issuer_times sample_clock sample_history sample_tick sample_tick sample_calls"
  unfolding issuer_times_def
proof (intro conjI allI impI sample_clock_drift sample_history_ok)
  fix k
  assume "k < length sample_calls"
  then have "k < 4" by (simp add: sample_calls_def)
  then have "k = 0 \<or> k = 1 \<or> k = 2 \<or> k = 3" by linarith
  then show "call_times sample_clock sample_history (sample_tick k) (sample_tick k) (sample_calls ! k)"
    by (intro call_times_now [where s = "sample_state (if k \<le> 1 then 5 else 9)"])
      (auto simp: sample_calls_def sample_call_def sample_state_def sample_history_def sample_tick_def
        sample_clock_def)
qed

lemma sample_delivered:
  assumes "events \<in> {sample_events, sample_events'}"
  shows "grants_delivered sample_clock sample_tick sample_tick sample_calls 7000000000 events"
  unfolding grants_delivered_def
proof (intro conjI allI impI sample_clock_drift)
  fix now pending g
  assume "GrantAccepted now pending g \<in> set events"
  with assms consider "g = sample_grant 5" "requested_at pending = 2900000000"
    | "g = sample_grant 9" "requested_at pending = 6400000000"
    | "g = sample_grant 9" "requested_at pending = 6450000000"
    by (auto simp: sample_events_def sample_events'_def sample_accepted_def)
  then show "\<exists>i s. issued sample_calls i g \<and> 0 \<le> s \<and> s \<le> sample_tick i \<and>
      sample_tick i \<le> 7000000000 \<and> requested_at pending = sample_clock s"
  proof cases
    case 1
    then show ?thesis using sample_issued(1)
      by (intro exI [of _ 1] exI [of _ 2900000000]) (simp add: sample_tick_def sample_clock_def)
  next
    case 2
    then show ?thesis using sample_issued(2)
      by (intro exI [of _ 3] exI [of _ 6400000000]) (simp add: sample_tick_def sample_clock_def)
  next
    case 3
    then show ?thesis using sample_issued(2)
      by (intro exI [of _ 3] exI [of _ 6450000000]) (simp add: sample_tick_def sample_clock_def)
  qed
qed

definition sample_lease :: "Duration \<Rightarrow> ServingLease" where
  "sample_lease expiry = \<lparr>lease_cluster_id = 7, lease_raft_term = 2,
     lease_placement = sample_placement 9, expires_at = expiry\<rparr>"

lemmas recipient_defs = recipient_after_def recipient_step_def lease_state_new_def accept_grant_def
  validate_identity_def validate_request_def set_active_placement_def valid_lease_def
  duration_checked_add_def DURATION_MAX_def SERVING_LEASE_MAX_LIFETIME_def Let_def

lemma sample_valid:
  "valid_lease (Inr (sample_clock 7000000000)) (recipient_after 7 (sample_placement 5) sample_events) =
     Some (sample_lease 8400000000)"
  "valid_lease (Inr (sample_clock 7000000000)) (recipient_after 7 (sample_placement 9) sample_events') =
     Some (sample_lease 8450000000)"
  by (simp_all add: recipient_defs sample_defs sample_lease_def sample_clock_def)

theorem leases_exclusive_witness:
  "issued sample_calls 1 (sample_grant 5) \<and> issued sample_calls 3 (sample_grant 9) \<and>
   valid_lease (Inr (sample_clock 7000000000)) (recipient_after 7 (sample_placement 5) sample_events) =
     Some (sample_lease 8400000000) \<and>
   valid_lease (Inr (sample_clock 7000000000)) (recipient_after 7 (sample_placement 9) sample_events') =
     Some (sample_lease 8450000000) \<and>
   lease_identity (sample_lease 8400000000) = lease_identity (sample_lease 8450000000)"
proof (intro conjI sample_issued sample_valid)
  show "lease_identity (sample_lease 8400000000) = lease_identity (sample_lease 8450000000)"
    by (rule leases_exclusive [OF sample_issuer sample_delivered sample_delivered
          sample_valid(1) sample_valid(2)]) simp_all
qed

end
