(* ===== verification/Voter_Membership.thy ===== *)
theory Voter_Membership
  imports Decision_Machine Serving_Lease
begin

text \<open>
  How a leader drives the OpenRaft membership through one transition:
  \<^verbatim>\<open>keldra-consensus/src/membership.rs\<close> and the guarded membership calls of \<^verbatim>\<open>peer.rs\<close>.

  OpenRaft is not part of the sources. Its handle is a value of a type variable, and \<open>OpenRaft\<close> lists
  the calls the code makes on a node: each takes the handle and returns the handle afterwards, so that
  the committed state and the committed membership may have changed between any two of them.
  An index into a map that has no such key panics.
\<close>

section \<open>Data\<close>

record CommittedMembership = Membership +
  mb_learner_ids :: "u64 list"
  mb_joint_config_len :: nat

record ClientWriteError =
  forward_to_leader :: "(u64 option \<times> string option) option"
  write_error_text :: string

datatype ChangeMembers = ReplaceAllVoters "u64 list" | RemoveNodes "u64 list"

record 'r OpenRaft =
  raft_state :: "'r \<Rightarrow> (DecisionRaftError + StateMachine) \<times> 'r"
  committed_membership :: "'r \<Rightarrow> (DecisionRaftError + CommittedMembership) \<times> 'r"
  raft_initialize :: "(u64, string) btree \<Rightarrow> 'r \<Rightarrow> (string + unit) \<times> 'r"
  raft_add_learner :: "u64 \<Rightarrow> string \<Rightarrow> bool \<Rightarrow> 'r \<Rightarrow> (ClientWriteError + unit) \<times> 'r"
  raft_change_membership :: "ChangeMembers \<Rightarrow> bool \<Rightarrow> 'r \<Rightarrow> (ClientWriteError + unit) \<times> 'r"
  learner_progress :: "u64 \<Rightarrow> 'r \<Rightarrow> bool \<times> 'r"

datatype RaftCallError = Raised DecisionRaftError | Panicked

type_synonym ('r, 'a) action = "'r \<Rightarrow> (RaftCallError + 'a) \<times> 'r"

record MembershipView =
  view_voters :: "NodeId list"
  view_learners :: "NodeId list"
  view_addresses :: "(NodeId, string) btree"
  view_joint :: bool

section \<open>Actions\<close>

definition bindA :: "('r, 'a) action \<Rightarrow> ('a \<Rightarrow> ('r, 'b) action) \<Rightarrow> ('r, 'b) action" where
  "bindA m k r = (case m r of (Inl e, r') \<Rightarrow> (Inl e, r') | (Inr x, r') \<Rightarrow> k x r')"

definition liftA :: "RaftCallError + 'a \<Rightarrow> ('r, 'a) action" where
  "liftA m r = (m, r)"

definition raisesA :: "('e \<Rightarrow> DecisionRaftError) \<Rightarrow> ('r \<Rightarrow> ('e + 'a) \<times> 'r) \<Rightarrow> ('r, 'a) action" where
  "raisesA h m r = (case m r of (x, r') \<Rightarrow> (map_err (\<lambda>e. Raised (h e)) x, r'))"

definition configuration :: "string \<Rightarrow> RaftCallError" where
  "configuration message = Raised (Configuration message)"

definition map_client_write_error :: "ClientWriteError \<Rightarrow> DecisionRaftError" where
  "map_client_write_error e =
     (case forward_to_leader e of
        Some (leader_id, leader_address) \<Rightarrow> ForwardToLeader leader_id leader_address
      | None \<Rightarrow> Unavailable (write_error_text e))"

section \<open>Guarded membership calls\<close>

definition valid_raft_id :: "u64 \<Rightarrow> bool" where
  "valid_raft_id node \<longleftrightarrow> 1 \<le> node \<and> node \<le> MAX_RAFT_NODE_ID"

definition invalid_node_id :: "u64 \<Rightarrow> RaftCallError" where
  "invalid_node_id node = configuration ''peer node id is outside the supported range''"

definition validate_peer_node :: "u64 \<Rightarrow> string \<Rightarrow> RaftCallError + unit" where
  "validate_peer_node node address =
     bindE (ensure (valid_raft_id node) (invalid_node_id node)) (\<lambda>_.
     ensure (address \<noteq> []) (configuration ''peer node has an empty address''))"

definition validate_members :: "(u64, string) btree \<Rightarrow> RaftCallError + unit" where
  "validate_members members =
     bindE (ensure (members \<noteq> []) (configuration ''genesis membership must not be empty'')) (\<lambda>_.
     forE (\<lambda>(node, address). validate_peer_node node address) members)"

definition initialize_genesis :: "'r OpenRaft \<Rightarrow> u64 \<Rightarrow> (u64, string) btree \<Rightarrow> ('r, unit) action" where
  "initialize_genesis R self_id members =
     bindA (liftA (validate_members members)) (\<lambda>_.
     bindA (liftA (ensure (bt_contains_key members self_id)
              (configuration ''genesis membership does not contain local node''))) (\<lambda>_.
     raisesA Unavailable (raft_initialize R members)))"

definition learner_allowed :: "ClusterControlState \<Rightarrow> u64 \<Rightarrow> string \<Rightarrow> RaftCallError + unit" where
  "learner_allowed c node address =
     (if cc_nodes c = [] then Inr () else
      bindE (ok_or (configuration ''a learner can be added only during an ADD transition'')
               (cc_transition c)) (\<lambda>t.
      bindE (ensure (\<not> (mt_kind t \<noteq> TransitionAdd \<or> mt_node_id t \<noteq> node))
               (configuration ''node is not the current ADD transition'')) (\<lambda>_.
      bindE (ok_or Panicked (bt_get (cc_nodes c) node)) (\<lambda>d.
      bindE (ensure (nd_state d = Joining) (configuration ''node is no longer JOINING'')) (\<lambda>_.
      ensure (peer_address d = address)
        (configuration ''node address does not match its admitted descriptor''))))))"

definition add_learner :: "'r OpenRaft \<Rightarrow> u64 \<Rightarrow> string \<Rightarrow> bool \<Rightarrow> ('r, unit) action" where
  "add_learner R node address blocking =
     bindA (liftA (validate_peer_node node address)) (\<lambda>_.
     bindA (raisesA id (raft_state R)) (\<lambda>decisions.
     bindA (liftA (learner_allowed (cluster_control decisions) node address)) (\<lambda>_.
     raisesA map_client_write_error (raft_add_learner R node address blocking))))"

definition expected_voters :: "ClusterControlState \<Rightarrow> MembershipTransition \<Rightarrow> RaftCallError + nat" where
  "expected_voters c t =
     (case mt_kind t of
        TransitionAdd \<Rightarrow>
          bindE (ok_or Panicked (bt_get (cc_nodes c) (mt_node_id t))) (\<lambda>d.
          bindE (ensure (nd_state d = Active)
                   (configuration ''a JOINING node cannot participate in a voter change'')) (\<lambda>_.
          Inr (voter_target c)))
      | TransitionRemove \<Rightarrow> Inr (min (active_node_count c - 1) FIXED_VOTER_TARGET)
      | TransitionReweight \<Rightarrow> Inl (configuration ''REWEIGHT does not change Raft voters''))"

definition voter_allowed :: "ClusterControlState \<Rightarrow> u64 \<Rightarrow> RaftCallError + unit" where
  "voter_allowed c voter =
     bindE (ok_or (configuration ''voter has no admitted node descriptor'') (bt_get (cc_nodes c) voter)) (\<lambda>d.
     bindE (ensure (nd_state d = Active) (configuration ''voter is not ACTIVE'')) (\<lambda>_.
     ensure (\<not> (case cc_transition c of
                    Some t \<Rightarrow> mt_kind t = TransitionRemove \<and> mt_node_id t = voter | None \<Rightarrow> False))
       (configuration ''voter is being removed'')))"

definition voters_well_formed :: "u64 list \<Rightarrow> RaftCallError + unit" where
  "voters_well_formed voters =
     bindE (ensure (voters \<noteq> []) (configuration ''Raft voter membership must not be empty'')) (\<lambda>_.
     case List.find (\<lambda>node. \<not> valid_raft_id node) voters of
       Some node \<Rightarrow> Inl (invalid_node_id node) | None \<Rightarrow> Inr ())"

definition voters_allowed :: "ClusterControlState \<Rightarrow> u64 list \<Rightarrow> RaftCallError + unit" where
  "voters_allowed c voters =
     (if cc_nodes c = [] then Inr () else
      bindE (ok_or (configuration ''Raft voters change only during ADD activation or REMOVE'')
               (cc_transition c)) (\<lambda>t.
      bindE (expected_voters c t) (\<lambda>expected.
      bindE (ensure (length voters = expected) (configuration ''cluster requires exactly the expected voters'')) (\<lambda>_.
      forE (voter_allowed c) voters))))"

definition change_membership :: "'r OpenRaft \<Rightarrow> u64 list \<Rightarrow> bool \<Rightarrow> ('r, unit) action" where
  "change_membership R voters retain_removed_as_learners =
     bindA (liftA (voters_well_formed voters)) (\<lambda>_.
     bindA (raisesA id (raft_state R)) (\<lambda>decisions.
     bindA (liftA (voters_allowed (cluster_control decisions) voters)) (\<lambda>_.
     raisesA map_client_write_error
       (raft_change_membership R (ReplaceAllVoters voters) retain_removed_as_learners))))"

definition remove_learner :: "'r OpenRaft \<Rightarrow> u64 \<Rightarrow> ('r, unit) action" where
  "remove_learner R node =
     bindA (liftA (ensure (valid_raft_id node) (invalid_node_id node))) (\<lambda>_.
     bindA (raisesA id (raft_state R)) (\<lambda>s.
     bindA (liftA (ok_or (configuration ''a learner can be removed only during its REMOVE transition'')
              (cc_transition (cluster_control s)))) (\<lambda>t.
     bindA (liftA (ensure (\<not> (mt_kind t \<noteq> TransitionRemove \<or> mt_node_id t \<noteq> node))
              (configuration ''node is not the current REMOVE transition''))) (\<lambda>_.
     raisesA map_client_write_error (raft_change_membership R (RemoveNodes [node]) False)))))"

section \<open>The current transition\<close>

definition membership_view :: "'r OpenRaft \<Rightarrow> ('r, MembershipView) action" where
  "membership_view R =
     bindA (raisesA id (committed_membership R)) (\<lambda>m.
     liftA (Inr \<lparr>view_voters = bs_of_list (mb_voter_ids m), view_learners = bs_of_list (mb_learner_ids m),
       view_addresses = fold (\<lambda>(node, addr) t. bt_insert node addr t) (mb_nodes m) [],
       view_joint = (1 < mb_joint_config_len m)\<rparr>))"

definition committed_voter_ids :: "'r OpenRaft \<Rightarrow> ('r, NodeId list) action" where
  "committed_voter_ids R = bindA (membership_view R) (\<lambda>v. liftA (Inr (view_voters v)))"

definition committed_learner_ids :: "'r OpenRaft \<Rightarrow> ('r, NodeId list) action" where
  "committed_learner_ids R = bindA (membership_view R) (\<lambda>v. liftA (Inr (view_learners v)))"

definition require_transition :: "StateMachine \<Rightarrow> u64 \<Rightarrow> RaftCallError + MembershipTransition" where
  "require_transition s started =
     bindE (ok_or (configuration ''there is no membership transition'')
              (cc_transition (cluster_control s))) (\<lambda>t.
     bindE (ensure (started_log_index t = started)
              (configuration ''membership transition log identity does not match'')) (\<lambda>_.
     Inr t))"

text \<open>The rounds of the loop that are left; the result says whether the learner caught up.\<close>

fun learner_rounds :: "'r OpenRaft \<Rightarrow> u64 \<Rightarrow> string \<Rightarrow> nat \<Rightarrow> ('r, bool) action" where
  "learner_rounds R node address 0 = liftA (Inr False)"
| "learner_rounds R node address (Suc n) =
     bindA (add_learner R node address False) (\<lambda>_.
     bindA (\<lambda>r. map_prod Inr id (learner_progress R node r)) (\<lambda>progress.
     if progress then liftA (Inr True) else learner_rounds R node address n))"

definition joining_descriptor :: "StateMachine \<Rightarrow> MembershipTransition \<Rightarrow> RaftCallError + NodeDescriptor" where
  "joining_descriptor s t =
     bindE (ensure (mt_kind t = TransitionAdd)
              (configuration ''learner catch-up requires the current ADD transition'')) (\<lambda>_.
     bindE (ok_or (configuration ''ADD transition node has no committed descriptor'')
              (bt_get (cc_nodes (cluster_control s)) (mt_node_id t))) (\<lambda>d.
     bindE (ensure (nd_state d = Joining)
              (configuration ''learner catch-up must finish before ADD activation commits'')) (\<lambda>_.
     Inr d)))"

definition joining_before :: "NodeId \<Rightarrow> NodeDescriptor \<Rightarrow> MembershipView \<Rightarrow> RaftCallError + unit" where
  "joining_before node d view =
     bindE (ensure (node \<notin> set (view_voters view))
              (configuration ''a JOINING node must not be a Raft voter'')) (\<lambda>_.
     ensure (case bt_get (view_addresses view) node of
               Some address \<Rightarrow> address = peer_address d | None \<Rightarrow> True)
       (configuration ''JOINING learner address differs from its committed descriptor''))"

definition joining_after :: "NodeId \<Rightarrow> MembershipView \<Rightarrow> RaftCallError + unit" where
  "joining_after node view =
     bindE (ensure (node \<notin> set (view_voters view))
              (configuration ''learner catch-up promoted a JOINING node'')) (\<lambda>_.
     ensure (node \<in> set (view_learners view))
       (configuration ''JOINING node was not committed as a Raft learner''))"

definition catch_up_joining_learner :: "'r OpenRaft \<Rightarrow> u64 \<Rightarrow> ('r, unit) action" where
  "catch_up_joining_learner R started =
     bindA (raisesA id (raft_state R)) (\<lambda>s.
     bindA (liftA (require_transition s started)) (\<lambda>t.
     bindA (liftA (joining_descriptor s t)) (\<lambda>d.
     bindA (membership_view R) (\<lambda>before.
     bindA (liftA (joining_before (mt_node_id t) d before)) (\<lambda>_.
     bindA (learner_rounds R (mt_node_id t) (peer_address d) 2) (\<lambda>caught_up.
     bindA (liftA (ensure caught_up (Raised (Unavailable ''learner catch-up did not complete'')))) (\<lambda>_.
     bindA (membership_view R) (\<lambda>after.
     liftA (joining_after (mt_node_id t) after)))))))))"

section \<open>Fixed voters\<close>

definition excluded_node :: "ClusterControlState \<Rightarrow> MembershipTransition \<Rightarrow> RaftCallError + NodeId option" where
  "excluded_node c t =
     (case mt_kind t of
        TransitionAdd \<Rightarrow>
          bindE (ok_or (configuration ''ADD transition node has no committed descriptor'')
                   (bt_get (cc_nodes c) (mt_node_id t))) (\<lambda>d.
          bindE (ensure (nd_state d = Active)
                   (configuration ''ADD activation must commit before voter membership changes'')) (\<lambda>_.
          Inr None))
      | TransitionRemove \<Rightarrow> Inr (Some (mt_node_id t))
      | TransitionReweight \<Rightarrow>
          Inl (configuration ''REWEIGHT does not change fixed Raft voter membership''))"

definition eligible_nodes :: "ClusterControlState \<Rightarrow> NodeId option \<Rightarrow> (NodeId, NodeDescriptor) btree" where
  "eligible_nodes c excluded = filter (\<lambda>(node, d). nd_state d = Active \<and> Some node \<noteq> excluded) (cc_nodes c)"

definition candidate_address :: "MembershipView \<Rightarrow> NodeId \<times> NodeDescriptor \<Rightarrow> RaftCallError + unit" where
  "candidate_address view e =
     (case bt_get (view_addresses view) (fst e) of
        Some address \<Rightarrow> ensure (address = peer_address (snd e))
          (configuration ''Raft member address differs from its committed descriptor'')
      | None \<Rightarrow> Inl (configuration ''an ACTIVE voter candidate is absent from Raft membership''))"

fun fill_vacancies :: "nat \<Rightarrow> NodeId list \<Rightarrow> NodeId list \<Rightarrow> NodeId list" where
  "fill_vacancies target [] desired = desired"
| "fill_vacancies target (node # nodes) desired =
     (if length desired = target then desired
      else fill_vacancies target nodes (bs_insert node desired))"

definition desired_voters ::
    "ClusterControlState \<Rightarrow> NodeId option \<Rightarrow> MembershipView \<Rightarrow> RaftCallError + NodeId list" where
  "desired_voters c excluded before =
     (let eligible = eligible_nodes c excluded;
          target = min (length eligible) FIXED_VOTER_TARGET in
      bindE (ensure (target \<noteq> 0) (configuration ''fixed voter membership must not be empty'')) (\<lambda>_.
      bindE (forE (candidate_address before) eligible) (\<lambda>_.
      let kept = filter (\<lambda>v. v \<in> set (map fst eligible)) (view_voters before) in
      bindE (ensure (length kept \<le> target)
               (configuration ''committed membership has more eligible voters than the fixed target'')) (\<lambda>_.
      let desired = fill_vacancies target (map fst eligible) kept in
      bindE (ensure (length desired = target)
               (configuration ''not enough ACTIVE Raft members to satisfy the fixed voter target'')) (\<lambda>_.
      Inr desired)))))"

definition fixed_after :: "NodeId option \<Rightarrow> NodeId list \<Rightarrow> MembershipView \<Rightarrow> RaftCallError + unit" where
  "fixed_after excluded desired view =
     bindE (ensure (\<not> (view_voters view \<noteq> desired \<or> view_joint view))
              (configuration ''OpenRaft did not commit the exact fixed voter membership'')) (\<lambda>_.
     ensure (\<not> (case excluded of Some node \<Rightarrow> bt_contains_key (view_addresses view) node | None \<Rightarrow> False))
       (configuration ''REMOVE target remains in committed Raft membership''))"

definition drop_excluded :: "'r OpenRaft \<Rightarrow> NodeId option \<Rightarrow> ('r, unit) action" where
  "drop_excluded R excluded =
     (case excluded of
        None \<Rightarrow> liftA (Inr ())
      | Some node \<Rightarrow>
          bindA (membership_view R) (\<lambda>view.
          if bt_contains_key (view_addresses view) node then remove_learner R node else liftA (Inr ())))"

definition apply_fixed_voters_for_transition :: "'r OpenRaft \<Rightarrow> u64 \<Rightarrow> ('r, NodeId list) action" where
  "apply_fixed_voters_for_transition R started =
     bindA (raisesA id (raft_state R)) (\<lambda>s.
     bindA (liftA (require_transition s started)) (\<lambda>t.
     bindA (liftA (excluded_node (cluster_control s) t)) (\<lambda>excluded.
     bindA (membership_view R) (\<lambda>before.
     bindA (liftA (desired_voters (cluster_control s) excluded before)) (\<lambda>desired.
     bindA (if view_voters before \<noteq> desired \<or> view_joint before
            then change_membership R desired False else liftA (Inr ())) (\<lambda>_.
     bindA (drop_excluded R excluded) (\<lambda>_.
     bindA (membership_view R) (\<lambda>after.
     bindA (liftA (fixed_after excluded desired after)) (\<lambda>_.
     liftA (Inr desired))))))))))"

section \<open>Lemmas: actions\<close>

lemma bindA_Inr:
  "bindA m k r = (Inr y, r') \<longleftrightarrow> (\<exists>x r1. m r = (Inr x, r1) \<and> k x r1 = (Inr y, r'))"
  by (auto simp: bindA_def split: prod.splits sum.splits)

lemma liftA_Inr: "liftA m r = (Inr y, r') \<longleftrightarrow> m = Inr y \<and> r' = r"
  by (auto simp: liftA_def)

lemma raisesA_Inr: "raisesA h m r = (Inr y, r') \<longleftrightarrow> m r = (Inr y, r')"
  by (auto simp: raisesA_def map_err_def split: prod.splits sum.splits)

lemmas action_simps = bindA_Inr liftA_Inr raisesA_Inr

lemma bindA_safe:
  "fst (m r) \<noteq> Inl e \<Longrightarrow> (\<And>x r1. m r = (Inr x, r1) \<Longrightarrow> fst (k x r1) \<noteq> Inl e) \<Longrightarrow>
   fst (bindA m k r) \<noteq> Inl e"
  by (auto simp: bindA_def split: prod.splits sum.splits)

lemma raisesA_safe: "fst (raisesA h m r) \<noteq> Inl Panicked"
  by (auto simp: raisesA_def map_err_def split: prod.splits sum.splits)

lemma liftA_safe: "m \<noteq> Inl e \<Longrightarrow> fst (liftA m r) \<noteq> Inl e"
  by (simp add: liftA_def)

lemma bindE_safe:
  "m \<noteq> Inl e \<Longrightarrow> (\<And>x. m = Inr x \<Longrightarrow> k x \<noteq> Inl e) \<Longrightarrow> bindE m k \<noteq> Inl e"
  by (cases m) (auto simp: bindE_def)

lemma forE_safe: "(\<And>x. x \<in> set xs \<Longrightarrow> f x \<noteq> Inl e) \<Longrightarrow> forE f xs \<noteq> Inl e"
  using forE_eq_Inl by metis

section \<open>Lemmas: filling vacancies\<close>

lemma length_bs_insert:
  "sorted_wrt (<) xs \<Longrightarrow> length (bs_insert x xs) = (if x \<in> set xs then length xs else Suc (length xs))"
  by (induction xs) auto

lemma sorted_card: "sorted_wrt (<) xs \<Longrightarrow> card (set xs) = length xs" for xs :: "'a::linorder list"
  by (simp add: distinct_card strict_sorted_iff)

lemma fill_vacancies_set:
  "set desired \<subseteq> set (fill_vacancies target nodes desired)"
  "set (fill_vacancies target nodes desired) \<subseteq> set desired \<union> set nodes"
  by (induction target nodes desired rule: fill_vacancies.induct) auto

lemma fill_vacancies_sorted:
  "sorted_wrt (<) desired \<Longrightarrow> sorted_wrt (<) (fill_vacancies target nodes desired)"
  by (induction target nodes desired rule: fill_vacancies.induct) (auto intro: bs_insert_sorted)

lemma fill_vacancies_length:
  assumes "sorted_wrt (<) desired" "length desired \<le> target"
    "target \<le> card (set desired \<union> set nodes)"
  shows "length (fill_vacancies target nodes desired) = target"
  using assms
proof (induction target nodes desired rule: fill_vacancies.induct)
  case (1 target desired)
  then show ?case using sorted_card [of desired] by simp
next
  case (2 target node nodes desired)
  show ?case
  proof (cases "length desired = target")
    case False
    then have "length (bs_insert node desired) \<le> target" using 2 by (simp add: length_bs_insert)
    with False 2 show ?thesis by (simp add: bs_insert_sorted)
  qed simp
qed

lemma fill_vacancies_lowest:
  assumes "sorted_wrt (<) nodes" "n \<in> set (fill_vacancies target nodes desired)" "n \<notin> set desired"
    "m \<in> set nodes" "m \<notin> set (fill_vacancies target nodes desired)"
  shows "n < m"
  using assms
proof (induction target nodes desired rule: fill_vacancies.induct)
  case (2 target node nodes desired)
  then have full: "length desired \<noteq> target" by auto
  have "node \<in> set (fill_vacancies target nodes (bs_insert node desired))"
    using fill_vacancies_set(1) [of "bs_insert node desired" target nodes] by auto
  then have m: "m \<in> set nodes" using 2(5,6) full by auto
  show ?case
  proof (cases "n = node")
    case True
    then show ?thesis using 2(2) m by simp
  next
    case False
    then show ?thesis using 2 full m by (intro 2(1)) simp_all
  qed
qed simp

lemma eligible_sorted:
  assumes "bt_wf (cc_nodes c)"
  shows "sorted_wrt (<) (map fst (eligible_nodes c excluded))"
  using assms unfolding bt_wf_def eligible_nodes_def by (simp add: sorted_wrt_map sorted_wrt_filter)

definition eligible_ids :: "ClusterControlState \<Rightarrow> NodeId option \<Rightarrow> NodeId set" where
  "eligible_ids c excluded =
     {node. Some node \<noteq> excluded \<and> (\<exists>d. bt_get (cc_nodes c) node = Some d \<and> nd_state d = Active)}"

lemma eligible_nodes_ids:
  assumes "bt_wf (cc_nodes c)"
  shows "set (map fst (eligible_nodes c excluded)) = eligible_ids c excluded"
  using assms unfolding eligible_nodes_def eligible_ids_def
  by (force simp: bt_get_def bt_wf_def strict_sorted_iff map_of_eq_Some_iff)

lemma length_eligible:
  assumes "bt_wf (cc_nodes c)"
  shows "length (eligible_nodes c excluded) = card (eligible_ids c excluded)"
  using sorted_card [OF eligible_sorted [OF assms, of excluded]] eligible_nodes_ids [OF assms] by simp

section \<open>The desired voters\<close>

text \<open>Every eligible node is a Raft member under the address of its descriptor.\<close>

definition candidates_reachable :: "ClusterControlState \<Rightarrow> NodeId option \<Rightarrow> MembershipView \<Rightarrow> bool" where
  "candidates_reachable c excluded view \<longleftrightarrow>
     (\<forall>node \<in> eligible_ids c excluded. \<forall>d. bt_get (cc_nodes c) node = Some d \<longrightarrow>
        bt_get (view_addresses view) node = Some (peer_address d))"

lemma candidate_address_ok:
  "candidate_address view e = Inr () \<longleftrightarrow>
     bt_get (view_addresses view) (fst e) = Some (peer_address (snd e))"
  by (auto simp: candidate_address_def result_simps split: option.splits)

lemma candidates_reachable:
  assumes "bt_wf (cc_nodes c)"
  shows "forE (candidate_address view) (eligible_nodes c excluded) = Inr () \<longleftrightarrow>
           candidates_reachable c excluded view"
  using bt_get_iff [OF assms]
  by (auto simp: eligible_nodes_def candidates_reachable_def eligible_ids_def candidate_address_ok)

lemma desired_voters_eq:
  fixes excluded :: "NodeId option"
  assumes "bt_wf (cc_nodes c)" "sorted_wrt (<) (view_voters view)"
  defines "E \<equiv> eligible_ids c excluded"
  defines "target \<equiv> min (card E) FIXED_VOTER_TARGET"
  defines "kept \<equiv> filter (\<lambda>v. v \<in> E) (view_voters view)"
  shows "desired_voters c excluded view = Inr desired \<longleftrightarrow>
    target \<noteq> 0 \<and> candidates_reachable c excluded view \<and> length kept \<le> target \<and>
    desired = fill_vacancies target (map fst (eligible_nodes c excluded)) kept"
proof -
  have "sorted_wrt (<) kept" using assms(2) by (simp add: kept_def sorted_wrt_filter)
  moreover have "E = set (map fst (eligible_nodes c excluded))"
    by (simp only: E_def eligible_nodes_ids [OF assms(1)])
  then have "finite E" "set kept \<union> set (map fst (eligible_nodes c excluded)) = E"
    by (auto simp: kept_def)
  ultimately have full: "length kept \<le> target \<Longrightarrow>
      length (fill_vacancies target (map fst (eligible_nodes c excluded)) kept) = target"
    by (intro fill_vacancies_length) (simp_all add: target_def)
  show ?thesis
    unfolding desired_voters_def Let_def length_eligible [OF assms(1)] eligible_nodes_ids [OF assms(1)]
    using full candidates_reachable [OF assms(1), of view excluded]
    by (auto simp: result_simps E_def target_def kept_def)
qed

lemma card_kept:
  fixes vs :: "'a::linorder list"
  assumes "sorted_wrt (<) vs"
  shows "card (set vs \<inter> E) = length (filter (\<lambda>v. v \<in> E) vs)"
proof -
  have "set vs \<inter> E = set (filter (\<lambda>v. v \<in> E) vs)" by auto
  then show ?thesis using sorted_card [of "filter (\<lambda>v. v \<in> E) vs"] assms
    by (simp add: sorted_wrt_filter)
qed

lemma desired_voters_exist:
  assumes "bt_wf (cc_nodes c)" "sorted_wrt (<) (view_voters view)"
  shows "(\<exists>desired. desired_voters c excluded view = Inr desired) \<longleftrightarrow>
           eligible_ids c excluded \<noteq> {} \<and> candidates_reachable c excluded view \<and>
           card (set (view_voters view) \<inter> eligible_ids c excluded)
             \<le> min (card (eligible_ids c excluded)) FIXED_VOTER_TARGET"
proof -
  have "finite (eligible_ids c excluded)" by (simp flip: eligible_nodes_ids [OF assms(1)])
  then have "min (card (eligible_ids c excluded)) FIXED_VOTER_TARGET \<noteq> 0 \<longleftrightarrow>
      eligible_ids c excluded \<noteq> {}" by (auto simp: FIXED_VOTER_TARGET_def)
  then show ?thesis unfolding desired_voters_eq [OF assms] card_kept [OF assms(2)] by blast
qed

lemma desired_voters_props:
  assumes "bt_wf (cc_nodes c)" "sorted_wrt (<) (view_voters view)"
    "desired_voters c excluded view = Inr desired"
  shows "sorted_wrt (<) desired" "set desired \<subseteq> eligible_ids c excluded"
    "set (view_voters view) \<inter> eligible_ids c excluded \<subseteq> set desired"
    "length desired = min (card (eligible_ids c excluded)) FIXED_VOTER_TARGET"
    "new \<in> set desired - set (view_voters view) \<Longrightarrow> other \<in> eligible_ids c excluded - set desired \<Longrightarrow>
       new < other"
proof -
  let ?E = "eligible_ids c excluded"
  let ?ids = "map fst (eligible_nodes c excluded)"
  let ?kept = "filter (\<lambda>v. v \<in> ?E) (view_voters view)"
  let ?target = "min (card ?E) FIXED_VOTER_TARGET"
  have ids: "set ?ids = ?E" "sorted_wrt (<) ?ids"
    by (rule eligible_nodes_ids [OF assms(1)], rule eligible_sorted [OF assms(1)])
  have fin: "finite ?E" by (simp flip: ids(1))
  have kept: "sorted_wrt (<) ?kept" using assms(2) by (simp add: sorted_wrt_filter)
  have d: "length ?kept \<le> ?target" "desired = fill_vacancies ?target ?ids ?kept"
    using assms(3) unfolding desired_voters_eq [OF assms(1,2)] by blast+
  have "set ?kept \<union> set ?ids = ?E" using ids(1) by auto
  then have "?target \<le> card (set ?kept \<union> set ?ids)" by simp
  then show "length desired = ?target"
    unfolding d(2) by (rule fill_vacancies_length [OF kept d(1)])
  show "sorted_wrt (<) desired" unfolding d(2) by (rule fill_vacancies_sorted [OF kept])
  show "set desired \<subseteq> ?E" "set (view_voters view) \<inter> ?E \<subseteq> set desired"
    using fill_vacancies_set(1) [of ?kept ?target ?ids] fill_vacancies_set(2) [of ?target ?ids ?kept] ids(1)
    unfolding d(2) by auto
  show "new < other" if "new \<in> set desired - set (view_voters view)" "other \<in> ?E - set desired"
    using that fill_vacancies_lowest [OF ids(2), of new ?target ?kept other] ids(1) d(2) by auto
qed

text \<open>C31. The voters a leader computes for a transition are found exactly when some active node is
  left, every eligible node is a Raft member under its descriptor's address and the eligible voters
  do not exceed the target. They are then eligible (active and not being removed), keep every
  current voter that is eligible, number the smaller of three and the eligible nodes, and fill each
  vacancy with the lowest eligible identities.\<close>

theorem desired_voters_correct:
  assumes "bt_wf (cc_nodes c)" "sorted_wrt (<) (view_voters view)"
  shows "((\<exists>desired. desired_voters c excluded view = Inr desired) \<longleftrightarrow>
           eligible_ids c excluded \<noteq> {} \<and> candidates_reachable c excluded view \<and>
           card (set (view_voters view) \<inter> eligible_ids c excluded)
             \<le> min (card (eligible_ids c excluded)) FIXED_VOTER_TARGET) \<and>
         (\<forall>desired. desired_voters c excluded view = Inr desired \<longrightarrow>
           sorted_wrt (<) desired \<and> set desired \<subseteq> eligible_ids c excluded \<and>
           set (view_voters view) \<inter> eligible_ids c excluded \<subseteq> set desired \<and>
           length desired = min (card (eligible_ids c excluded)) FIXED_VOTER_TARGET \<and>
           (\<forall>new \<in> set desired - set (view_voters view).
              \<forall>other \<in> eligible_ids c excluded - set desired. new < other))"
  using desired_voters_exist [OF assms] desired_voters_props [OF assms] by blast

section \<open>The guards and the replicated check\<close>

lemma cluster_ok_wf: "cluster_ok c \<Longrightarrow> bt_wf (cc_nodes c)"
  by (simp add: cluster_ok_def nodes_ok_def)

lemma cluster_ok_id:
  assumes "cluster_ok c" "bt_get (cc_nodes c) node = Some d"
  shows "valid_raft_id node"
proof -
  have "nodes_ok (used_node_ids c) (cc_nodes c)" using assms(1) by (simp add: cluster_ok_def)
  from nodes_ok_get [OF this assms(2)] show ?thesis
    by (auto simp: validate_descriptor_def validate_node_id_def valid_raft_id_def result_simps)
qed

lemma cluster_ok_transition:
  assumes "cluster_ok c" "cc_transition c = Some t"
  obtains d where "bt_get (cc_nodes c) (mt_node_id t) = Some d" "target_ok (active_node_count c) t d"
  using assms by (auto simp: cluster_ok_def transition_ok_def)

lemma active_count_ids:
  assumes "bt_wf (cc_nodes c)"
  shows "active_node_count c = card (eligible_ids c None)"
  using length_eligible [OF assms, of None]
  by (simp add: active_node_count_def eligible_nodes_def filter_map o_def case_prod_unfold)

text \<open>The number of voters every check of a transition expects.\<close>

lemma eligible_count:
  assumes "cluster_ok c" "cc_transition c = Some t" "excluded_node c t = Inr excluded"
  shows "expected_voters c t = Inr (min (card (eligible_ids c excluded)) FIXED_VOTER_TARGET)"
proof -
  have wf: "bt_wf (cc_nodes c)" by (rule cluster_ok_wf [OF assms(1)])
  from assms(1,2) obtain d where
    d: "bt_get (cc_nodes c) (mt_node_id t) = Some d" "target_ok (active_node_count c) t d"
    by (rule cluster_ok_transition)
  show ?thesis
  proof (cases "mt_kind t")
    case TransitionAdd
    with assms(3) d(1) show ?thesis
      by (auto simp: excluded_node_def expected_voters_def voter_target_def active_count_ids [OF wf]
          result_simps)
  next
    case TransitionRemove
    then have "eligible_ids c excluded = eligible_ids c None - {mt_node_id t}"
      using assms(3) by (auto simp: excluded_node_def eligible_ids_def)
    moreover have "mt_node_id t \<in> eligible_ids c None"
      using TransitionRemove d by (simp add: eligible_ids_def target_ok_def)
    ultimately show ?thesis
      using TransitionRemove by (simp add: expected_voters_def active_count_ids [OF wf])
  next
    case TransitionReweight
    then show ?thesis using assms(3) by (simp add: excluded_node_def)
  qed
qed

lemma eligible_allowed:
  assumes "cc_transition c = Some t" "excluded_node c t = Inr excluded" "v \<in> eligible_ids c excluded"
  shows "voter_allowed c v = Inr ()"
  using assms by (auto simp: voter_allowed_def eligible_ids_def excluded_node_def result_simps
      split: MembershipTransitionKind.splits)

text \<open>C32. The voters a leader computes for the current transition pass every guard of the membership
  call that installs them, in the state they were computed from: the set is not empty, its
  identities are in range, it has the expected size and each voter is admitted, active and not
  being removed. The call is therefore never refused by its own guards.\<close>

theorem desired_voters_accepted:
  assumes "cluster_ok c" "sorted_wrt (<) (view_voters view)" "cc_transition c = Some t"
    "excluded_node c t = Inr excluded" "desired_voters c excluded view = Inr desired"
  shows "voters_well_formed desired = Inr () \<and> voters_allowed c desired = Inr ()"
proof -
  have wf: "bt_wf (cc_nodes c)" by (rule cluster_ok_wf [OF assms(1)])
  note d = desired_voters_props [OF wf assms(2,5)]
  have "eligible_ids c excluded \<noteq> {}"
    using desired_voters_exist [OF wf assms(2), of excluded] assms(5) by blast
  moreover have "finite (eligible_ids c excluded)" by (simp flip: eligible_nodes_ids [OF wf])
  ultimately have "card (eligible_ids c excluded) \<noteq> 0" by simp
  then have "desired \<noteq> []" using d(4) by (auto simp: FIXED_VOTER_TARGET_def min_def split: if_splits)
  moreover have "\<forall>v \<in> set desired. valid_raft_id v"
    using d(2) cluster_ok_id [OF assms(1)] by (auto simp: eligible_ids_def)
  ultimately have "voters_well_formed desired = Inr ()"
    by (simp add: voters_well_formed_def result_simps find_None_iff split: option.split)
  moreover have "\<forall>v \<in> set desired. voter_allowed c v = Inr ()"
    using d(2) eligible_allowed [OF assms(3,4)] by blast
  then have "voters_allowed c desired = Inr ()"
    using assms(3) d(4) eligible_count [OF assms(1,3,4)]
    by (simp add: voters_allowed_def result_simps)
  ultimately show ?thesis by blast
qed

lemma view_addresses_keys:
  "bt_get (fold (\<lambda>(node, addr) t. bt_insert node addr t) xs t) node \<noteq> None \<longleftrightarrow>
     node \<in> fst ` set xs \<or> bt_get t node \<noteq> None"
  by (induction xs arbitrary: t) (auto simp: bt_get_insert split: if_splits)

lemma membership_view_Inr:
  assumes "membership_view R r = (Inr view, r')"
  obtains m where "committed_membership R r = (Inr m, r')" "view_voters view = bs_of_list (mb_voter_ids m)"
    "view_joint view \<longleftrightarrow> 1 < mb_joint_config_len m"
    "\<And>node. bt_get (view_addresses view) node \<noteq> None \<longleftrightarrow> node \<in> fst ` set (mb_nodes m)"
proof -
  from assms obtain m where m: "committed_membership R r = (Inr m, r')"
    "view = \<lparr>view_voters = bs_of_list (mb_voter_ids m), view_learners = bs_of_list (mb_learner_ids m),
       view_addresses = fold (\<lambda>(node, addr) t. bt_insert node addr t) (mb_nodes m) [],
       view_joint = (1 < mb_joint_config_len m)\<rparr>"
    unfolding membership_view_def action_simps by auto
  have "bt_get (view_addresses view) node \<noteq> None \<longleftrightarrow> node \<in> fst ` set (mb_nodes m)" for node
    using view_addresses_keys [of "mb_nodes m" "[]" node] by (simp add: m(2) bt_get_def)
  with m show thesis by (intro that [of m]) simp_all
qed

text \<open>What a successful run read: the state, the view it computed the voters from, the last view.\<close>

lemma apply_fixed_voters_Inr:
  assumes "apply_fixed_voters_for_transition R started r = (Inr desired, r')" "raft_state R r = (Inr s, r0)"
  obtains t excluded before after r1 where
    "cc_transition (cluster_control s) = Some t" "started_log_index t = started"
    "excluded_node (cluster_control s) t = Inr excluded" "sorted_wrt (<) (view_voters before)"
    "desired_voters (cluster_control s) excluded before = Inr desired"
    "membership_view R r1 = (Inr after, r')" "fixed_after excluded desired after = Inr ()"
proof -
  from assms obtain t excluded before rb rc rd after where
    a: "require_transition s started = Inr t" "excluded_node (cluster_control s) t = Inr excluded"
    "membership_view R rb = (Inr before, rc)"
    "desired_voters (cluster_control s) excluded before = Inr desired"
    "membership_view R rd = (Inr after, r')" "fixed_after excluded desired after = Inr ()"
    unfolding apply_fixed_voters_for_transition_def action_simps by auto
  from a(3) have "sorted_wrt (<) (view_voters before)"
    by (rule membership_view_Inr) (simp add: sorted_bs_of_list)
  with a show thesis by (intro that) (auto simp: require_transition_def result_simps)
qed

lemma eligible_active: "node \<in> eligible_ids (cluster_control s) excluded \<Longrightarrow> is_active s node"
  by (auto simp: eligible_ids_def is_active_def)

lemma validate_voters_of:
  assumes "bs_of_list (mb_voter_ids m) = desired" "set desired \<subseteq> eligible_ids (cluster_control s) excluded"
    "length desired = n"
  shows "validate_voters m s n = Inr ()"
  using assms eligible_active by (auto simp: validate_voters_def Let_def result_simps)

text \<open>C30. A leader that applied the fixed voters of a transition may complete it: when the call
  returns, the committed membership it read last has exactly the returned voters and is not joint,
  and a completion of the transition checked against that membership and the state the call started
  from is accepted by the replicated machine. This needs the membership to be well formed, as OpenRaft
  builds it, and for an ADD the added node to be a member still; OpenRaft keeps learners through a
  voter change.\<close>

theorem fixed_voters_complete:
  assumes "apply_fixed_voters_for_transition R started r = (Inr desired, r')"
    "raft_state R r = (Inr s, r0)" "cluster_ok (cluster_control s)"
  shows "\<exists>m r1. committed_membership R r1 = (Inr m, r') \<and> bs_of_list (mb_voter_ids m) = desired \<and>
           mb_joint_config_len m \<le> 1 \<and>
           (membership_wf (Membership.truncate m) \<and>
            (\<forall>t. cc_transition (cluster_control s) = Some t \<and> mt_kind t = TransitionAdd \<longrightarrow>
               mb_get_node m (mt_node_id t) \<noteq> None) \<longrightarrow>
            validate_completion (Membership.truncate m) s started = Inr ())"
proof -
  let ?c = "cluster_control s"
  from assms(1,2) obtain t excluded before after r1 where
    a: "cc_transition ?c = Some t" "started_log_index t = started" "excluded_node ?c t = Inr excluded"
    "sorted_wrt (<) (view_voters before)" "desired_voters ?c excluded before = Inr desired"
    "membership_view R r1 = (Inr after, r')" "fixed_after excluded desired after = Inr ()"
    by (rule apply_fixed_voters_Inr)
  from a(6) obtain m where m: "committed_membership R r1 = (Inr m, r')"
    "view_voters after = bs_of_list (mb_voter_ids m)" "view_joint after \<longleftrightarrow> 1 < mb_joint_config_len m"
    "\<And>node. bt_get (view_addresses after) node \<noteq> None \<longleftrightarrow> node \<in> fst ` set (mb_nodes m)"
    by (rule membership_view_Inr) blast
  let ?m = "Membership.truncate m"
  have voters: "bs_of_list (mb_voter_ids m) = desired" "mb_joint_config_len m \<le> 1"
    using a(7) m(2,3) by (auto simp: fixed_after_def result_simps)
  note d = desired_voters_props [OF cluster_ok_wf [OF assms(3)] a(4,5)]
  have valid: "validate_voters ?m s n = Inr ()" if "expected_voters ?c t = Inr n" for n
    using that eligible_count [OF assms(3) a(1,3)] voters(1) d(2,4)
    by (intro validate_voters_of) (simp_all add: Membership.truncate_def)
  have "validate_completion ?m s started = Inr ()"
    if wf: "membership_wf ?m" and kept: "mt_kind t = TransitionAdd \<Longrightarrow> mb_get_node ?m (mt_node_id t) \<noteq> None"
  proof (cases "mt_kind t")
    case TransitionAdd
    then show ?thesis using a(1-3) kept valid
      by (auto simp: validate_completion_def validate_fixed_voters_def excluded_node_def
          expected_voters_def result_simps)
  next
    case TransitionRemove
    then have "bt_get (view_addresses after) (mt_node_id t) = None"
      using a(3,7) by (auto simp: excluded_node_def fixed_after_def result_simps)
    then have "mt_node_id t \<notin> fst ` set (mb_nodes m)" using m(4) by blast
    then have "mb_get_node ?m (mt_node_id t) = None"
      using wf by (simp add: membership_wf_def map_of_eq_None_iff Membership.truncate_def)
    then show ?thesis using TransitionRemove a(1,2) valid
      by (simp add: validate_completion_def expected_voters_def result_simps)
  next
    case TransitionReweight
    then show ?thesis using a(3) by (simp add: excluded_node_def)
  qed
  then show ?thesis using m(1) voters a(1)
    by (intro exI [of _ m] exI [of _ r1]) (auto simp: Membership.truncate_def)
qed

section \<open>Panics\<close>

lemma learner_allowed_safe: "cluster_ok c \<Longrightarrow> learner_allowed c node address \<noteq> Inl Panicked"
  by (auto simp: learner_allowed_def configuration_def result_simps bindE_eq_Inl
      elim!: cluster_ok_transition)

lemma voters_allowed_safe: "cluster_ok c \<Longrightarrow> voters_allowed c voters \<noteq> Inl Panicked"
  by (auto simp: voters_allowed_def expected_voters_def voter_allowed_def configuration_def
      bindE_eq_Inl result_simps dest!: forE_eq_Inl split: MembershipTransitionKind.splits
      elim!: cluster_ok_transition)

lemma pure_safe:
  "configuration x \<noteq> Panicked" "validate_peer_node n a \<noteq> Inl Panicked"
  "voters_well_formed vs \<noteq> Inl Panicked" "require_transition s started \<noteq> Inl Panicked"
  "joining_descriptor s t \<noteq> Inl Panicked" "joining_before n d view \<noteq> Inl Panicked"
  "joining_after n view \<noteq> Inl Panicked" "excluded_node c t \<noteq> Inl Panicked"
  "candidate_address view e \<noteq> Inl Panicked" "fixed_after excluded desired view \<noteq> Inl Panicked"
  by (auto simp: configuration_def validate_peer_node_def invalid_node_id_def voters_well_formed_def
      require_transition_def joining_descriptor_def joining_before_def joining_after_def
      excluded_node_def candidate_address_def fixed_after_def bindE_eq_Inl result_simps
      split: option.splits MembershipTransitionKind.splits)

lemma desired_voters_safe: "desired_voters c excluded view \<noteq> Inl Panicked"
  using pure_safe(9)
  by (auto simp: desired_voters_def Let_def configuration_def bindE_eq_Inl result_simps dest!: forE_eq_Inl)

lemma membership_view_safe: "fst (membership_view R r) \<noteq> Inl Panicked"
  unfolding membership_view_def by (intro bindA_safe raisesA_safe liftA_safe) simp

definition states_ok :: "'r OpenRaft \<Rightarrow> bool" where
  "states_ok R \<longleftrightarrow> (\<forall>r s r'. raft_state R r = (Inr s, r') \<longrightarrow> cluster_ok (cluster_control s))"

lemma state_ok: "states_ok R \<Longrightarrow> raisesA id (raft_state R) r = (Inr s, r') \<Longrightarrow> cluster_ok (cluster_control s)"
  by (auto simp: states_ok_def raisesA_Inr)

lemma add_learner_safe:
  assumes "states_ok R"
  shows "fst (add_learner R node address blocking r) \<noteq> Inl Panicked"
  unfolding add_learner_def
  by (intro bindA_safe raisesA_safe liftA_safe pure_safe learner_allowed_safe state_ok [OF assms])

lemma change_membership_safe:
  assumes "states_ok R"
  shows "fst (change_membership R voters retain r) \<noteq> Inl Panicked"
  unfolding change_membership_def
  by (intro bindA_safe raisesA_safe liftA_safe pure_safe voters_allowed_safe state_ok [OF assms])

lemma remove_learner_safe: "fst (remove_learner R node r) \<noteq> Inl Panicked"
  unfolding remove_learner_def
  by (intro bindA_safe raisesA_safe liftA_safe)
    (auto simp: result_simps invalid_node_id_def configuration_def)

lemma learner_rounds_safe:
  assumes "states_ok R"
  shows "fst (learner_rounds R node address n r) \<noteq> Inl Panicked"
proof (induction n arbitrary: r)
  case (Suc n)
  show ?case unfolding learner_rounds.simps
    by (intro bindA_safe add_learner_safe [OF assms])
      (auto simp: Suc liftA_def map_prod_def split: prod.splits)
qed (simp add: liftA_def)

lemma drop_excluded_safe: "fst (drop_excluded R excluded r) \<noteq> Inl Panicked"
proof (cases excluded)
  case (Some node)
  show ?thesis unfolding drop_excluded_def Some option.case
    by (rule bindA_safe [OF membership_view_safe]) (simp add: liftA_def remove_learner_safe)
qed (simp add: drop_excluded_def liftA_def)

text \<open>C33. The calls that drive a membership transition never panic: on a node whose committed
  states satisfy the cluster invariant, whatever OpenRaft answers and however the state changes
  between two calls, catching up a learner and applying the fixed voters return a value or an
  error, and the indexing of the descriptor map in their guards finds its key.\<close>

theorem membership_never_panics:
  assumes "\<And>r s r'. raft_state R r = (Inr s, r') \<Longrightarrow> cluster_ok (cluster_control s)"
  shows "fst (catch_up_joining_learner R started r) \<noteq> Inl Panicked \<and>
         fst (apply_fixed_voters_for_transition R started r) \<noteq> Inl Panicked"
proof -
  have ok: "states_ok R" using assms by (auto simp: states_ok_def)
  have "fst (catch_up_joining_learner R started r) \<noteq> Inl Panicked"
    unfolding catch_up_joining_learner_def
    by (intro bindA_safe raisesA_safe liftA_safe pure_safe membership_view_safe
        learner_rounds_safe [OF ok]) (simp add: ensure_def)
  moreover have "fst (apply_fixed_voters_for_transition R started r) \<noteq> Inl Panicked"
    unfolding apply_fixed_voters_for_transition_def
    by (intro bindA_safe raisesA_safe liftA_safe pure_safe membership_view_safe desired_voters_safe
        drop_excluded_safe) (auto simp: change_membership_safe [OF ok] liftA_def)
  ultimately show ?thesis by blast
qed

section \<open>A removal\<close>

text \<open>Four active nodes, of which 1, 2 and 3 vote; node 2 is being removed. The Raft of the sample
  installs what it is asked to.\<close>

definition sample_descriptor :: "NodeId \<Rightarrow> NodeDescriptor" where
  "sample_descriptor node =
     \<lparr>nd_node_id = node, peer_address = replicate (unat node) CHR ''n'', storage_weight_millionths = 1,
      nd_state = Active, current_peer_spki_sha256 = ucast node, overlap_peer_spki_sha256 = None,
      join_capability_hash = None, supported_protocol = \<lparr>range_min = 1, range_max = 1\<rparr>,
      supported_storage_format = \<lparr>range_min = 1, range_max = 1\<rparr>\<rparr>"

definition sample_cluster :: ClusterControlState where
  "sample_cluster = cluster_control_default
     \<lparr>cc_nodes := map (\<lambda>n. (n, sample_descriptor n)) [1, 2, 3, 4],
      used_node_ids := foldl used_insert used_default [1, 2, 3, 4],
      cc_transition := Some \<lparr>mt_kind = TransitionRemove, mt_node_id = 2, started_log_index = 30,
                             target_weight_millionths = None\<rparr>\<rparr>"

definition sample_decisions :: StateMachine where
  "sample_decisions = (sample_state 5)\<lparr>cluster_control := sample_cluster\<rparr>"

definition sample_membership :: "u64 list \<Rightarrow> u64 list \<Rightarrow> CommittedMembership" where
  "sample_membership members voters =
     \<lparr>mb_voter_ids = voters, mb_nodes = map (\<lambda>n. (n, peer_address (sample_descriptor n))) members,
      mb_get_node = map_of (map (\<lambda>n. (n, peer_address (sample_descriptor n))) members),
      mb_learner_ids = filter (\<lambda>n. n \<notin> set voters) members, mb_joint_config_len = 1\<rparr>"

definition sample_raft :: "(u64 list \<times> u64 list) OpenRaft" where
  "sample_raft =
     \<lparr>raft_state = (\<lambda>r. (Inr sample_decisions, r)),
      committed_membership = (\<lambda>r. (Inr (sample_membership (fst r) (snd r)), r)),
      raft_initialize = (\<lambda>_ r. (Inr (), r)),
      raft_add_learner = (\<lambda>n _ _ r. (Inr (), (fst r @ [n], snd r))),
      raft_change_membership = (\<lambda>change _ r.
        (Inr (), case change of
                   ReplaceAllVoters vs \<Rightarrow> (fst r, vs)
                 | RemoveNodes ns \<Rightarrow> (filter (\<lambda>n. n \<notin> set ns) (fst r), snd r))),
      learner_progress = (\<lambda>_ r. (True, r))\<rparr>"

definition sample_view :: MembershipView where
  "sample_view = \<lparr>view_voters = [1, 2, 3], view_learners = [4],
     view_addresses = map (\<lambda>n. (n, peer_address (sample_descriptor n))) [1, 2, 3, 4], view_joint = False\<rparr>"

lemma sample_nodes_ok: "nodes_ok (used_node_ids sample_cluster) (cc_nodes sample_cluster)"
  by code_simp

lemma sample_cluster_ok: "cluster_ok sample_cluster"
proof -
  have "length (used_node_ids sample_cluster) = USED_NODE_ID_WORDS" by code_simp
  moreover have "transition_ok sample_cluster"
    by (simp add: transition_ok_def sample_cluster_def cluster_control_default_def bt_get_def
        target_ok_def sample_descriptor_def active_node_count_def)
  ultimately show ?thesis using sample_nodes_ok by (simp add: cluster_ok_def)
qed

lemma sample_desired:
  "desired_voters sample_cluster (Some 2) sample_view = Inr [1, 3, 4]"
  "excluded_node sample_cluster \<lparr>mt_kind = TransitionRemove, mt_node_id = 2, started_log_index = 30,
     target_weight_millionths = None\<rparr> = Inr (Some 2)"
  "bt_wf (cc_nodes sample_cluster)" "sorted_wrt (<) (view_voters sample_view)"
  by code_simp+

lemma sample_applied:
  "apply_fixed_voters_for_transition sample_raft 30 ([1, 2, 3, 4], [1, 2, 3]) =
     (Inr [1, 3, 4], ([1, 3, 4], [1, 3, 4]))"
  by code_simp

theorem desired_voters_correct_witness:
  "desired_voters sample_cluster (Some 2) sample_view = Inr [1, 3, 4] \<and>
   set [1, 3, 4] \<subseteq> eligible_ids sample_cluster (Some 2)"
  using desired_voters_correct [OF sample_desired(3,4), of "Some 2"] sample_desired(1) by blast

theorem desired_voters_accepted_witness:
  "desired_voters sample_cluster (Some 2) sample_view = Inr [1, 3, 4] \<and>
   voters_well_formed [1, 3, 4] = Inr () \<and> voters_allowed sample_cluster [1, 3, 4] = Inr ()"
  using desired_voters_accepted [OF sample_cluster_ok sample_desired(4) _ sample_desired(2,1)]
    sample_desired(1) by (simp add: sample_cluster_def)

theorem fixed_voters_complete_witness:
  "apply_fixed_voters_for_transition sample_raft 30 ([1, 2, 3, 4], [1, 2, 3]) =
     (Inr [1, 3, 4], ([1, 3, 4], [1, 3, 4])) \<and>
   validate_completion (Membership.truncate (sample_membership [1, 3, 4] [1, 3, 4])) sample_decisions 30 =
     Inr ()"
proof -
  let ?r = "([1, 3, 4], [1, 3, 4]) :: u64 list \<times> u64 list"
  have state: "raft_state sample_raft ([1, 2, 3, 4], [1, 2, 3]) = (Inr sample_decisions, ([1, 2, 3, 4], [1, 2, 3]))"
    by (simp add: sample_raft_def)
  have control: "cluster_control sample_decisions = sample_cluster" by (simp add: sample_decisions_def)
  from fixed_voters_complete [OF sample_applied state] sample_cluster_ok obtain m r1 where
    m: "committed_membership sample_raft r1 = (Inr m, ?r)"
    "membership_wf (Membership.truncate m) \<longrightarrow>
       validate_completion (Membership.truncate m) sample_decisions 30 = Inr ()"
    by (auto simp: control sample_cluster_def)
  then have "m = sample_membership [1, 3, 4] [1, 3, 4]" by (auto simp: sample_raft_def)
  moreover have "membership_wf (Membership.truncate (sample_membership [1, 3, 4] [1, 3, 4]))"
    by (simp add: membership_wf_def sample_membership_def Membership.truncate_def)
  ultimately show ?thesis using m(2) sample_applied by simp
qed

theorem membership_never_panics_witness:
  "cluster_ok (cluster_control sample_decisions) \<and>
   fst (apply_fixed_voters_for_transition sample_raft 30 ([1, 2, 3, 4], [1, 2, 3])) \<noteq> Inl Panicked"
  using membership_never_panics [of sample_raft 30 "([1, 2, 3, 4], [1, 2, 3])"] sample_cluster_ok
  by (simp add: sample_raft_def sample_decisions_def)

end
