(* ===== verification/Spec2Isabelle.thy ===== *)
theory Spec2Isabelle
  imports Raft_Storage Authz_Evaluator Program_Safety Program_Locks Placement Voter_Membership
begin

text \<open>
  A verification development for Keldra, a replicated object store written in Rust.

  \<^bold>\<open>The program.\<close> A Keldra cluster decides in one small Raft group, the decision cluster, what
  happened and in which order; objects, payloads and indices live outside it on the nodes. A client
  that changes several paths at once submits an atomic program. The executor, a node the decision
  cluster nominated, takes local locks on the paths, evaluates the program against a snapshot into a
  bundle of preconditions and writes, and asks the decision cluster to begin and then to commit
  that batch. The decision cluster also admits, reweights and removes nodes, and its leader hands
  out serving leases that say which node may serve. Requests are authorized by a Zanzibar
  evaluator, and data is placed on nodes by weighted rendezvous hashing. The development models these
  deciding parts: the crates \<^verbatim>\<open>keldra-consensus\<close>, \<^verbatim>\<open>keldra-authz\<close> and
  \<^verbatim>\<open>keldra-atomic-program\<close>, and \<^verbatim>\<open>placement.rs\<close> of the crate \<^verbatim>\<open>keldra\<close>.

  \<^bold>\<open>Conventions.\<close> A \<^verbatim>\<open>Result\<close> is a sum with the error on the left, and the control
  flow of \<^verbatim>\<open>?\<close>, \<^verbatim>\<open>ok_or\<close> and \<^verbatim>\<open>map_err\<close> is \<open>bindE\<close>, \<open>ok_or\<close>
  and \<open>map_err\<close>; a fallible method on \<^verbatim>\<open>&mut self\<close> returns its result together with the state
  it leaves, also when it fails (\<open>tryS\<close>). Integers are words of the width of the source, with
  checked and saturating arithmetic written out. A \<^verbatim>\<open>BTreeMap\<close> is a sorted association list with
  the operations \<open>bt_get\<close>, \<open>bt_insert\<close> and so on; the locale \<open>ordered_map\<close> states the laws
  of a map and is interpreted on them. Structs are records, enums are datatypes, with the names of the
  source; a derived order is an instance of \<open>linorder\<close>. All of this is in
  \<^bold>\<open>Keldra\_Prelude\<close>. Names that occur in several structs carry a prefix (\<open>bb_\<close>,
  \<open>cc_\<close>, \<open>nd_\<close>).

  \<^bold>\<open>Decision cluster\<close>, \<^verbatim>\<open>src/crates/keldra-consensus/src\<close>.

  \<^item> \<^bold>\<open>Consensus\_Types\<close> (\<^verbatim>\<open>types.rs\<close>): descriptors, transitions, batch records, commands,
    results, and the bitmap of used node identities.

  \<^item> \<^bold>\<open>Consensus\_Codec\<close> (\<^verbatim>\<open>codec.rs\<close>): size limits and the versioned envelope of durable
    records, a reader and a writer that agree exactly. Bincode is an argument.

  \<^item> \<^bold>\<open>Decision\_State\<close> (\<^verbatim>\<open>state_machine.rs\<close>): nomination, begin, commit, abort,
    finalization and pruning of committed invocations, over the record \<open>StateMachine\<close>, with the
    invariant \<open>decision_inv\<close> (accounting, order, limits) that every operation preserves.

  \<^item> \<^bold>\<open>Cluster\_Control\<close> (\<^verbatim>\<open>cluster_control.rs\<close>): admission, removal, reweighting,
    completion of a transition, rotation of pins, write-once settings, with the invariant
    \<open>cluster_ok\<close>.

  \<^item> \<^bold>\<open>Decision\_Machine\<close> (\<^verbatim>\<open>StateMachine::apply\<close> and \<^verbatim>\<open>raft.rs\<close>): dispatch on
    commands, the checks against the OpenRaft membership and the application of log entries. A run is
    \<open>run_entries\<close>, and \<open>reachable\<close> is what it leads to from a new machine.

  \<^item> \<^bold>\<open>Decision\_Runs\<close>: properties of whole runs. The invariant holds in every reachable state (C1);
    an invocation is committed again only after a begin that its expiry allows (C2), and is not lost
    before it is finalized (C3); internal errors are unreachable (C4); a finished transition leaves
    the fixed number of active voters (C5); the executor fence refuses whoever is not nominated
    (C6) and moves with a nomination (C7); cursors, identities and settings only move forward (C8);
    a completion is never refused for a state that does not match its transition (C9).

  \<^item> \<^bold>\<open>Raft\_Storage\<close> (\<^verbatim>\<open>raft_storage.rs\<close> and the OpenRaft adapters of \<^verbatim>\<open>raft.rs\<close>): the
    column families, the log, the journal of applied entries and snapshots. \<open>node_run\<close> is a running
    node in steps as fine as its locks: a batch is journaled and then applied, a snapshot is written and
    then taken over in memory, a builder clones the machine and later writes the clone, and any write
    may fail and the process may stop in between. A restart then recovers what was in flight (C10), except
    when a builder overwrites a newer snapshot, which loses what that snapshot held (C13). The log in
    RocksDB refines a gap-free log with a purge point (C11). C12 is the envelope of Consensus\_Codec.

  \<^item> \<^bold>\<open>Serving\_Lease\<close> (\<^verbatim>\<open>serving_lease.rs\<close>): quorum proofs, grants, cutover and the recipient, as
    steps of one issuing process and any recipients with drifting boot clocks; leases of two
    identities never overlap (C29).

  \<^item> \<^bold>\<open>Voter\_Membership\<close> (\<^verbatim>\<open>membership.rs\<close>, \<^verbatim>\<open>peer.rs\<close>): how a leader drives OpenRaft through
    a transition. The voters it computes are right (C31) and pass the guards of the call that installs
    them (C32), the machine then accepts the completion (C30), and no map access panics (C33).

  \<^bold>\<open>Authorization\<close>, \<^verbatim>\<open>src/crates/keldra-authz/src\<close>. \<^bold>\<open>Authz\_Model\<close> (\<^verbatim>\<open>model.rs\<close>,
  \<^verbatim>\<open>schema.rs\<close>) has the names, their validation and schema compilation; \<^bold>\<open>Authz\_Evaluator\<close>
  (\<^verbatim>\<open>evaluator.rs\<close>) the tuple index and the bounded search with its memo. The specification is the
  inductive relation \<open>granted\<close>. An answer of the search is exactly \<open>granted\<close> (C14), also in a
  batch with a shared memo (C15); once the request is accepted only the limits can make a check fail
  (C16), and depth cannot when few usersets are reachable (C17); the public principal needs its selector
  (C18); the index holds exactly the given tuples, each once (C19).

  \<^bold>\<open>Atomic programs\<close>, \<^verbatim>\<open>src/crates/keldra-atomic-program/src\<close>. \<^bold>\<open>Json\_Value\<close>
  (\<^verbatim>\<open>json.rs\<close>), \<^bold>\<open>Path\_Template\<close> (\<^verbatim>\<open>template.rs\<close>), \<^bold>\<open>Program\_Model\<close>
  (\<^verbatim>\<open>model.rs\<close>, \<^verbatim>\<open>error.rs\<close>), \<^bold>\<open>Program\_Engine\<close> (\<^verbatim>\<open>engine.rs\<close>) and
  \<^bold>\<open>Program\_Locks\<close> (\<^verbatim>\<open>locks.rs\<close>) follow the files of the crate; \<^bold>\<open>Program\_Safety\<close> has
  the properties of the engine. Every write of a bundle was announced to authorization (C20); the
  participants are the locked and read paths (C21); a validated program is never blamed at run time
  (C22); references stay in range (C23); checked addition is exact (C24). Locks are a step relation
  whose runs are bounded and end with every request served (C25) and whose guards are exclusive (C26).
  Pointers read back what they wrote (C27) and templates keep the shape of a path (C28).

  \<^bold>\<open>Placement\<close>, \<^verbatim>\<open>src/crates/keldra/src/placement.rs\<close>. Ranking a subset restricts the
  ranking of all nodes (C34), the ranking is ordered by exact score (C35), the integer logarithm is
  accurate (C36) and the four-limb square exact (C37). BLAKE3 is an argument.

  \<^bold>\<open>Bounds.\<close> No definition carries fuel of its own. The recursion of the evaluator counts down the
  \<^verbatim>\<open>max_depth\<close> of the source, and C17 says when that is enough; catching up a learner has the two
  rounds of the source, the logarithm its 64 rounds; every other loop runs over a list. Statements on log
  indices leave out the last 64-bit index, where \<^verbatim>\<open>saturating_add\<close> stops counting.

  \<^bold>\<open>Parameters.\<close> Third-party code is an argument: bincode and serde as \<open>Bincode\<close>,
  \<open>Serde\<close> and \<open>RaftSerde\<close> with the round trip as hypothesis, RocksDB as ordered maps with atomic
  write batches, OpenRaft as the entries it hands over and as the record \<open>OpenRaft\<close> of calls that
  thread its handle, \<^verbatim>\<open>serde_json\<close> as \<open>JsonLib\<close>, BLAKE3 and clocks as functions and
  readings. Each property with a hypothesis has a witness that instantiates it with concrete functions.

  \<^bold>\<open>Not modelled.\<close> Poisoned locks and failing reads of RocksDB, which return an error and change
  nothing; the debug text of values inside error messages; estimates of heap sizes, which depend on the
  layout of Rust types; gRPC, TLS and process start-up; the storage engine of \<^verbatim>\<open>keldra-store\<close>,
  the indices of \<^verbatim>\<open>keldra-index\<close>, and the services, gateways, client and command line on top of
  them, which are asynchronous code over RocksDB, files and the network.
\<close>

end
